(* ===== verification/Prelude.thy ===== *)
theory Prelude
  imports Main "HOL-Library.Word"
begin

unbundle bit_operations_syntax

text \<open>
  Shared vocabulary of the development: the machine integers of the C++ code, byte strings,
  \<^verbatim>\<open>Errno\<close> (\<^verbatim>\<open>src/src/util/errno.hpp\<close>) and \<^verbatim>\<open>Result<T>\<close>
  (\<^verbatim>\<open>src/src/util/result.hpp\<close>), the little-endian and big-endian byte images that
  \<^verbatim>\<open>memcpy\<close> and the XDR helpers produce, the FNV hash used in several tables, and the
  generic list lemmas the components share.  Byte images fix a little-endian host, as on the
  platforms the daemon is built for.
\<close>

section \<open>Types\<close>

type_synonym u8 = "8 word"
type_synonym u16 = "16 word"
type_synonym u32 = "32 word"
type_synonym u64 = "64 word"
type_synonym bytes = "u8 list"

abbreviation UINT32_MAX :: u32 where "UINT32_MAX \<equiv> 0xffffffff"
abbreviation UINT64_MAX :: u64 where "UINT64_MAX \<equiv> 0xffffffffffffffff"

text \<open>
  The peer address of a socket: an IPv4 address (4 bytes, in network order) or an IPv6 address (16
  bytes) with its port, or some other family, such as a unix socket.
\<close>

datatype sockaddr = SockIn bytes u16 | SockIn6 bytes u16 | SockOther

text \<open>
  \<^verbatim>\<open>enum class Errno : int32_t\<close>: the POSIX numbers plus the sentinels above them.  The
  numbers are those of Linux.
\<close>

type_synonym errno = int

abbreviation kOk :: errno where "kOk \<equiv> 0"
abbreviation kJukebox :: errno where "kJukebox \<equiv> 3000"
abbreviation kGarbage :: errno where "kGarbage \<equiv> 3001"
abbreviation kEof :: errno where "kEof \<equiv> 3002"
abbreviation kBadHandle :: errno where "kBadHandle \<equiv> 3003"
abbreviation kMoved :: errno where "kMoved \<equiv> 3004"
abbreviation kBadVerf :: errno where "kBadVerf \<equiv> 3005"

abbreviation EPERM :: errno where "EPERM \<equiv> 1"
abbreviation ENOENT :: errno where "ENOENT \<equiv> 2"
abbreviation EIO :: errno where "EIO \<equiv> 5"
abbreviation ENXIO :: errno where "ENXIO \<equiv> 6"
abbreviation EAGAIN :: errno where "EAGAIN \<equiv> 11"
abbreviation EACCES :: errno where "EACCES \<equiv> 13"
abbreviation EEXIST :: errno where "EEXIST \<equiv> 17"
abbreviation EXDEV :: errno where "EXDEV \<equiv> 18"
abbreviation ENODEV :: errno where "ENODEV \<equiv> 19"
abbreviation ENOTDIR :: errno where "ENOTDIR \<equiv> 20"
abbreviation EISDIR :: errno where "EISDIR \<equiv> 21"
abbreviation EINVAL :: errno where "EINVAL \<equiv> 22"
abbreviation EFBIG :: errno where "EFBIG \<equiv> 27"
abbreviation ENOSPC :: errno where "ENOSPC \<equiv> 28"
abbreviation EROFS :: errno where "EROFS \<equiv> 30"
abbreviation EMLINK :: errno where "EMLINK \<equiv> 31"
abbreviation ENAMETOOLONG :: errno where "ENAMETOOLONG \<equiv> 36"
abbreviation ENOTEMPTY :: errno where "ENOTEMPTY \<equiv> 39"
abbreviation EBADMSG :: errno where "EBADMSG \<equiv> 74"
abbreviation EMSGSIZE :: errno where "EMSGSIZE \<equiv> 90"
abbreviation EOPNOTSUPP :: errno where "EOPNOTSUPP \<equiv> 95"
abbreviation ENOTCONN :: errno where "ENOTCONN \<equiv> 107"
abbreviation ETIMEDOUT :: errno where "ETIMEDOUT \<equiv> 110"
abbreviation ESTALE :: errno where "ESTALE \<equiv> 116"
abbreviation EDQUOT :: errno where "EDQUOT \<equiv> 122"

text \<open>\<^verbatim>\<open>Result<T>\<close>: the error on the left.  \<^verbatim>\<open>LNFS_TRY\<close> propagates it.\<close>

type_synonym 'a res = "errno + 'a"

definition try_res :: "'a res \<Rightarrow> ('a \<Rightarrow> 'b res) \<Rightarrow> 'b res" where
  "try_res r f = (case r of Inl e \<Rightarrow> Inl e | Inr v \<Rightarrow> f v)"

section \<open>Byte images of machine words\<close>

text \<open>\<^verbatim>\<open>memcpy(p, &w, n)\<close> on a little-endian host: the lowest byte first.\<close>

fun le_bytes :: "nat \<Rightarrow> 'a::len word \<Rightarrow> bytes" where
  "le_bytes 0 w = []"
| "le_bytes (Suc n) w = ucast w # le_bytes n (drop_bit 8 w)"

text \<open>\<^verbatim>\<open>memcpy(&w, p, n)\<close> into a zeroed word.\<close>

fun le_word :: "bytes \<Rightarrow> 'a::len word" where
  "le_word [] = 0"
| "le_word (b # bs) = ucast b OR push_bit 8 (le_word bs)"

section \<open>FNV-1a\<close>

text \<open>
  The hash of \<^verbatim>\<open>state_mgr.cpp\<close>, \<^verbatim>\<open>rpc_msg.cpp\<close> and
  \<^verbatim>\<open>pseudofs.cpp\<close>: 64-bit wrap-around multiplication.
\<close>

definition fnv_step :: "u64 \<Rightarrow> u8 \<Rightarrow> u64" where
  "fnv_step h c = (h XOR ucast c) * 1099511628211"

definition fnv64 :: "bytes \<Rightarrow> u64" where
  "fnv64 bs = fold (\<lambda>c h. fnv_step h c) bs 1469598103934665603"

section \<open>Lemmas\<close>

named_theorems codec_simps \<open>rewrite rules of the wire codecs\<close>

lemma try_res_simps [simp]:
  "try_res (Inl e) f = Inl e"
  "try_res (Inr v) f = f v"
  by (simp_all add: try_res_def)

lemma try_res_eq_Inr: "try_res r f = Inr y \<longleftrightarrow> (\<exists>v. r = Inr v \<and> f v = Inr y)"
  by (cases r) auto

lemma try_res_eq_Inl: "try_res r f = Inl e \<longleftrightarrow> r = Inl e \<or> (\<exists>v. r = Inr v \<and> f v = Inl e)"
  by (cases r) auto

lemma length_le_bytes [simp]: "length (le_bytes n w) = n"
  by (induction n arbitrary: w) auto

lemma nth_le_bytes: "i < n \<Longrightarrow> le_bytes n w ! i = ucast (drop_bit (8 * i) w)"
proof (induction n arbitrary: w i)
  case (Suc n)
  then show ?case by (cases i) (auto simp: add.commute)
qed simp

lemma bit_le_word:
  "bit (le_word bs :: 'a::len word) i \<longleftrightarrow>
     i < LENGTH('a) \<and> i div 8 < length bs \<and> bit (bs ! (i div 8)) (i mod 8)"
proof (induction bs arbitrary: i)
  case (Cons b bs)
  show ?case
  proof (cases "i < 8")
    case True
    then show ?thesis by (auto simp: bit_simps)
  next
    case False
    then have *: "i div 8 = Suc ((i - 8) div 8)" "i mod 8 = (i - 8) mod 8"
      by (simp_all add: le_div_geq le_mod_geq)
    from False have "\<not> bit b i" using bit_imp_le_length[of b i] by auto
    with False * Cons.IH [of "i - 8"] show ?thesis by (auto simp: bit_simps)
  qed
qed simp

lemma le_word_le_bytes: "LENGTH('a) \<le> 8 * n \<Longrightarrow> le_word (le_bytes n w) = (w :: 'a::len word)"
proof (rule bit_word_eqI)
  fix i assume n: "LENGTH('a) \<le> 8 * n" and i: "i < LENGTH('a)"
  then have "i div 8 < n" by (simp add: less_mult_imp_div_less mult.commute)
  moreover have "i mod 8 < 8" by simp
  moreover have "8 * (i div 8) + i mod 8 = i" by simp
  ultimately show "bit (le_word (le_bytes n w) :: 'a word) i = bit w i"
    using i by (auto simp: bit_le_word nth_le_bytes bit_simps simp del: mod_less_divisor)
qed

lemma le_bytes_le_word: "8 * length bs \<le> LENGTH('a) \<Longrightarrow> le_bytes (length bs) (le_word bs :: 'a::len word) = bs"
proof (rule nth_equalityI, simp)
  fix i assume n: "8 * length bs \<le> LENGTH('a)" and i: "i < length (le_bytes (length bs) (le_word bs :: 'a::len word))"
  show "le_bytes (length bs) (le_word bs :: 'a word) ! i = bs ! i"
  proof (rule bit_word_eqI)
    fix j assume "j < LENGTH(8)"
    with n i show "bit (le_bytes (length bs) (le_word bs :: 'a word) ! i) j = bit (bs ! i) j"
      by (auto simp: nth_le_bytes bit_simps bit_le_word)
  qed
qed

lemma removeAll_empty: "removeAll r xs = [] \<longleftrightarrow> (\<forall>x\<in>set xs. x = r)"
  by (induction xs) auto

end
