(* ===== verification/LockMgr.thy ===== *)
theory LockMgr
  imports Prelude
begin

text \<open>
  The gateway byte-range lock table (\<^verbatim>\<open>src/src/state/lock_mgr.hpp\<close>,
  \<^verbatim>\<open>lock_mgr.cpp\<close>) and the lock types of the backend interface it uses
  (\<^verbatim>\<open>src/src/backend/api.hpp\<close>).  A file's locks are a list of segments; a grant
  carves the owner's own coverage out of the range, appends the new segment and coalesces.
  The sixteen shards of the table partition the files by hash and no operation touches two
  files, so the model keeps one map from files to segment lists.  \<^verbatim>\<open>std::sort\<close> is
  modelled by the stable \<open>sort_key\<close>, one of the orders it may produce.
\<close>

section \<open>Data\<close>

type_synonym ObjId = bytes

datatype FileKey = FileKey (fk_fsid: u32) (fk_oid: ObjId)

record LockOwnerId =
  lo_bytes :: bytes
  lo_len :: nat

record LockRange =
  rng_offset :: u64
  rng_length :: u64

record LockConflict =
  con_owner :: LockOwnerId
  con_range :: LockRange
  con_exclusive :: bool

record LockSeg =
  seg_owner :: LockOwnerId
  seg_start :: u64
  seg_end :: u64
  seg_exclusive :: bool

record LockTab =
  lt_files :: "FileKey \<rightharpoonup> LockSeg list"
  lt_total :: u64
  lt_nfiles :: u64

definition empty_tab :: LockTab where
  "empty_tab = \<lparr>lt_files = Map.empty, lt_total = 0, lt_nfiles = 0\<rparr>"

section \<open>Operations\<close>

definition same_owner :: "LockOwnerId \<Rightarrow> LockOwnerId \<Rightarrow> bool" where
  "same_owner a b \<longleftrightarrow>
     lo_len a = lo_len b \<and> take (lo_len a) (lo_bytes a) = take (lo_len a) (lo_bytes b)"

definition range_end :: "LockRange \<Rightarrow> u64" where
  "range_end r =
     (if rng_length r = UINT64_MAX \<or> rng_offset r > UINT64_MAX - rng_length r then UINT64_MAX
      else rng_offset r + rng_length r)"

definition to_range :: "u64 \<Rightarrow> u64 \<Rightarrow> LockRange" where
  "to_range start end' =
     \<lparr>rng_offset = start,
      rng_length = (if end' = UINT64_MAX then UINT64_MAX else end' - start)\<rparr>"

definition overlaps :: "LockSeg \<Rightarrow> u64 \<Rightarrow> u64 \<Rightarrow> bool" where
  "overlaps s start end' \<longleftrightarrow> seg_start s < end' \<and> start < seg_end s"

definition conflict_of :: "LockSeg \<Rightarrow> LockConflict" where
  "conflict_of s =
     \<lparr>con_owner = seg_owner s, con_range = to_range (seg_start s) (seg_end s),
      con_exclusive = seg_exclusive s\<rparr>"

text \<open>The loop body of \<^verbatim>\<open>carve\<close>: what one segment leaves behind.\<close>

definition carve_seg :: "LockOwnerId \<Rightarrow> u64 \<Rightarrow> u64 \<Rightarrow> LockSeg \<Rightarrow> LockSeg list" where
  "carve_seg owner start end' s =
     (if \<not> same_owner (seg_owner s) owner \<or> \<not> overlaps s start end' then [s]
      else (if seg_start s < start then [s\<lparr>seg_end := start\<rparr>] else []) @
           (if seg_end s > end' then [s\<lparr>seg_start := end'\<rparr>] else []))"

definition carve :: "LockSeg list \<Rightarrow> LockOwnerId \<Rightarrow> u64 \<Rightarrow> u64 \<Rightarrow> LockSeg list" where
  "carve segs owner start end' = concat (map (carve_seg owner start end') segs)"

text \<open>
  \<^verbatim>\<open>coalesce\<close>: each segment in start order is fused into the last collected segment it
  touches (the reverse iteration over \<^verbatim>\<open>out\<close>), or appended.
\<close>

definition fusible :: "LockSeg \<Rightarrow> LockSeg \<Rightarrow> bool" where
  "fusible t s \<longleftrightarrow> same_owner (seg_owner t) (seg_owner s) \<and> seg_exclusive t = seg_exclusive s \<and>
     seg_end t \<ge> seg_start s \<and> seg_end s \<ge> seg_start t"

fun fuse_first :: "LockSeg list \<Rightarrow> LockSeg \<Rightarrow> LockSeg list option" where
  "fuse_first [] s = None"
| "fuse_first (t # ts) s =
     (if fusible t s
      then Some (t\<lparr>seg_start := min (seg_start t) (seg_start s),
                   seg_end := max (seg_end t) (seg_end s)\<rparr> # ts)
      else map_option (Cons t) (fuse_first ts s))"

definition coalesce_step :: "LockSeg list \<Rightarrow> LockSeg \<Rightarrow> LockSeg list" where
  "coalesce_step out s = (case fuse_first (rev out) s of Some out' \<Rightarrow> rev out' | None \<Rightarrow> out @ [s])"

definition coalesce :: "LockSeg list \<Rightarrow> LockSeg list" where
  "coalesce segs = sort_key seg_start (foldl coalesce_step [] (sort_key seg_start segs))"

text \<open>
  \<^verbatim>\<open>account\<close> runs after the segment list of \<open>key\<close> was replaced in place: the model
  passes the new list and stores it unless the entry is erased.
\<close>

definition account :: "FileKey \<Rightarrow> LockSeg list \<Rightarrow> nat \<Rightarrow> LockTab \<Rightarrow> LockTab" where
  "account key segs before t =
     (let after = length segs;
          total = (if after > before then lt_total t + of_nat (after - before)
                   else if before > after then lt_total t - of_nat (before - after)
                   else lt_total t)
      in if after = 0
         then t\<lparr>lt_files := (lt_files t)(key := None), lt_total := total,
                lt_nfiles := lt_nfiles t - 1\<rparr>
         else t\<lparr>lt_files := (lt_files t)(key \<mapsto> segs), lt_total := total\<rparr>)"

text \<open>The segment a request by \<open>owner\<close> collides with, if any (\<open>None\<close>: \<^verbatim>\<open>LOCKT\<close> without owner).\<close>

definition first_conflict ::
  "LockOwnerId option \<Rightarrow> u64 \<Rightarrow> u64 \<Rightarrow> bool \<Rightarrow> LockSeg list \<Rightarrow> LockSeg option" where
  "first_conflict owner start end' exclusive =
     find (\<lambda>seg. \<not> ((case owner of None \<Rightarrow> False | Some ow \<Rightarrow> same_owner (seg_owner seg) ow)
                   \<or> \<not> overlaps seg start end') \<and> (exclusive \<or> seg_exclusive seg))"

definition lock ::
  "LockTab \<Rightarrow> FileKey \<Rightarrow> LockOwnerId \<Rightarrow> LockRange \<Rightarrow> bool \<Rightarrow> LockConflict option \<times> LockTab" where
  "lock t file owner rng exclusive =
     (let start = rng_offset rng;
          end' = range_end rng;
          t1 = (case lt_files t file of
                  None \<Rightarrow> t\<lparr>lt_files := (lt_files t)(file \<mapsto> []), lt_nfiles := lt_nfiles t + 1\<rparr>
                | Some _ \<Rightarrow> t);
          segs = the (lt_files t1 file)
      in case first_conflict (Some owner) start end' exclusive segs of
           Some seg \<Rightarrow>
             (Some (conflict_of seg),
              if segs = []
              then t1\<lparr>lt_files := (lt_files t1)(file := None), lt_nfiles := lt_nfiles t1 - 1\<rparr>
              else t1)
         | None \<Rightarrow>
             (None,
              account file
                (coalesce (carve segs owner start end' @
                           [\<lparr>seg_owner = owner, seg_start = start, seg_end = end',
                             seg_exclusive = exclusive\<rparr>]))
                (length segs) t1))"

definition unlock :: "LockTab \<Rightarrow> FileKey \<Rightarrow> LockOwnerId \<Rightarrow> LockRange \<Rightarrow> LockTab" where
  "unlock t file owner rng =
     (case lt_files t file of
        None \<Rightarrow> t
      | Some segs \<Rightarrow>
          account file (carve segs owner (rng_offset rng) (range_end rng)) (length segs) t)"

definition test ::
  "LockTab \<Rightarrow> FileKey \<Rightarrow> LockOwnerId option \<Rightarrow> LockRange \<Rightarrow> bool \<Rightarrow> LockConflict option" where
  "test t file owner rng exclusive =
     (case lt_files t file of
        None \<Rightarrow> None
      | Some segs \<Rightarrow>
          map_option conflict_of
            (first_conflict owner (rng_offset rng) (range_end rng) exclusive segs))"

definition release_owner :: "LockTab \<Rightarrow> FileKey \<Rightarrow> LockOwnerId \<Rightarrow> nat \<times> LockTab" where
  "release_owner t file owner =
     (case lt_files t file of
        None \<Rightarrow> (0, t)
      | Some segs \<Rightarrow>
          let kept = filter (\<lambda>seg. \<not> same_owner (seg_owner seg) owner) segs
          in (length segs - length kept, account file kept (length segs) t))"

definition count_owner :: "LockTab \<Rightarrow> FileKey \<Rightarrow> LockOwnerId \<Rightarrow> nat" where
  "count_owner t file owner =
     (case lt_files t file of
        None \<Rightarrow> 0
      | Some segs \<Rightarrow> length (filter (\<lambda>seg. same_owner (seg_owner seg) owner) segs))"

definition segments :: "LockTab \<Rightarrow> FileKey \<Rightarrow> LockSeg list" where
  "segments t file = (case lt_files t file of None \<Rightarrow> [] | Some segs \<Rightarrow> segs)"

text \<open>The \<^verbatim>\<open>backend::LockMgr\<close> adapter: keyed by object id under fsid 0, never blocking.\<close>

definition adapter_lock ::
  "LockTab \<Rightarrow> ObjId \<Rightarrow> LockOwnerId \<Rightarrow> LockRange \<Rightarrow> bool \<Rightarrow> unit res \<times> LockTab" where
  "adapter_lock t oid owner rng exclusive =
     (case lock t (FileKey 0 oid) owner rng exclusive of
        (Some _, t') \<Rightarrow> (Inl EAGAIN, t')
      | (None, t') \<Rightarrow> (Inr (), t'))"

definition adapter_unlock ::
  "LockTab \<Rightarrow> ObjId \<Rightarrow> LockOwnerId \<Rightarrow> LockRange \<Rightarrow> unit res \<times> LockTab" where
  "adapter_unlock t oid owner rng = (Inr (), unlock t (FileKey 0 oid) owner rng)"

definition adapter_test :: "LockTab \<Rightarrow> ObjId \<Rightarrow> LockRange \<Rightarrow> bool \<Rightarrow> LockConflict option res" where
  "adapter_test t oid rng exclusive = Inr (test t (FileKey 0 oid) None rng exclusive)"

section \<open>Coverage: the abstract view of a segment list\<close>

text \<open>The byte \<open>b\<close> is locked by (the class of) \<open>ow\<close> with type \<open>x\<close> (exclusive or shared).\<close>

definition covers :: "LockSeg list \<Rightarrow> LockOwnerId \<Rightarrow> bool \<Rightarrow> u64 \<Rightarrow> bool" where
  "covers segs ow x b \<longleftrightarrow>
     (\<exists>s\<in>set segs. same_owner (seg_owner s) ow \<and> seg_exclusive s = x \<and> seg_start s \<le> b \<and> b < seg_end s)"

definition proper :: "LockSeg \<Rightarrow> bool" where
  "proper s \<longleftrightarrow> seg_start s < seg_end s"

text \<open>No empty list is kept for a file, and no segment is empty.\<close>

definition segs_ok :: "LockSeg list \<Rightarrow> bool" where
  "segs_ok segs \<longleftrightarrow> segs \<noteq> [] \<and> (\<forall>s\<in>set segs. proper s)"

text \<open>The atomic counters \<^verbatim>\<open>total_\<close> and \<^verbatim>\<open>files_\<close> agree with the table.\<close>

definition counters_ok :: "LockTab \<Rightarrow> bool" where
  "counters_ok t \<longleftrightarrow> finite (dom (lt_files t)) \<and>
     lt_nfiles t = of_nat (card (dom (lt_files t))) \<and>
     lt_total t = of_nat (\<Sum>k\<in>dom (lt_files t). length (the (lt_files t k)))"

definition tab_ok :: "LockTab \<Rightarrow> bool" where
  "tab_ok t \<longleftrightarrow> (\<forall>k segs. lt_files t k = Some segs \<longrightarrow> segs_ok segs) \<and> counters_ok t"

definition held :: "LockTab \<Rightarrow> FileKey \<Rightarrow> LockOwnerId \<Rightarrow> bool \<Rightarrow> u64 \<Rightarrow> bool" where
  "held t k = covers (segments t k)"

definition proper_range :: "LockRange \<Rightarrow> bool" where
  "proper_range r \<longleftrightarrow> rng_offset r < range_end r"

definition in_range :: "LockRange \<Rightarrow> u64 \<Rightarrow> bool" where
  "in_range r b \<longleftrightarrow> rng_offset r \<le> b \<and> b < range_end r"

section \<open>Lemmas on segment lists\<close>

lemma same_owner_refl [simp]: "same_owner a a"
  by (simp add: same_owner_def)

lemma same_owner_sym: "same_owner a b \<longleftrightarrow> same_owner b a"
  by (auto simp: same_owner_def)

lemma same_owner_trans: "same_owner a b \<Longrightarrow> same_owner b c \<Longrightarrow> same_owner a c"
  by (auto simp: same_owner_def)

lemma same_owner_cong: "same_owner a b \<Longrightarrow> same_owner a c \<longleftrightarrow> same_owner b c"
  using same_owner_sym same_owner_trans by blast

lemma covers_simps [simp]:
  "covers [] ow x b \<longleftrightarrow> False"
  "covers (s # segs) ow x b \<longleftrightarrow>
     same_owner (seg_owner s) ow \<and> seg_exclusive s = x \<and> seg_start s \<le> b \<and> b < seg_end s \<or> covers segs ow x b"
  "covers (xs @ ys) ow x b \<longleftrightarrow> covers xs ow x b \<or> covers ys ow x b"
  by (auto simp: covers_def)

lemma covers_sort [simp]: "covers (sort_key f segs) = covers segs"
  by (simp add: covers_def fun_eq_iff)

lemma covers_rev [simp]: "covers (rev segs) = covers segs"
  by (simp add: covers_def fun_eq_iff)

lemma covers_owner_cong: "same_owner a b \<Longrightarrow> covers segs a = covers segs b"
  unfolding covers_def fun_eq_iff using same_owner_sym same_owner_trans by blast

lemma covers_carve_seg:
  "covers (carve_seg owner start end' s) ow x b \<longleftrightarrow>
     covers [s] ow x b \<and> \<not> (same_owner ow owner \<and> start \<le> b \<and> b < end')"
proof (cases "same_owner (seg_owner s) owner")
  case True
  then have "same_owner (seg_owner s) ow \<longleftrightarrow> same_owner ow owner"
    using same_owner_sym same_owner_trans by blast
  with True show ?thesis
    by (auto simp: carve_seg_def overlaps_def)
next
  case False
  then have "same_owner (seg_owner s) ow \<Longrightarrow> \<not> same_owner ow owner"
    using same_owner_trans by blast
  with False show ?thesis by (auto simp: carve_seg_def)
qed

lemma covers_carve:
  "covers (carve segs owner start end') ow x b \<longleftrightarrow>
     covers segs ow x b \<and> \<not> (same_owner ow owner \<and> start \<le> b \<and> b < end')"
proof (induction segs)
  case (Cons s segs)
  have "covers (carve (s # segs) owner start end') ow x b \<longleftrightarrow>
      covers (carve_seg owner start end' s) ow x b \<or> covers (carve segs owner start end') ow x b"
    by (simp add: carve_def)
  with Cons show ?case by (auto simp: covers_carve_seg)
qed (simp add: carve_def)

lemma proper_carve: "\<forall>s\<in>set segs. proper s \<Longrightarrow> s \<in> set (carve segs owner start end') \<Longrightarrow> proper s"
  by (auto simp: carve_def carve_seg_def proper_def split: if_splits)

lemma fuse_first_covers:
  "fuse_first ts s = Some ts' \<Longrightarrow> \<forall>t\<in>set ts. proper t \<Longrightarrow> proper s \<Longrightarrow>
     covers ts' ow x b \<longleftrightarrow> covers ts ow x b \<or> covers [s] ow x b"
proof (induction ts arbitrary: ts')
  case (Cons t ts)
  show ?case
  proof (cases "fusible t s")
    case True
    with Cons.prems have ts': "ts' = t\<lparr>seg_start := min (seg_start t) (seg_start s),
                   seg_end := max (seg_end t) (seg_end s)\<rparr> # ts" by simp
    have "same_owner (seg_owner t) ow \<longleftrightarrow> same_owner (seg_owner s) ow"
      using True same_owner_cong fusible_def by blast
    with True Cons.prems show ?thesis
      unfolding ts' by (auto simp: fusible_def proper_def min_def max_def)
  next
    case False
    with Cons show ?thesis by auto
  qed
qed simp

lemma fuse_first_proper:
  "fuse_first ts s = Some ts' \<Longrightarrow> \<forall>t\<in>set ts. proper t \<Longrightarrow> proper s \<Longrightarrow> \<forall>t\<in>set ts'. proper t"
proof (induction ts arbitrary: ts')
  case (Cons t ts)
  then show ?case
    by (cases "fusible t s") (auto simp: proper_def min_less_iff_disj less_max_iff_disj)
qed simp

lemma coalesce_step_proper:
  "\<forall>t\<in>set out. proper t \<Longrightarrow> proper s \<Longrightarrow> \<forall>t\<in>set (coalesce_step out s). proper t"
  using fuse_first_proper [of "rev out" s] by (auto simp: coalesce_step_def split: option.splits)

lemma coalesce_step_covers:
  "\<forall>t\<in>set out. proper t \<Longrightarrow> proper s \<Longrightarrow>
     covers (coalesce_step out s) ow x b \<longleftrightarrow> covers out ow x b \<or> covers [s] ow x b"
  using fuse_first_covers [of "rev out" s] by (auto simp: coalesce_step_def split: option.splits)

lemma foldl_coalesce:
  "\<forall>t\<in>set out. proper t \<Longrightarrow> \<forall>t\<in>set segs. proper t \<Longrightarrow>
     (\<forall>t\<in>set (foldl coalesce_step out segs). proper t) \<and>
     (covers (foldl coalesce_step out segs) ow x b \<longleftrightarrow> covers out ow x b \<or> covers segs ow x b)"
proof (induction segs arbitrary: out)
  case (Cons s segs)
  then have p: "\<forall>t\<in>set (coalesce_step out s). proper t"
    by (intro coalesce_step_proper) simp_all
  from Cons.prems have c: "covers (coalesce_step out s) ow x b \<longleftrightarrow> covers out ow x b \<or> covers [s] ow x b"
    by (intro coalesce_step_covers) simp_all
  from Cons.prems have "\<forall>t\<in>set segs. proper t" by simp
  from Cons.IH [OF p this] c show ?case by simp
qed simp

lemma coalesce_covers: "\<forall>t\<in>set segs. proper t \<Longrightarrow> covers (coalesce segs) ow x b \<longleftrightarrow> covers segs ow x b"
  using foldl_coalesce [of "[]" "sort_key seg_start segs" ow x b] by (simp add: coalesce_def)

lemma coalesce_proper: "\<forall>t\<in>set segs. proper t \<Longrightarrow> t \<in> set (coalesce segs) \<Longrightarrow> proper t"
  using foldl_coalesce [of "[]" "sort_key seg_start segs"] by (auto simp: coalesce_def)

lemma coalesce_sorted: "sorted (map seg_start (coalesce segs))"
  by (simp add: coalesce_def)

lemma coalesce_nonempty:
  assumes "\<forall>t\<in>set segs. proper t" and "segs \<noteq> []"
  shows "coalesce segs \<noteq> []"
proof -
  from assms obtain s where s: "s \<in> set segs" "proper s" by (cases segs) auto
  then have "covers segs (seg_owner s) (seg_exclusive s) (seg_start s)"
    by (auto simp: covers_def proper_def intro!: bexI [of _ s])
  with assms(1) have "covers (coalesce segs) (seg_owner s) (seg_exclusive s) (seg_start s)"
    by (simp add: coalesce_covers)
  then show ?thesis by auto
qed

section \<open>Lemmas on the table\<close>

definition opened :: "LockTab \<Rightarrow> FileKey \<Rightarrow> LockTab" where
  "opened t file = (case lt_files t file of
     None \<Rightarrow> t\<lparr>lt_files := (lt_files t)(file \<mapsto> []), lt_nfiles := lt_nfiles t + 1\<rparr>
   | Some _ \<Rightarrow> t)"

definition granted_segs :: "LockSeg list \<Rightarrow> LockOwnerId \<Rightarrow> LockRange \<Rightarrow> bool \<Rightarrow> LockSeg list" where
  "granted_segs segs owner rng x = coalesce (carve segs owner (rng_offset rng) (range_end rng) @
     [\<lparr>seg_owner = owner, seg_start = rng_offset rng, seg_end = range_end rng, seg_exclusive = x\<rparr>])"

lemma account_files:
  "lt_files (account k segs n t) = (lt_files t)(k := if segs = [] then None else Some segs)"
  by (simp add: account_def Let_def)

lemma segments_account [simp]:
  "segments (account k segs n t) k' = (if k' = k then segs else segments t k')"
  by (simp add: segments_def account_files)

lemma opened_files: "lt_files (opened t k) = (lt_files t)(k \<mapsto> segments t k)"
  by (auto simp: opened_def segments_def split: option.splits)

lemma lock_eq:
  "lock t file owner rng x =
     (case first_conflict (Some owner) (rng_offset rng) (range_end rng) x (segments t file) of
        Some seg \<Rightarrow> (Some (conflict_of seg), t)
      | None \<Rightarrow> (None, account file (granted_segs (segments t file) owner rng x)
                       (length (segments t file)) (opened t file)))"
  by (auto simp: lock_def Let_def opened_def segments_def granted_segs_def first_conflict_def
      split: option.splits)

lemma counters_opened: "counters_ok t \<Longrightarrow> counters_ok (opened t k)"
proof (cases "lt_files t k")
  case None
  assume ok: "counters_ok t"
  from None have k: "k \<notin> dom (lt_files t)" by auto
  have "(\<Sum>j\<in>dom (lt_files t). length (the (((lt_files t)(k \<mapsto> [])) j))) =
      (\<Sum>j\<in>dom (lt_files t). length (the (lt_files t j)))"
    using k by (intro sum.cong) auto
  with ok None k show ?thesis
    by (simp add: counters_ok_def opened_def)
qed (simp add: opened_def)

lemma counters_account:
  assumes ok: "counters_ok t" and k: "lt_files t k = Some old"
  shows "counters_ok (account k segs (length old) t)"
proof -
  let ?D = "dom (lt_files t)" and ?F = "\<lambda>m j. length (the (m j))"
  from ok have fin: "finite ?D" by (simp add: counters_ok_def)
  from k have kD: "k \<in> ?D" by auto
  define R where "R = (\<Sum>j\<in>?D - {k}. ?F (lt_files t) j)"
  have old: "(\<Sum>j\<in>?D. ?F (lt_files t) j) = length old + R"
    using sum.remove [OF fin kD, of "?F (lt_files t)"] k by (simp add: R_def)
  have rest: "(\<Sum>j\<in>?D - {k}. ?F ((lt_files t)(k := v)) j) = R" for v
    unfolding R_def by (intro sum.cong) auto
  have new: "(\<Sum>j\<in>?D. ?F ((lt_files t)(k \<mapsto> segs)) j) = length segs + R"
    using sum.remove [OF fin kD, of "?F ((lt_files t)(k \<mapsto> segs))"] rest [of "Some segs"] by simp
  have tot: "lt_total (account k segs (length old) t) = of_nat (length segs + R)"
    using ok old by (auto simp: account_def Let_def counters_ok_def of_nat_diff)
  show ?thesis
  proof (cases "segs = []")
    case True
    have "dom ((lt_files t)(k := None)) = ?D - {k}" by simp
    moreover have "(of_nat (card (?D - {k})) :: u64) = of_nat (card ?D) - 1"
      using card_Suc_Diff1 [OF fin kD] by (metis add_diff_cancel_left' of_nat_Suc)
    ultimately show ?thesis
      using True ok tot rest [of None] fin
      by (simp add: counters_ok_def account_files) (simp add: account_def Let_def)
  next
    case False
    then show ?thesis
      using ok tot new kD fin
      by (simp add: counters_ok_def account_files insert_absorb) (simp add: account_def Let_def)
  qed
qed

lemma first_conflict_None:
  "first_conflict ow start end' x segs = None \<longleftrightarrow>
     (\<forall>seg\<in>set segs. \<not> (case ow of None \<Rightarrow> False | Some w \<Rightarrow> same_owner (seg_owner seg) w) \<longrightarrow>
        overlaps seg start end' \<longrightarrow> \<not> x \<and> \<not> seg_exclusive seg)"
  by (auto simp: first_conflict_def find_None_iff)

lemma first_conflict_Some:
  "first_conflict ow start end' x segs = Some seg \<Longrightarrow>
     seg \<in> set segs \<and> \<not> (case ow of None \<Rightarrow> False | Some w \<Rightarrow> same_owner (seg_owner seg) w) \<and>
     overlaps seg start end' \<and> (x \<or> seg_exclusive seg)"
  unfolding first_conflict_def by (auto simp: find_Some_iff)

lemma overlaps_iff:
  assumes "proper seg" and "start < end'"
  shows "overlaps seg start end' \<longleftrightarrow> (\<exists>b. start \<le> b \<and> b < end' \<and> seg_start seg \<le> b \<and> b < seg_end seg)"
proof
  assume "overlaps seg start end'"
  then show "\<exists>b. start \<le> b \<and> b < end' \<and> seg_start seg \<le> b \<and> b < seg_end seg"
    using assms by (intro exI [of _ "max start (seg_start seg)"])
      (auto simp: overlaps_def proper_def max_def)
next
  assume "\<exists>b. start \<le> b \<and> b < end' \<and> seg_start seg \<le> b \<and> b < seg_end seg"
  then show "overlaps seg start end'" by (auto simp: overlaps_def)
qed

text \<open>A request is refused exactly when another owner holds a byte of the range incompatibly.\<close>

lemma first_conflict_iff_covers:
  assumes "\<forall>s\<in>set segs. proper s" and "start < end'"
  shows "first_conflict (Some owner) start end' x segs \<noteq> None \<longleftrightarrow>
     (\<exists>ow y b. \<not> same_owner ow owner \<and> covers segs ow y b \<and> start \<le> b \<and> b < end' \<and> (x \<or> y))"
    (is "?L \<longleftrightarrow> ?R")
proof
  assume ?L
  then obtain seg where "first_conflict (Some owner) start end' x segs = Some seg" by auto
  from first_conflict_Some [OF this]
  have s: "seg \<in> set segs" "\<not> same_owner (seg_owner seg) owner" "overlaps seg start end'"
    "x \<or> seg_exclusive seg" by auto
  with assms obtain b where "start \<le> b" "b < end'" "seg_start seg \<le> b" "b < seg_end seg"
    using overlaps_iff by blast
  with s have "covers segs (seg_owner seg) (seg_exclusive seg) b"
    unfolding covers_def by (intro bexI [of _ seg]) (simp_all add: same_owner_refl)
  with s \<open>start \<le> b\<close> \<open>b < end'\<close> show ?R by blast
next
  assume ?R
  then obtain ow y b where h: "\<not> same_owner ow owner" "covers segs ow y b" "start \<le> b" "b < end'" "x \<or> y"
    by blast
  then obtain seg where s: "seg \<in> set segs" "same_owner (seg_owner seg) ow" "seg_exclusive seg = y"
    "seg_start seg \<le> b" "b < seg_end seg" by (auto simp: covers_def)
  from s(2) h(1) have "\<not> same_owner (seg_owner seg) owner"
    using same_owner_sym same_owner_trans by blast
  moreover have "overlaps seg start end'" using s h by (auto simp: overlaps_def)
  ultimately show ?L using s h(5) unfolding first_conflict_None by auto
qed

lemma carved_new_proper:
  assumes "\<forall>s\<in>set segs. proper s" and "proper_range rng"
  shows "\<forall>s\<in>set (carve segs owner (rng_offset rng) (range_end rng) @
     [\<lparr>seg_owner = owner, seg_start = rng_offset rng, seg_end = range_end rng, seg_exclusive = x\<rparr>]). proper s"
  using assms proper_carve by (auto simp: proper_range_def) (simp add: proper_def)

lemma granted_proper:
  assumes "\<forall>s\<in>set segs. proper s" and "proper_range rng"
  shows "\<forall>s\<in>set (granted_segs segs owner rng x). proper s"
  unfolding granted_segs_def using coalesce_proper [OF carved_new_proper [OF assms]] by blast

lemma granted_covers:
  assumes "\<forall>s\<in>set segs. proper s" and "proper_range rng"
  shows "covers (granted_segs segs owner rng x) ow y b \<longleftrightarrow>
     (if same_owner ow owner \<and> in_range rng b then y = x else covers segs ow y b)"
  unfolding granted_segs_def coalesce_covers [OF carved_new_proper [OF assms]]
  by (auto simp: covers_carve in_range_def same_owner_sym [of owner])

lemma segments_proper:
  assumes "tab_ok t"
  shows "\<forall>s\<in>set (segments t k). proper s"
  using assms by (cases "lt_files t k") (auto simp: tab_ok_def segs_ok_def segments_def)

lemma tab_ok_account:
  assumes t: "tab_ok t" and k: "lt_files t k = Some old" and segs: "\<forall>s\<in>set segs. proper s"
  shows "tab_ok (account k segs (length old) t)"
  using assms counters_account [OF _ k] by (auto simp: tab_ok_def segs_ok_def account_files split: if_splits)

lemma tab_ok_lock:
  assumes t: "tab_ok t" and r: "proper_range rng"
  shows "tab_ok (snd (lock t file owner rng x))"
proof (cases "first_conflict (Some owner) (rng_offset rng) (range_end rng) x (segments t file)")
  case None
  let ?t = "opened t file" and ?segs = "granted_segs (segments t file) owner rng x"
  have f: "lt_files ?t file = Some (segments t file)" by (simp add: opened_files)
  have "counters_ok (account file ?segs (length (segments t file)) ?t)"
    using counters_account [OF counters_opened f] t by (simp add: tab_ok_def)
  moreover have "\<forall>s\<in>set ?segs. proper s"
    using granted_proper [OF segments_proper [OF t] r] .
  ultimately show ?thesis
    using t None by (auto simp: lock_eq tab_ok_def segs_ok_def account_files opened_files split: if_splits)
qed (simp add: lock_eq t)

lemma tab_ok_unlock:
  assumes "tab_ok t"
  shows "tab_ok (unlock t file owner rng)"
proof (cases "lt_files t file")
  case (Some segs)
  with segments_proper [OF assms, of "file"] have "\<forall>s\<in>set segs. proper s"
    by (simp add: segments_def)
  then have "\<forall>s\<in>set (carve segs owner (rng_offset rng) (range_end rng)). proper s"
    using proper_carve by blast
  with tab_ok_account [OF assms Some] Some show ?thesis by (simp add: unlock_def)
qed (simp add: unlock_def assms)

lemma tab_ok_release: "tab_ok t \<Longrightarrow> tab_ok (snd (release_owner t file owner))"
  using segments_proper [where t = t and k = "file"]
  by (auto simp: release_owner_def segments_def Let_def split: option.splits intro!: tab_ok_account)

lemma tab_ok_empty: "tab_ok empty_tab"
  by (simp add: tab_ok_def empty_tab_def counters_ok_def)

lemma held_empty: "\<not> held empty_tab k ow y b"
  by (simp add: held_def segments_def empty_tab_def)

lemma held_lock:
  assumes "tab_ok t" and "proper_range rng" and "fst (lock t file owner rng x) = None"
  shows "held (snd (lock t file owner rng x)) k ow y b \<longleftrightarrow>
     (if k = file \<and> same_owner ow owner \<and> in_range rng b then y = x else held t k ow y b)"
  using assms granted_covers [OF segments_proper [OF assms(1)] assms(2)]
  by (auto simp: lock_eq held_def split: option.splits)
     (auto simp: segments_def opened_files)

lemma lock_refused_iff:
  assumes "tab_ok t" and "proper_range rng"
  shows "fst (lock t file owner rng x) \<noteq> None \<longleftrightarrow>
     (\<exists>ow y b. \<not> same_owner ow owner \<and> held t file ow y b \<and> in_range rng b \<and> (x \<or> y))"
  using first_conflict_iff_covers [OF segments_proper [OF assms(1), of "file"], of "rng_offset rng" "range_end rng" owner x] assms(2)
  by (auto simp: lock_eq held_def in_range_def proper_range_def split: option.splits)

lemma lock_refused_same: "fst (lock t file owner rng x) \<noteq> None \<Longrightarrow> snd (lock t file owner rng x) = t"
  by (auto simp: lock_eq split: option.splits)

lemma segments_unlock:
  "segments (unlock t file owner rng) k =
     (if k = file then carve (segments t k) owner (rng_offset rng) (range_end rng) else segments t k)"
  by (cases "lt_files t file") (auto simp: unlock_def segments_def carve_def account_files)

lemma segments_release:
  "segments (snd (release_owner t file owner)) k =
     (if k = file then filter (\<lambda>seg. \<not> same_owner (seg_owner seg) owner) (segments t k) else segments t k)"
  by (cases "lt_files t file") (auto simp: release_owner_def segments_def Let_def account_files)

lemma held_unlock:
  "held (unlock t file owner rng) k ow y b \<longleftrightarrow>
     (if k = file \<and> same_owner ow owner \<and> in_range rng b then False else held t k ow y b)"
  by (auto simp: held_def segments_unlock covers_carve in_range_def same_owner_sym [of owner])

lemma held_release:
  "held (snd (release_owner t file owner)) k ow y b \<longleftrightarrow>
     (if k = file \<and> same_owner ow owner then False else held t k ow y b)"
  using same_owner_cong by (auto simp: held_def segments_release covers_def)

section \<open>The interface of a byte-range lock table\<close>

text \<open>
  What a client of the table may rely on, whatever the table stores.  A request is refused exactly
  when another owner holds a byte of the range and one side is exclusive; a grant gives the whole
  range the requested type for that owner and changes nothing else; an unlock or a release takes
  away exactly the named coverage.
\<close>

datatype ('k, 'w, 'r) table_op = OpLock 'k 'w 'r bool | OpUnlock 'k 'w 'r | OpRelease 'k 'w

fun run_op ::
  "('t \<Rightarrow> 'k \<Rightarrow> 'w \<Rightarrow> 'r \<Rightarrow> bool \<Rightarrow> 'c option \<times> 't) \<Rightarrow> ('t \<Rightarrow> 'k \<Rightarrow> 'w \<Rightarrow> 'r \<Rightarrow> 't) \<Rightarrow>
   ('t \<Rightarrow> 'k \<Rightarrow> 'w \<Rightarrow> 'n \<times> 't) \<Rightarrow> 't \<Rightarrow> ('k, 'w, 'r) table_op \<Rightarrow> 't" where
  "run_op lk ul rl t (OpLock k w r x) = snd (lk t k w r x)"
| "run_op lk ul rl t (OpUnlock k w r) = ul t k w r"
| "run_op lk ul rl t (OpRelease k w) = snd (rl t k w)"

fun op_range_ok :: "('r \<Rightarrow> bool) \<Rightarrow> ('k, 'w, 'r) table_op \<Rightarrow> bool" where
  "op_range_ok ok (OpLock _ _ r _) = ok r"
| "op_range_ok ok _ = True"

fun op_owner :: "('k, 'w, 'r) table_op \<Rightarrow> 'w" where
  "op_owner (OpLock _ w _ _) = w"
| "op_owner (OpUnlock _ w _) = w"
| "op_owner (OpRelease _ w) = w"

text \<open>An exclusively held byte is held by nobody else and in no other type.\<close>

definition exclusive_view :: "('w \<Rightarrow> 'w \<Rightarrow> bool) \<Rightarrow> ('k \<Rightarrow> 'w \<Rightarrow> bool \<Rightarrow> 'b \<Rightarrow> bool) \<Rightarrow> bool" where
  "exclusive_view same h \<longleftrightarrow> (\<forall>k v w y b. h k v True b \<longrightarrow> h k w y b \<longrightarrow> same v w \<and> y)"

lemma exclusive_view_mono:
  "exclusive_view same h \<Longrightarrow> (\<And>k v y b. h' k v y b \<Longrightarrow> h k v y b) \<Longrightarrow> exclusive_view same h'"
  unfolding exclusive_view_def by blast

locale byte_locks =
  fixes inv :: "'t \<Rightarrow> bool"
    and init :: 't
    and hld :: "'t \<Rightarrow> 'k \<Rightarrow> 'w \<Rightarrow> bool \<Rightarrow> 'b \<Rightarrow> bool"
    and same :: "'w \<Rightarrow> 'w \<Rightarrow> bool"
    and ok :: "'r \<Rightarrow> bool"
    and inr :: "'r \<Rightarrow> 'b \<Rightarrow> bool"
    and lk :: "'t \<Rightarrow> 'k \<Rightarrow> 'w \<Rightarrow> 'r \<Rightarrow> bool \<Rightarrow> 'c option \<times> 't"
    and ul :: "'t \<Rightarrow> 'k \<Rightarrow> 'w \<Rightarrow> 'r \<Rightarrow> 't"
    and rl :: "'t \<Rightarrow> 'k \<Rightarrow> 'w \<Rightarrow> 'n \<times> 't"
  assumes same_refl: "same w w"
    and same_sym: "same v w \<Longrightarrow> same w v"
    and same_trans: "same u v \<Longrightarrow> same v w \<Longrightarrow> same u w"
    and inv_init: "inv init"
    and hld_init: "\<not> hld init k w y b"
    and inv_lk: "inv t \<Longrightarrow> ok r \<Longrightarrow> inv (snd (lk t k w r x))"
    and inv_ul: "inv t \<Longrightarrow> inv (ul t k w r)"
    and inv_rl: "inv t \<Longrightarrow> inv (snd (rl t k w))"
    and refused: "inv t \<Longrightarrow> ok r \<Longrightarrow>
      fst (lk t k w r x) \<noteq> None \<longleftrightarrow> (\<exists>v y b. \<not> same v w \<and> hld t k v y b \<and> inr r b \<and> (x \<or> y))"
    and refused_same: "fst (lk t k w r x) \<noteq> None \<Longrightarrow> snd (lk t k w r x) = t"
    and hld_lk: "inv t \<Longrightarrow> ok r \<Longrightarrow> fst (lk t k w r x) = None \<Longrightarrow>
      hld (snd (lk t k w r x)) j v y b \<longleftrightarrow> (if j = k \<and> same v w \<and> inr r b then y = x else hld t j v y b)"
    and hld_ul: "hld (ul t k w r) j v y b \<longleftrightarrow> (if j = k \<and> same v w \<and> inr r b then False else hld t j v y b)"
    and hld_rl: "hld (snd (rl t k w)) j v y b \<longleftrightarrow> (if j = k \<and> same v w then False else hld t j v y b)"
begin

lemma inv_op: "inv t \<Longrightarrow> op_range_ok ok q \<Longrightarrow> inv (run_op lk ul rl t q)"
  by (cases q) (auto intro: inv_lk inv_ul inv_rl)

lemma exclusive_lk:
  assumes i: "inv t" "ok r" and e: "exclusive_view same (hld t)"
  shows "exclusive_view same (hld (snd (lk t k w r x)))"
proof (cases "fst (lk t k w r x)")
  case None
  then have free: "\<not> same v w \<Longrightarrow> inr r b \<Longrightarrow> hld t k v y b \<Longrightarrow> \<not> x \<and> \<not> y" for v y b
    using refused [OF i, of k w x] by blast
  have "same v u \<and> y" if h: "hld (snd (lk t k w r x)) j v True b" "hld (snd (lk t k w r x)) j u y b" for j v u y b
  proof -
    have old: "hld t j v True b \<Longrightarrow> hld t j u y b \<Longrightarrow> same v u \<and> y"
      using e unfolding exclusive_view_def by blast
    show ?thesis
      using h old free [of v b True] free [of u b y] unfolding hld_lk [OF i None]
      by (auto split: if_splits intro: same_sym same_trans)
  qed
  then show ?thesis unfolding exclusive_view_def by blast
next
  case (Some c)
  then show ?thesis using e refused_same [of t k w r x] by simp
qed

lemma exclusive_op:
  assumes "inv t" "op_range_ok ok q" and e: "exclusive_view same (hld t)"
  shows "exclusive_view same (hld (run_op lk ul rl t q))"
proof (cases q)
  case (OpLock k w r x)
  then show ?thesis using exclusive_lk [of t r k w x] assms by simp
next
  case (OpUnlock k w r)
  then show ?thesis by (auto simp: hld_ul split: if_splits intro: exclusive_view_mono [OF e])
next
  case (OpRelease k w)
  then show ?thesis by (auto simp: hld_rl split: if_splits intro: exclusive_view_mono [OF e])
qed

lemma run_ok:
  "list_all (op_range_ok ok) qs \<Longrightarrow> inv t \<Longrightarrow> exclusive_view same (hld t) \<Longrightarrow>
     inv (foldl (run_op lk ul rl) t qs) \<and> exclusive_view same (hld (foldl (run_op lk ul rl) t qs))"
proof (induction qs arbitrary: t)
  case (Cons q qs)
  then have "inv (run_op lk ul rl t q)" "exclusive_view same (hld (run_op lk ul rl t q))"
    using inv_op exclusive_op [of t q] by auto
  with Cons show ?case by simp
qed simp

lemma run_init_ok:
  assumes "list_all (op_range_ok ok) qs"
  shows "inv (foldl (run_op lk ul rl) init qs)" and "exclusive_view same (hld (foldl (run_op lk ul rl) init qs))"
proof -
  have "exclusive_view same (hld init)" by (simp add: exclusive_view_def hld_init)
  from run_ok [OF assms inv_init this]
  show "inv (foldl (run_op lk ul rl) init qs)" and "exclusive_view same (hld (foldl (run_op lk ul rl) init qs))"
    by blast+
qed

lemma hld_other_op:
  assumes "inv t" "op_range_ok ok q" "\<not> same v (op_owner q)"
  shows "hld (run_op lk ul rl t q) k v y b = hld t k v y b"
proof (cases q)
  case (OpLock k' w r x)
  with assms show ?thesis
    using refused_same [of t k' w r x] hld_lk [of t r k' w x k v y b]
    by (cases "fst (lk t k' w r x)") auto
qed (use assms in \<open>auto simp: hld_ul hld_rl\<close>)

lemma hld_other_run:
  "list_all (\<lambda>q. op_range_ok ok q \<and> \<not> same v (op_owner q)) qs \<Longrightarrow> inv t \<Longrightarrow>
     hld (foldl (run_op lk ul rl) t qs) k v y b = hld t k v y b"
proof (induction qs arbitrary: t)
  case (Cons q qs)
  then show ?case using inv_op [of t q] hld_other_op [of t q v k y b] by simp
qed simp

end

interpretation gw: byte_locks tab_ok empty_tab held same_owner proper_range in_range lock unlock release_owner
  by unfold_locales
    (use same_owner_trans tab_ok_empty held_empty tab_ok_lock tab_ok_unlock tab_ok_release lock_refused_iff
       lock_refused_same held_lock held_unlock held_release in \<open>simp_all add: same_owner_sym\<close>)

section \<open>Properties of the lock table\<close>

lemma release_owner_count: "fst (release_owner t file owner) = count_owner t file owner"
proof (cases "lt_files t file")
  case (Some segs)
  then show ?thesis
    using sum_length_filter_compl [of "\<lambda>seg. same_owner (seg_owner seg) owner" segs]
    by (simp add: release_owner_def count_owner_def Let_def)
qed (simp add: release_owner_def count_owner_def)

lemma count_owner_segments:
  "count_owner t file owner = length (filter (\<lambda>seg. same_owner (seg_owner seg) owner) (segments t file))"
  by (simp add: count_owner_def segments_def split: option.splits)

lemma count_owner_released: "count_owner (snd (release_owner t file owner)) file owner = 0"
  by (simp add: count_owner_segments segments_release)

abbreviation run_locks :: "(FileKey, LockOwnerId, LockRange) table_op list \<Rightarrow> LockTab" where
  "run_locks \<equiv> foldl (run_op lock unlock release_owner) empty_tab"

abbreviation owner_w :: "u8 \<Rightarrow> LockOwnerId" where
  "owner_w n \<equiv> \<lparr>lo_bytes = n # replicate 23 0, lo_len = 1\<rparr>"

abbreviation file_w :: FileKey where
  "file_w \<equiv> FileKey 1 [7]"

abbreviation ops_w :: "(FileKey, LockOwnerId, LockRange) table_op list" where
  "ops_w \<equiv> [OpLock file_w (owner_w 1) \<lparr>rng_offset = 0, rng_length = 10\<rparr> True,
            OpLock file_w (owner_w 2) \<lparr>rng_offset = 10, rng_length = UINT64_MAX\<rparr> False,
            OpUnlock file_w (owner_w 1) \<lparr>rng_offset = 4, rng_length = 2\<rparr>]"





text \<open>C3: LOCKT agrees with LOCK.  Testing a range for an owner reports exactly the conflict that
  locking it would meet, and reports none exactly when the lock would be granted.\<close>

theorem test_agrees_with_lock:
  "test t file (Some owner) rng x = fst (lock t file owner rng x)"
  by (cases "lt_files t file") (auto simp: test_def lock_eq segments_def first_conflict_def split: option.splits)

text \<open>C4: an owner's locks are its own.  Whatever other owners lock, unlock or release, the bytes an
  owner holds, and their types, stay as they were.\<close>

theorem locks_stable_under_others:
  assumes "tab_ok t" and "list_all (\<lambda>q. op_range_ok proper_range q \<and> \<not> same_owner v (op_owner q)) qs"
  shows "held (foldl (run_op lock unlock release_owner) t qs) k v y b = held t k v y b"
  using gw.hld_other_run [OF assms(2,1)] .

theorem locks_stable_under_others_witness:
  "held (foldl (run_op lock unlock release_owner) (run_locks ops_w)
     [OpRelease file_w (owner_w 2), OpLock file_w (owner_w 3) \<lparr>rng_offset = 4, rng_length = 2\<rparr> True])
     file_w (owner_w 1) True 9"
proof -
  have ops: "list_all (op_range_ok proper_range) ops_w" by code_simp
  have qs: "list_all (\<lambda>q. op_range_ok proper_range q \<and> \<not> same_owner (owner_w 1) (op_owner q))
     [OpRelease file_w (owner_w 2), OpLock file_w (owner_w 3) \<lparr>rng_offset = 4, rng_length = 2\<rparr> True]"
    by code_simp
  have "held (run_locks ops_w) file_w (owner_w 1) True 9" by code_simp
  then show ?thesis
    using locks_stable_under_others [OF gw.run_init_ok(1) [OF ops] qs] by blast
qed

text \<open>C5: unlocking and releasing.  LOCKU takes away exactly the owner's coverage of the range, a
  release exactly the owner's coverage of the file, after which the owner counts no segment there;
  both keep the table well-formed, its two counters included.\<close>

theorem unlock_release_exact:
  assumes "tab_ok t"
  shows "tab_ok (unlock t file owner rng) \<and> tab_ok (snd (release_owner t file owner)) \<and>
    (\<forall>k w y b. held (unlock t file owner rng) k w y b \<longleftrightarrow>
       held t k w y b \<and> \<not> (k = file \<and> same_owner w owner \<and> in_range rng b)) \<and>
    (\<forall>k w y b. held (snd (release_owner t file owner)) k w y b \<longleftrightarrow>
       held t k w y b \<and> \<not> (k = file \<and> same_owner w owner)) \<and>
    fst (release_owner t file owner) = count_owner t file owner \<and>
    count_owner (snd (release_owner t file owner)) file owner = 0"
  using tab_ok_unlock [OF assms] tab_ok_release [OF assms]
  by (simp add: held_unlock held_release release_owner_count count_owner_released)

theorem unlock_release_exact_witness:
  "fst (release_owner (run_locks ops_w) file_w (owner_w 1)) = 2 \<and>
   count_owner (snd (release_owner (run_locks ops_w) file_w (owner_w 1))) file_w (owner_w 1) = 0"
proof -
  have ops: "list_all (op_range_ok proper_range) ops_w" by code_simp
  have "count_owner (run_locks ops_w) file_w (owner_w 1) = 2" by code_simp
  then show ?thesis
    using unlock_release_exact [of "run_locks ops_w" file_w "owner_w 1", OF gw.run_init_ok(1) [OF ops]] by simp
qed

text \<open>An empty range is not a lock.  A range at the last offset with the to-end-of-file length
  makes an empty segment: two owners are both granted it exclusively, and unlocking it removes
  nothing, so the table keeps counting a segment for the first owner.\<close>

theorem lock_at_max_offset_not_exclusive:
  "let r = \<lparr>rng_offset = UINT64_MAX, rng_length = UINT64_MAX\<rparr>;
       (c1, t1) = lock empty_tab file_w (owner_w 1) r True;
       (c2, t2) = lock t1 file_w (owner_w 2) r True
   in c1 = None \<and> c2 = None \<and> count_owner (unlock t2 file_w (owner_w 1) r) file_w (owner_w 1) = 1"
  by code_simp

text \<open>The list of a file is not kept sorted.  Unlocking the middle of a segment that another
  owner's segment starts in leaves the two halves out of order with it.\<close>

theorem unlock_leaves_unsorted:
  "\<not> sorted (map seg_start (segments (run_locks
      [OpLock file_w (owner_w 1) \<lparr>rng_offset = 0, rng_length = 10\<rparr> False,
       OpLock file_w (owner_w 2) \<lparr>rng_offset = 2, rng_length = 2\<rparr> False,
       OpUnlock file_w (owner_w 1) \<lparr>rng_offset = 3, rng_length = 2\<rparr>]) file_w))"
  by code_simp

end
