(* ===== verification/Nfs4Types.thy ===== *)
theory Nfs4Types
  imports Prelude
begin

text \<open>
  The NFSv4.1 wire types the state manager and the codecs share
  (\<^verbatim>\<open>src/src/nfsv4/nfs4_types.hpp\<close>, \<^verbatim>\<open>nfs4_types.cpp\<close>, and the callback
  credential of \<^verbatim>\<open>callback.hpp\<close>): status codes with their wire numbers, stateids
  with the two special values, attribute bitmaps, channel attributes.
\<close>

section \<open>Status codes\<close>

text \<open>
  \<^verbatim>\<open>enum class Status : uint32_t\<close>, in the order of the source.  The state manager returns the
  numbers (\<^verbatim>\<open>as_u32\<close>), so the model uses the underlying integer.
\<close>

type_synonym Status = u32

abbreviation S_Ok :: Status where "S_Ok \<equiv> 0"
abbreviation S_Perm :: Status where "S_Perm \<equiv> 1"
abbreviation S_Noent :: Status where "S_Noent \<equiv> 2"
abbreviation S_Io :: Status where "S_Io \<equiv> 5"
abbreviation S_Nxio :: Status where "S_Nxio \<equiv> 6"
abbreviation S_Access :: Status where "S_Access \<equiv> 13"
abbreviation S_Exist :: Status where "S_Exist \<equiv> 17"
abbreviation S_Xdev :: Status where "S_Xdev \<equiv> 18"
abbreviation S_Notdir :: Status where "S_Notdir \<equiv> 20"
abbreviation S_Isdir :: Status where "S_Isdir \<equiv> 21"
abbreviation S_Inval :: Status where "S_Inval \<equiv> 22"
abbreviation S_Fbig :: Status where "S_Fbig \<equiv> 27"
abbreviation S_Nospc :: Status where "S_Nospc \<equiv> 28"
abbreviation S_Rofs :: Status where "S_Rofs \<equiv> 30"
abbreviation S_Mlink :: Status where "S_Mlink \<equiv> 31"
abbreviation S_Nametoolong :: Status where "S_Nametoolong \<equiv> 63"
abbreviation S_Notempty :: Status where "S_Notempty \<equiv> 66"
abbreviation S_Dquot :: Status where "S_Dquot \<equiv> 69"
abbreviation S_Stale :: Status where "S_Stale \<equiv> 70"
abbreviation S_Badhandle :: Status where "S_Badhandle \<equiv> 10001"
abbreviation S_BadCookie :: Status where "S_BadCookie \<equiv> 10003"
abbreviation S_Notsupp :: Status where "S_Notsupp \<equiv> 10004"
abbreviation S_Toosmall :: Status where "S_Toosmall \<equiv> 10005"
abbreviation S_Serverfault :: Status where "S_Serverfault \<equiv> 10006"
abbreviation S_Badtype :: Status where "S_Badtype \<equiv> 10007"
abbreviation S_Delay :: Status where "S_Delay \<equiv> 10008"
abbreviation S_Same :: Status where "S_Same \<equiv> 10009"
abbreviation S_Denied :: Status where "S_Denied \<equiv> 10010"
abbreviation S_Expired :: Status where "S_Expired \<equiv> 10011"
abbreviation S_Locked :: Status where "S_Locked \<equiv> 10012"
abbreviation S_Grace :: Status where "S_Grace \<equiv> 10013"
abbreviation S_Fhexpired :: Status where "S_Fhexpired \<equiv> 10014"
abbreviation S_ShareDenied :: Status where "S_ShareDenied \<equiv> 10015"
abbreviation S_Wrongsec :: Status where "S_Wrongsec \<equiv> 10016"
abbreviation S_ClidInuse :: Status where "S_ClidInuse \<equiv> 10017"
abbreviation S_Resource :: Status where "S_Resource \<equiv> 10018"
abbreviation S_Moved :: Status where "S_Moved \<equiv> 10019"
abbreviation S_Nofilehandle :: Status where "S_Nofilehandle \<equiv> 10020"
abbreviation S_MinorVersMismatch :: Status where "S_MinorVersMismatch \<equiv> 10021"
abbreviation S_StaleClientid :: Status where "S_StaleClientid \<equiv> 10022"
abbreviation S_StaleStateid :: Status where "S_StaleStateid \<equiv> 10023"
abbreviation S_OldStateid :: Status where "S_OldStateid \<equiv> 10024"
abbreviation S_BadStateid :: Status where "S_BadStateid \<equiv> 10025"
abbreviation S_NotSame :: Status where "S_NotSame \<equiv> 10027"
abbreviation S_Attrnotsupp :: Status where "S_Attrnotsupp \<equiv> 10032"
abbreviation S_Symlink :: Status where "S_Symlink \<equiv> 10029"
abbreviation S_Restorefh :: Status where "S_Restorefh \<equiv> 10030"
abbreviation S_NoGrace :: Status where "S_NoGrace \<equiv> 10033"
abbreviation S_ReclaimBad :: Status where "S_ReclaimBad \<equiv> 10034"
abbreviation S_Badxdr :: Status where "S_Badxdr \<equiv> 10036"
abbreviation S_LocksHeld :: Status where "S_LocksHeld \<equiv> 10037"
abbreviation S_Openmode :: Status where "S_Openmode \<equiv> 10038"
abbreviation S_Badowner :: Status where "S_Badowner \<equiv> 10039"
abbreviation S_Badchar :: Status where "S_Badchar \<equiv> 10040"
abbreviation S_Badname :: Status where "S_Badname \<equiv> 10041"
abbreviation S_BadRange :: Status where "S_BadRange \<equiv> 10042"
abbreviation S_LockNotsupp :: Status where "S_LockNotsupp \<equiv> 10043"
abbreviation S_LockRange :: Status where "S_LockRange \<equiv> 10028"
abbreviation S_FileOpen :: Status where "S_FileOpen \<equiv> 10046"
abbreviation S_OpIllegal :: Status where "S_OpIllegal \<equiv> 10044"
abbreviation S_Badsession :: Status where "S_Badsession \<equiv> 10052"
abbreviation S_Badslot :: Status where "S_Badslot \<equiv> 10053"
abbreviation S_CompleteAlready :: Status where "S_CompleteAlready \<equiv> 10054"
abbreviation S_ConnNotBound :: Status where "S_ConnNotBound \<equiv> 10055"
abbreviation S_SeqMisordered :: Status where "S_SeqMisordered \<equiv> 10063"
abbreviation S_SequencePos :: Status where "S_SequencePos \<equiv> 10064"
abbreviation S_ReqTooBig :: Status where "S_ReqTooBig \<equiv> 10065"
abbreviation S_RepTooBig :: Status where "S_RepTooBig \<equiv> 10066"
abbreviation S_RepTooBigToCache :: Status where "S_RepTooBigToCache \<equiv> 10067"
abbreviation S_RetryUncachedRep :: Status where "S_RetryUncachedRep \<equiv> 10068"
abbreviation S_TooManyOps :: Status where "S_TooManyOps \<equiv> 10070"
abbreviation S_NotOnlyOp :: Status where "S_NotOnlyOp \<equiv> 10081"
abbreviation S_OpNotInSession :: Status where "S_OpNotInSession \<equiv> 10071"
abbreviation S_ClientidBusy :: Status where "S_ClientidBusy \<equiv> 10074"
abbreviation S_BadHighSlot :: Status where "S_BadHighSlot \<equiv> 10077"
abbreviation S_WrongType :: Status where "S_WrongType \<equiv> 10083"
abbreviation S_UnionNotsupp :: Status where "S_UnionNotsupp \<equiv> 10090"
abbreviation S_OffloadDenied :: Status where "S_OffloadDenied \<equiv> 10091"
abbreviation S_OffloadNoReqs :: Status where "S_OffloadNoReqs \<equiv> 10094"

section \<open>Stateids, bitmaps, channel attributes\<close>

type_synonym SessionId = bytes
type_synonym Verifier = bytes

record Stateid =
  sid_seqid :: u32
  sid_other :: bytes

definition is_all_zero :: "Stateid \<Rightarrow> bool" where
  "is_all_zero s \<longleftrightarrow> (if sid_seqid s \<noteq> 0 then False else list_all (\<lambda>b. b = 0) (sid_other s))"

definition is_all_one :: "Stateid \<Rightarrow> bool" where
  "is_all_one s \<longleftrightarrow> (if sid_seqid s \<noteq> 0xffffffff then False else list_all (\<lambda>b. b = 0xff) (sid_other s))"

definition is_special :: "Stateid \<Rightarrow> bool" where
  "is_special s \<longleftrightarrow> is_all_zero s \<or> is_all_one s"

record Bitmap =
  bm_words :: "u32 list"
  bm_beyond_known :: bool

definition bm_test :: "Bitmap \<Rightarrow> u32 \<Rightarrow> bool" where
  "bm_test b bt \<longleftrightarrow>
     (let w = unat (bt div 32)
      in w < length (bm_words b) \<and> bit (bm_words b ! w) (unat (bt mod 32)))"

definition bm_set :: "Bitmap \<Rightarrow> u32 \<Rightarrow> Bitmap" where
  "bm_set b bt =
     (let w = unat (bt div 32);
          ws = bm_words b @ replicate (w + 1 - length (bm_words b)) 0
      in b\<lparr>bm_words := ws[w := ws ! w OR push_bit (unat (bt mod 32)) 1]\<rparr>)"

definition bm_empty :: "Bitmap \<Rightarrow> bool" where
  "bm_empty b \<longleftrightarrow> list_all (\<lambda>w. w = 0) (bm_words b)"

definition highest_word :: "Bitmap \<Rightarrow> u32" where
  "highest_word b = of_nat (length (bm_words b))"

record ChannelAttrs =
  ca_headerpad :: u32
  ca_max_request :: u32
  ca_max_response :: u32
  ca_max_response_cached :: u32
  ca_max_ops :: u32
  ca_max_requests :: u32

text \<open>\<^verbatim>\<open>nfsv4::cb::Cred\<close>, the callback credential remembered at CREATE_SESSION.\<close>

record Cred =
  cr_auth_sys :: bool
  cr_uid :: u32
  cr_gid :: u32
  cr_machine :: bytes

section \<open>Lemmas\<close>

lemma special_seqid: "is_special s \<Longrightarrow> sid_seqid s = 0 \<or> sid_seqid s = UINT32_MAX"
  by (auto simp: is_special_def is_all_zero_def is_all_one_def split: if_splits)

lemma bm_words_grow:
  "w < length (bs @ replicate (w + 1 - length bs) (0 :: u32))"
  by simp

end
