(* ===== verification/StateTypes.thy ===== *)
theory StateTypes
  imports LockMgr Nfs4Types "HOL-Library.AList" "HOL-Library.Product_Lexorder"
begin

text \<open>
  The data of the NFSv4.1 state manager (\<^verbatim>\<open>src/src/state/state_mgr.hpp\<close>): clients,
  sessions and slots, stateids, per-file state, grace windows, the configuration, and the manager
  itself as one record.

  Shared pointers are explicit: \<open>cref\<close> and \<open>sref\<close> are addresses of client and state
  records in two heaps, so that the aliasing of a record between the stateid table, the file index
  and its client is visible.  The hash shards of the four tables partition the keys and are
  flattened.  The steady clock is a field (nanoseconds); it advances only in explicit steps.
  Environment that is not code of the gateway is represented by what the code sees of it: the
  backend handles by numbers and a log of the released ones, callback connections by numbers and
  a liveness predicate, spawned coroutines by a queue of tasks, the native lock manager by
  functions from the history of calls to an answer.
\<close>

section \<open>Records of the tables\<close>

type_synonym StateOther = bytes
type_synonym cref = nat
type_synonym sref = nat

record ClientRec =
  cl_clientid :: u64
  cl_owner_id :: bytes
  cl_principal :: bytes
  cl_confirmed :: bool
  cl_verifier :: Verifier
  cl_cs_sequence :: u32
  cl_cs_cached_reply :: bytes
  cl_sessions :: "SessionId list"
  cl_lease_expiry :: int
  cl_reclaim_complete :: bool
  cl_persisted :: bool
  cl_courtesy :: bool
  cl_expired :: bool
  cl_courtesy_since :: int
  cl_lease_heap_deadline :: int
  cl_delegs :: u32
  cl_states :: "StateOther list"
  cl_fs_states :: "(u32 \<times> u32) list"
  cl_lease_moved_until :: int

definition new_client :: ClientRec where
  "new_client = \<lparr>cl_clientid = 0, cl_owner_id = [], cl_principal = [], cl_confirmed = False,
     cl_verifier = replicate 8 0, cl_cs_sequence = 1, cl_cs_cached_reply = [], cl_sessions = [],
     cl_lease_expiry = 0, cl_reclaim_complete = False, cl_persisted = False, cl_courtesy = False,
     cl_expired = False, cl_courtesy_since = 0, cl_lease_heap_deadline = -1, cl_delegs = 0,
     cl_states = [], cl_fs_states = [], cl_lease_moved_until = 0\<rparr>"

record Slot =
  sl_seqid :: u32
  sl_in_flight :: bool
  sl_cached :: bool
  sl_reply :: bytes

definition new_slot :: Slot where
  "new_slot = \<lparr>sl_seqid = 0, sl_in_flight = False, sl_cached = False, sl_reply = []\<rparr>"

record SessionRec =
  se_id :: SessionId
  se_client :: cref
  se_fore :: ChannelAttrs
  se_back :: ChannelAttrs
  se_slots :: "Slot list"
  se_slot_count :: u32
  se_bound_conns :: "u64 set"
  se_cb_chan :: "nat option"
  se_cb_program :: u32
  se_cb_cred :: Cred
  se_cb_seq :: u32
  se_cb_inflight :: bool
  se_cb_inflight_since :: int
  se_cb_down :: bool

datatype StateType = kOpen | kLock | kDeleg

fun type_byte :: "StateType \<Rightarrow> u8" where
  "type_byte kOpen = 1"
| "type_byte kLock = 2"
| "type_byte kDeleg = 3"

abbreviation kShareRead :: u32 where "kShareRead \<equiv> 1"
abbreviation kShareWrite :: u32 where "kShareWrite \<equiv> 2"
abbreviation kShareBoth :: u32 where "kShareBoth \<equiv> 3"

record StateRec =
  sr_other :: StateOther
  sr_type :: StateType
  sr_seqid :: u32
  sr_client :: cref
  sr_fsid :: u32
  sr_oid :: ObjId
  sr_owner :: bytes
  sr_access :: u32
  sr_deny :: u32
  sr_lowner :: LockOwnerId
  sr_parent_open :: "sref option"
  sr_bopen :: "nat option"
  sr_closed :: bool
  sr_fh :: bytes
  sr_recalled :: bool
  sr_recall_deadline :: int

definition new_state :: StateRec where
  "new_state = \<lparr>sr_other = replicate 12 0, sr_type = kOpen, sr_seqid = 1, sr_client = 0, sr_fsid = 0,
     sr_oid = [], sr_owner = [], sr_access = 0, sr_deny = 0,
     sr_lowner = \<lparr>lo_bytes = replicate 24 0, lo_len = 0\<rparr>, sr_parent_open = None, sr_bopen = None,
     sr_closed = False, sr_fh = [], sr_recalled = False, sr_recall_deadline = 0\<rparr>"

record FileStateRec =
  fl_opens :: "sref list"
  fl_locks :: "sref list"
  fl_delegs :: "sref list"

definition empty_file :: FileStateRec where
  "empty_file = \<lparr>fl_opens = [], fl_locks = [], fl_delegs = []\<rparr>"

text \<open>\<^verbatim>\<open>file.opens.empty() && file.locks.empty() && file.delegs.empty()\<close>\<close>

definition file_unused :: "FileStateRec \<Rightarrow> bool" where
  "file_unused f \<longleftrightarrow> fl_opens f = [] \<and> fl_locks f = [] \<and> fl_delegs f = []"

record OwnerSlot =
  os_confirmed :: "cref option"
  os_unconfirmed :: "cref option"

record GraceWindow =
  gw_pending :: "bytes set"
  gw_listed :: "bytes set"
  gw_deadline :: int
  gw_active :: bool

definition new_window :: GraceWindow where
  "new_window = \<lparr>gw_pending = {}, gw_listed = {}, gw_deadline = 0, gw_active = False\<rparr>"

record LockWaiter =
  lw_clientid :: u64
  lw_owner :: bytes
  lw_fh :: bytes
  lw_expires :: int

record LockOwnerRec =
  lor_client :: cref
  lor_owner :: bytes

text \<open>Coroutines handed to \<^verbatim>\<open>rt::spawn\<close>: a CB_RECALL sender and a CB_NOTIFY_LOCK sender.\<close>

datatype cb_task = RecallTask sref | NotifyTask u64 bytes bytes

section \<open>Configuration\<close>

text \<open>
  Calls that reach the backend's native lock manager; an answer may depend on all earlier calls.
\<close>

datatype native_call =
    NLock u32 ObjId LockOwnerId LockRange bool
  | NUnlock u32 ObjId LockOwnerId LockRange
  | NRelease u32 ObjId LockOwnerId
  | NTest u32 ObjId LockRange bool

record NativeLocks =
  nl_manager :: "(u32 \<Rightarrow> bool) option"
  nl_resolve :: "(u32 \<Rightarrow> ObjId \<Rightarrow> unit res) option"
  nl_result :: "native_call list \<Rightarrow> native_call \<Rightarrow> unit res"
  nl_test :: "native_call list \<Rightarrow> native_call \<Rightarrow> LockConflict option res"

record Config =
  cfg_boot_epoch :: u64
  cfg_lease_seconds :: u32
  cfg_grace_seconds :: u32
  cfg_courtesy_multiplier :: u32
  cfg_max_slots :: u32
  cfg_max_cached_reply :: u32
  cfg_max_ops :: u32
  cfg_max_io :: u32
  cfg_max_clients :: u32
  cfg_max_states_per_client :: u32
  cfg_max_lock_segments_per_owner :: u32
  cfg_delegations :: bool
  cfg_native :: NativeLocks
  cfg_per_fsid_reclaim :: bool

text \<open>The defaults of the source (\<^verbatim>\<open>Config\<close> member initialisers), no native lock manager.\<close>

definition default_config :: Config where
  "default_config = \<lparr>cfg_boot_epoch = 1, cfg_lease_seconds = 90, cfg_grace_seconds = 0,
     cfg_courtesy_multiplier = 24, cfg_max_slots = 32, cfg_max_cached_reply = 8192, cfg_max_ops = 64,
     cfg_max_io = 1048576, cfg_max_clients = 4096, cfg_max_states_per_client = 65536,
     cfg_max_lock_segments_per_owner = 1024, cfg_delegations = True,
     cfg_native = \<lparr>nl_manager = None, nl_resolve = None, nl_result = \<lambda>_ _. Inr (),
       nl_test = \<lambda>_ _. Inr None\<rparr>,
     cfg_per_fsid_reclaim = False\<rparr>"

section \<open>The state manager\<close>

record Counters =
  n_clients :: int
  n_sessions :: int
  n_opens :: int
  n_files :: int
  n_courtesy :: int
  n_locks :: int
  n_delegs :: int
  c_seq_new :: u64
  c_seq_replay :: u64
  c_seq_misordered :: u64
  c_seq_waits :: u64
  c_lease_expirations :: u64
  c_reclaim_conflict :: u64
  c_reclaim_timeout :: u64
  c_reclaim_forced :: u64
  c_share_denied :: u64
  c_open_merges :: u64
  c_lock_denied :: u64
  c_native_lock_denied :: u64
  c_native_lock_errors :: u64
  c_native_lock_reclaim_delays :: u64
  c_deleg_grants :: u64
  c_deleg_recalls :: u64
  c_deleg_returns :: u64
  c_deleg_revokes :: u64
  c_cb_lock_notifies :: u64

definition zero_counters :: Counters where
  "zero_counters = \<lparr>n_clients = 0, n_sessions = 0, n_opens = 0, n_files = 0, n_courtesy = 0, n_locks = 0,
     n_delegs = 0, c_seq_new = 0, c_seq_replay = 0, c_seq_misordered = 0, c_seq_waits = 0,
     c_lease_expirations = 0, c_reclaim_conflict = 0, c_reclaim_timeout = 0, c_reclaim_forced = 0,
     c_share_denied = 0, c_open_merges = 0, c_lock_denied = 0, c_native_lock_denied = 0,
     c_native_lock_errors = 0, c_native_lock_reclaim_delays = 0, c_deleg_grants = 0,
     c_deleg_recalls = 0, c_deleg_returns = 0, c_deleg_revokes = 0, c_cb_lock_notifies = 0\<rparr>"

record StateMgr =
  sm_clients :: "cref \<Rightarrow> ClientRec"
  sm_next_cref :: cref
  sm_srecs :: "sref \<Rightarrow> StateRec"
  sm_next_sref :: sref
  sm_by_owner :: "bytes \<rightharpoonup> OwnerSlot"
  sm_by_id :: "u64 \<rightharpoonup> cref"
  sm_client_idx :: "u64 \<rightharpoonup> cref"
  sm_sessions :: "SessionId \<rightharpoonup> SessionRec"
  sm_states :: "(StateOther \<times> sref) list"
  sm_files :: "FileKey \<rightharpoonup> FileStateRec"
  sm_locks :: LockTab
  sm_lock_owners :: "(bytes \<times> LockOwnerRec) list"
  sm_lease_heap :: "(int \<times> u64) list"
  sm_next_client :: u32
  sm_next_state :: u64
  sm_next_session :: u32
  sm_grace :: "(u32 \<times> GraceWindow) list"
  sm_grace_any :: bool
  sm_recall_watch :: "sref list"
  sm_lock_waiters :: "FileKey \<rightharpoonup> LockWaiter list"
  sm_stable :: "u32 \<Rightarrow> (u64 \<times> bytes) list"
  sm_now :: int
  sm_chan_alive :: "nat \<Rightarrow> bool"
  sm_tasks :: "cb_task list"
  sm_native_log :: "native_call list"
  sm_released :: "nat list"
  sm_cnt :: Counters

text \<open>A manager just constructed, on an empty state directory at time \<open>t\<close>.\<close>

definition init_mgr :: "int \<Rightarrow> StateMgr" where
  "init_mgr t = \<lparr>sm_clients = \<lambda>_. new_client, sm_next_cref = 0, sm_srecs = \<lambda>_. new_state,
     sm_next_sref = 0, sm_by_owner = Map.empty, sm_by_id = Map.empty, sm_client_idx = Map.empty,
     sm_sessions = Map.empty, sm_states = [], sm_files = Map.empty, sm_locks = empty_tab,
     sm_lock_owners = [], sm_lease_heap = [], sm_next_client = 1, sm_next_state = 1,
     sm_next_session = 1, sm_grace = [], sm_grace_any = False, sm_recall_watch = [],
     sm_lock_waiters = Map.empty, sm_stable = \<lambda>_. [], sm_now = t, sm_chan_alive = \<lambda>_. False,
     sm_tasks = [], sm_native_log = [], sm_released = [], sm_cnt = zero_counters\<rparr>"

section \<open>Access and update\<close>

text \<open>Updating one record of a heap, and the counters.\<close>

definition upd_client :: "cref \<Rightarrow> (ClientRec \<Rightarrow> ClientRec) \<Rightarrow> StateMgr \<Rightarrow> StateMgr" where
  "upd_client c f st = st\<lparr>sm_clients := (sm_clients st)(c := f (sm_clients st c))\<rparr>"

definition upd_state :: "sref \<Rightarrow> (StateRec \<Rightarrow> StateRec) \<Rightarrow> StateMgr \<Rightarrow> StateMgr" where
  "upd_state r f st = st\<lparr>sm_srecs := (sm_srecs st)(r := f (sm_srecs st r))\<rparr>"

definition upd_cnt :: "(Counters \<Rightarrow> Counters) \<Rightarrow> StateMgr \<Rightarrow> StateMgr" where
  "upd_cnt f st = st\<lparr>sm_cnt := f (sm_cnt st)\<rparr>"

definition upd_session :: "SessionId \<Rightarrow> (SessionRec \<Rightarrow> SessionRec) \<Rightarrow> StateMgr \<Rightarrow> StateMgr" where
  "upd_session i f st = st\<lparr>sm_sessions := (sm_sessions st)(i := map_option f (sm_sessions st i))\<rparr>"

text \<open>Dropping the last reference to a backend open handle closes it.\<close>

definition drop_handle :: "nat option \<Rightarrow> StateMgr \<Rightarrow> StateMgr" where
  "drop_handle h st = (case h of None \<Rightarrow> st | Some n \<Rightarrow> st\<lparr>sm_released := sm_released st @ [n]\<rparr>)"

text \<open>\<^verbatim>\<open>StateMgr::now_coarse\<close>: the steady clock in whole seconds.\<close>

definition now_coarse :: "StateMgr \<Rightarrow> int" where
  "now_coarse st = sm_now st div 1000000000"

definition advance_clock :: "int \<Rightarrow> StateMgr \<Rightarrow> StateMgr" where
  "advance_clock d st = st\<lparr>sm_now := sm_now st + d\<rparr>"

abbreviation client_of :: "StateMgr \<Rightarrow> sref \<Rightarrow> ClientRec" where
  "client_of st r \<equiv> sm_clients st (sr_client (sm_srecs st r))"

abbreviation state_key :: "StateRec \<Rightarrow> FileKey" where
  "state_key rec \<equiv> FileKey (sr_fsid rec) (sr_oid rec)"

definition epoch_of :: "StateOther \<Rightarrow> u32" where
  "epoch_of other = le_word (take 4 other)"

definition share_conflict :: "u32 \<Rightarrow> u32 \<Rightarrow> StateRec \<Rightarrow> bool" where
  "share_conflict access deny other \<longleftrightarrow>
     access AND sr_deny other \<noteq> 0 \<or> deny AND sr_access other \<noteq> 0"

text \<open>\<^verbatim>\<open>find_client_sync\<close>: by the dedicated index, refusing another boot's ids.\<close>

definition find_client :: "Config \<Rightarrow> StateMgr \<Rightarrow> u64 \<Rightarrow> cref option" where
  "find_client cfg st clientid =
     (if drop_bit 32 clientid \<noteq> cfg_boot_epoch cfg then None else sm_client_idx st clientid)"

definition index_client :: "cref \<Rightarrow> StateMgr \<Rightarrow> StateMgr" where
  "index_client c st =
     st\<lparr>sm_client_idx := (sm_client_idx st)(cl_clientid (sm_clients st c) \<mapsto> c)\<rparr>"

definition unindex_client :: "u64 \<Rightarrow> StateMgr \<Rightarrow> StateMgr" where
  "unindex_client i st = st\<lparr>sm_client_idx := (sm_client_idx st)(i := None)\<rparr>"

definition arm_lease_check :: "cref \<Rightarrow> int \<Rightarrow> StateMgr \<Rightarrow> StateMgr" where
  "arm_lease_check c when st =
     (let d = cl_lease_heap_deadline (sm_clients st c)
      in if d \<ge> 0 \<and> d \<le> when then st
         else (upd_client c (\<lambda>k. k\<lparr>cl_lease_heap_deadline := when\<rparr>) st)
                \<lparr>sm_lease_heap := insort (when, cl_clientid (sm_clients st c)) (sm_lease_heap st)\<rparr>)"

definition renew :: "Config \<Rightarrow> cref \<Rightarrow> StateMgr \<Rightarrow> StateMgr" where
  "renew cfg c st =
     (let expiry = now_coarse st + uint (cfg_lease_seconds cfg);
          st1 = upd_client c (\<lambda>k. k\<lparr>cl_lease_expiry := expiry\<rparr>) st
      in if cl_courtesy (sm_clients st1 c)
         then arm_lease_check c expiry
                (upd_cnt (\<lambda>n. n\<lparr>n_courtesy := n_courtesy n - 1\<rparr>)
                  (upd_client c (\<lambda>k. k\<lparr>cl_courtesy := False\<rparr>) st1))
         else st1)"

text \<open>\<^verbatim>\<open>other = {boot_epoch(4B) | type(1B) | counter(7B)}\<close>\<close>

definition new_other :: "Config \<Rightarrow> StateType \<Rightarrow> StateMgr \<Rightarrow> StateOther \<times> StateMgr" where
  "new_other cfg ty st =
     (le_bytes 4 (ucast (cfg_boot_epoch cfg) :: u32) @ [type_byte ty] @ take 7 (le_bytes 8 (sm_next_state st)),
      st\<lparr>sm_next_state := sm_next_state st + 1\<rparr>)"

text \<open>\<^verbatim>\<open>track_state_locked\<close> and \<^verbatim>\<open>untrack_state_locked\<close>: first / last state in the export.\<close>

definition track_state_locked :: "cref \<Rightarrow> StateRec \<Rightarrow> StateMgr \<Rightarrow> bool \<times> StateMgr" where
  "track_state_locked c rec st =
     (let k = sm_clients st c;
          n = (case map_of (cl_fs_states k) (sr_fsid rec) of None \<Rightarrow> 0 | Some m \<Rightarrow> m) + 1
      in (n = 1,
          upd_client c (\<lambda>k. k\<lparr>cl_states := List.insert (sr_other rec) (cl_states k),
                             cl_fs_states := AList.update (sr_fsid rec) n (cl_fs_states k)\<rparr>) st))"

definition untrack_state_locked :: "cref \<Rightarrow> StateRec \<Rightarrow> StateMgr \<Rightarrow> bool \<times> StateMgr" where
  "untrack_state_locked c rec st =
     (let st1 = upd_client c (\<lambda>k. k\<lparr>cl_states := removeAll (sr_other rec) (cl_states k)\<rparr>) st
      in case map_of (cl_fs_states (sm_clients st1 c)) (sr_fsid rec) of
           None \<Rightarrow> (False, st1)
         | Some n \<Rightarrow>
             if n - 1 > 0
             then (False, upd_client c (\<lambda>k. k\<lparr>cl_fs_states := AList.update (sr_fsid rec) (n - 1) (cl_fs_states k)\<rparr>) st1)
             else (True, upd_client c (\<lambda>k. k\<lparr>cl_fs_states := AList.delete (sr_fsid rec) (cl_fs_states k)\<rparr>) st1))"

end
