(* ===== verification/StateGrace.thy ===== *)
theory StateGrace
  imports StateTypes
begin

text \<open>
  Grace windows and the stable list of clients that may reclaim
  (\<^verbatim>\<open>state_mgr.cpp\<close>, sections "grace" and "persistence").  A window is keyed by the
  export it gates (0: every export) and ends at its deadline, when everybody listed has sent
  RECLAIM_COMPLETE, or by the operator; readers expire it lazily.

  The stable list is the single-gateway store: per list a directory with one file per client,
  named by the FNV hash of the owner and holding the owner, here an association list from file
  name to content.  A failed write is only logged by the code and is not modelled.
\<close>

section \<open>Stable list\<close>

definition load_local_clients :: "StateMgr \<Rightarrow> u32 \<Rightarrow> bytes list" where
  "load_local_clients st fsid =
     filter (\<lambda>owner. owner \<noteq> []) (map (\<lambda>(name, content). take 1024 content) (sm_stable st fsid))"

definition write_client_record :: "u32 \<Rightarrow> bytes \<Rightarrow> StateMgr \<Rightarrow> StateMgr" where
  "write_client_record fsid owner st =
     st\<lparr>sm_stable := (sm_stable st)(fsid := AList.update (fnv64 owner) owner (sm_stable st fsid))\<rparr>"

definition unlink_client_record :: "u32 \<Rightarrow> bytes \<Rightarrow> StateMgr \<Rightarrow> StateMgr" where
  "unlink_client_record fsid owner st =
     st\<lparr>sm_stable := (sm_stable st)(fsid := AList.delete (fnv64 owner) (sm_stable st fsid))\<rparr>"

definition persist_client :: "Config \<Rightarrow> cref \<Rightarrow> StateMgr \<Rightarrow> StateMgr" where
  "persist_client cfg c st =
     (if cfg_per_fsid_reclaim cfg then st
      else write_client_record 0 (cl_owner_id (sm_clients st c)) st)"

definition persist_fs_client :: "u32 \<Rightarrow> bytes \<Rightarrow> StateMgr \<Rightarrow> StateMgr" where
  "persist_fs_client fsid owner st = write_client_record fsid owner st"

definition unpersist_fs_client :: "u32 \<Rightarrow> bytes \<Rightarrow> StateMgr \<Rightarrow> StateMgr" where
  "unpersist_fs_client fsid owner st = unlink_client_record fsid owner st"

definition unpersist_client :: "Config \<Rightarrow> cref \<Rightarrow> StateMgr \<Rightarrow> StateMgr" where
  "unpersist_client cfg c st =
     (let owner = cl_owner_id (sm_clients st c)
      in if cfg_per_fsid_reclaim cfg
         then upd_client c (\<lambda>k. k\<lparr>cl_fs_states := []\<rparr>)
                (fold (\<lambda>(fsid, n). unpersist_fs_client fsid owner) (cl_fs_states (sm_clients st c)) st)
         else unlink_client_record 0 owner st)"

section \<open>Grace windows\<close>

definition arm_grace :: "Config \<Rightarrow> u32 \<Rightarrow> bytes list \<Rightarrow> StateMgr \<Rightarrow> StateMgr" where
  "arm_grace cfg fsid owners st =
     (let window = (case map_of (sm_grace st) fsid of None \<Rightarrow> new_window | Some w \<Rightarrow> w);
          named = set (filter (\<lambda>owner. owner \<noteq> []) owners);
          w1 = window\<lparr>gw_listed := gw_listed window \<union> named, gw_pending := gw_pending window \<union> named\<rparr>;
          grace_secs = (if cfg_grace_seconds cfg \<noteq> 0 then cfg_grace_seconds cfg else cfg_lease_seconds cfg)
      in if gw_pending w1 \<noteq> {}
         then st\<lparr>sm_grace := AList.update fsid
                   (w1\<lparr>gw_deadline := sm_now st + uint grace_secs * 1000000000, gw_active := True\<rparr>) (sm_grace st),
                 sm_grace_any := True\<rparr>
         else st\<lparr>sm_grace := AList.update fsid w1 (sm_grace st)\<rparr>)"

text \<open>\<^verbatim>\<open>load_grace_list()\<close> is the case \<open>fsid = 0\<close>.\<close>

definition load_grace_list :: "Config \<Rightarrow> u32 \<Rightarrow> StateMgr \<Rightarrow> StateMgr" where
  "load_grace_list cfg fsid st = arm_grace cfg fsid (load_local_clients st fsid) st"

definition end_grace :: "u32 \<Rightarrow> StateMgr \<Rightarrow> bool \<times> StateMgr" where
  "end_grace fsid st =
     (let hit = (\<lambda>i. \<not> (fsid \<noteq> 0 \<and> i \<noteq> fsid))
      in (list_ex (\<lambda>(i, w). hit i \<and> gw_active w) (sm_grace st),
          st\<lparr>sm_grace := map (\<lambda>(i, w). (i, if hit i then w\<lparr>gw_pending := {}, gw_active := False\<rparr> else w))
                          (sm_grace st),
             sm_grace_any := (if fsid = 0 then False else sm_grace_any st)\<rparr>))"

text \<open>\<^verbatim>\<open>window_live\<close>: the answer and the window after lazy expiry.\<close>

definition window_live :: "int \<Rightarrow> GraceWindow \<Rightarrow> bool \<times> GraceWindow" where
  "window_live now window =
     (if \<not> gw_active window then (False, window)
      else if gw_pending window = {} \<or> now \<ge> gw_deadline window
      then (False, window\<lparr>gw_active := False\<rparr>)
      else (True, window))"

definition in_grace_any :: "StateMgr \<Rightarrow> bool \<times> StateMgr" where
  "in_grace_any st =
     (if \<not> sm_grace_any st then (False, st)
      else let ws = map (\<lambda>(i, w). (i, window_live (sm_now st) w)) (sm_grace st);
               any = list_ex (\<lambda>(i, live, w). live) ws
           in (any, st\<lparr>sm_grace := map (\<lambda>(i, live, w). (i, w)) ws,
                       sm_grace_any := (if any then sm_grace_any st else False)\<rparr>))"

definition in_grace :: "u32 \<Rightarrow> StateMgr \<Rightarrow> bool \<times> StateMgr" where
  "in_grace fsid st =
     (if \<not> sm_grace_any st then (False, st)
      else let ws = map (\<lambda>(i, w). (i, window_live (sm_now st) w)) (sm_grace st);
               any = list_ex (\<lambda>(i, live, w). live) ws;
               hit = list_ex (\<lambda>(i, live, w). live \<and> (i = 0 \<or> i = fsid)) ws
           in (hit, st\<lparr>sm_grace := map (\<lambda>(i, live, w). (i, w)) ws,
                       sm_grace_any := (if any then sm_grace_any st else False)\<rparr>))"

text \<open>\<^verbatim>\<open>duration_cast<seconds>\<close> truncates towards zero; the deadlines read here lie ahead.\<close>

definition secs_left :: "StateMgr \<Rightarrow> GraceWindow \<Rightarrow> int" where
  "secs_left st w =
     (let d = gw_deadline w - sm_now st
      in if d \<ge> 0 then d div 1000000000 else - ((- d) div 1000000000))"

definition grace_remaining_any :: "StateMgr \<Rightarrow> int \<times> StateMgr" where
  "grace_remaining_any st =
     (let (live, st1) = in_grace_any st
      in if \<not> live then (0, st1)
         else (foldl (\<lambda>best (i, w). if \<not> gw_active w then best else max best (secs_left st1 w)) 0 (sm_grace st1),
               st1))"

definition grace_remaining :: "u32 \<Rightarrow> StateMgr \<Rightarrow> int \<times> StateMgr" where
  "grace_remaining fsid st =
     (let (live, st1) = in_grace fsid st
      in if \<not> live then (0, st1)
         else (foldl (\<lambda>best (i, w). if \<not> gw_active w \<or> (i \<noteq> 0 \<and> i \<noteq> fsid) then best
                                    else max best (secs_left st1 w)) 0 (sm_grace st1),
               st1))"

definition in_stable_list_global :: "StateMgr \<Rightarrow> bytes \<Rightarrow> bool" where
  "in_stable_list_global st owner =
     (case map_of (sm_grace st) 0 of None \<Rightarrow> False | Some w \<Rightarrow> owner \<in> gw_listed w)"

definition in_stable_list :: "StateMgr \<Rightarrow> u32 \<Rightarrow> bytes \<Rightarrow> bool" where
  "in_stable_list st fsid owner =
     list_ex (\<lambda>i. case map_of (sm_grace st) i of None \<Rightarrow> False | Some w \<Rightarrow> owner \<in> gw_listed w) [0, fsid]"

definition note_reclaimed :: "bytes \<Rightarrow> StateMgr \<Rightarrow> StateMgr" where
  "note_reclaimed owner st =
     st\<lparr>sm_grace := map (\<lambda>(i, w).
          let w1 = w\<lparr>gw_pending := gw_pending w - {owner}\<rparr>
          in (i, if gw_pending w1 = {} \<and> gw_active w1 then w1\<lparr>gw_active := False\<rparr> else w1)) (sm_grace st)\<rparr>"

end
