(* ===== verification/StateUnlink.thy ===== *)
theory StateUnlink
  imports StateGrace
begin

text \<open>
  Dropping a state (\<^verbatim>\<open>StateMgr::unlink_state\<close>) and what it needs: the native lock
  manager of the export and the waiters of CB_NOTIFY_LOCK (\<^verbatim>\<open>state_mgr.cpp\<close>).
\<close>

section \<open>Native lock manager\<close>

definition native_lock_mgr :: "Config \<Rightarrow> u32 \<Rightarrow> bool" where
  "native_lock_mgr cfg fsid = (case nl_manager (cfg_native cfg) of None \<Rightarrow> False | Some f \<Rightarrow> f fsid)"

definition native_lock_object :: "Config \<Rightarrow> u32 \<Rightarrow> ObjId \<Rightarrow> unit res" where
  "native_lock_object cfg fsid oid =
     (case nl_resolve (cfg_native cfg) of None \<Rightarrow> Inl ENODEV | Some f \<Rightarrow> f fsid oid)"

text \<open>One call of the native manager: the answer depends on the calls before it.\<close>

definition native_do :: "Config \<Rightarrow> native_call \<Rightarrow> StateMgr \<Rightarrow> unit res \<times> StateMgr" where
  "native_do cfg call st =
     (nl_result (cfg_native cfg) (sm_native_log st) call, st\<lparr>sm_native_log := sm_native_log st @ [call]\<rparr>)"

definition native_probe :: "Config \<Rightarrow> native_call \<Rightarrow> StateMgr \<Rightarrow> LockConflict option res \<times> StateMgr" where
  "native_probe cfg call st =
     (nl_test (cfg_native cfg) (sm_native_log st) call, st\<lparr>sm_native_log := sm_native_log st @ [call]\<rparr>)"

definition native_lock_status :: "errno \<Rightarrow> Status" where
  "native_lock_status e =
     (if e = kJukebox \<or> e = ENOTCONN \<or> e = ETIMEDOUT \<or> e = EAGAIN then S_Delay
      else if e = ESTALE \<or> e = ENOENT then S_Stale
      else S_Serverfault)"

section \<open>Lock waiters\<close>

text \<open>The retry of a registered waiter re-arms its first entry.\<close>

fun rearm_first :: "(LockWaiter \<Rightarrow> bool) \<Rightarrow> int \<Rightarrow> LockWaiter list \<Rightarrow> LockWaiter list" where
  "rearm_first mine expires [] = []"
| "rearm_first mine expires (w # ws) =
     (if mine w then w\<lparr>lw_expires := expires\<rparr> # ws else w # rearm_first mine expires ws)"

definition register_lock_waiter ::
  "Config \<Rightarrow> u32 \<Rightarrow> ObjId \<Rightarrow> u64 \<Rightarrow> bytes \<Rightarrow> bytes \<Rightarrow> StateMgr \<Rightarrow> StateMgr" where
  "register_lock_waiter cfg fsid oid clientid owner fh st =
     (let key = FileKey fsid oid;
          expires = now_coarse st + uint (cfg_lease_seconds cfg);
          waiters = (case sm_lock_waiters st key of None \<Rightarrow> [] | Some ws \<Rightarrow> ws);
          mine = (\<lambda>w. lw_clientid w = clientid \<and> lw_owner w = owner);
          waiters' =
            (if list_ex mine waiters
             then rearm_first mine expires waiters
             else if length waiters \<ge> 16 then waiters
             else waiters @ [\<lparr>lw_clientid = clientid, lw_owner = owner, lw_fh = fh, lw_expires = expires\<rparr>])
      in st\<lparr>sm_lock_waiters := (sm_lock_waiters st)(key \<mapsto> waiters')\<rparr>)"

definition notify_lock_waiters :: "FileKey \<Rightarrow> StateMgr \<Rightarrow> StateMgr" where
  "notify_lock_waiters key st =
     (case sm_lock_waiters st key of
        None \<Rightarrow> st
      | Some waiters \<Rightarrow>
          let now = now_coarse st
          in st\<lparr>sm_lock_waiters := (sm_lock_waiters st)(key := None),
                sm_tasks := sm_tasks st @
                  map (\<lambda>w. NotifyTask (lw_clientid w) (lw_owner w) (lw_fh w))
                    (filter (\<lambda>w. \<not> lw_expires w < now) waiters)\<rparr>)"

section \<open>Unlinking a state\<close>

text \<open>Under the state shard: claim the record; the handle is moved out of it.\<close>

definition unlink_claim :: "sref \<Rightarrow> StateMgr \<Rightarrow> (nat option \<times> StateMgr) option" where
  "unlink_claim r st =
     (let rec = sm_srecs st r
      in if sr_closed rec then None
         else Some (sr_bopen rec,
           (if sr_type rec = kOpen then upd_cnt (\<lambda>n. n\<lparr>n_opens := n_opens n - 1\<rparr>) else id)
             (upd_state r (\<lambda>x. x\<lparr>sr_closed := True, sr_bopen := None\<rparr>)
               (st\<lparr>sm_states := AList.delete (sr_other rec) (sm_states st)\<rparr>))))"

text \<open>Under the file shard: leave the file index; the lock states derived from a closing open.\<close>

definition unlink_file :: "sref \<Rightarrow> StateMgr \<Rightarrow> sref list \<times> StateMgr" where
  "unlink_file r st =
     (let rec = sm_srecs st r; key = state_key rec
      in case sm_files st key of
           None \<Rightarrow> ([], st)
         | Some file \<Rightarrow>
             let (deps, file') =
               (case sr_type rec of
                  kOpen \<Rightarrow> (filter (\<lambda>l. sr_parent_open (sm_srecs st l) = Some r) (fl_locks file),
                            file\<lparr>fl_opens := removeAll r (fl_opens file)\<rparr>)
                | kLock \<Rightarrow> ([], file\<lparr>fl_locks := removeAll r (fl_locks file)\<rparr>)
                | kDeleg \<Rightarrow> ([], file\<lparr>fl_delegs := removeAll r (fl_delegs file)\<rparr>))
             in (deps,
                 if file_unused file'
                 then upd_cnt (\<lambda>n. n\<lparr>n_files := n_files n - 1\<rparr>)
                        (st\<lparr>sm_files := (sm_files st)(key := None)\<rparr>)
                 else st\<lparr>sm_files := (sm_files st)(key \<mapsto> file')\<rparr>))"

text \<open>The ranges of a lock state go, here and (unless the export moves) in the storage.\<close>

definition unlink_native :: "Config \<Rightarrow> sref \<Rightarrow> bool \<Rightarrow> StateMgr \<Rightarrow> StateMgr" where
  "unlink_native cfg r handover st =
     (let rec = sm_srecs st r
      in if handover \<or> \<not> native_lock_mgr cfg (sr_fsid rec) then st
         else let (rel, st1) =
                (case native_lock_object cfg (sr_fsid rec) (sr_oid rec) of
                   Inl e \<Rightarrow> (Inl e, st)
                 | Inr _ \<Rightarrow> native_do cfg (NRelease (sr_fsid rec) (sr_oid rec) (sr_lowner rec)) st)
              in case rel of
                   Inl _ \<Rightarrow> upd_cnt (\<lambda>n. n\<lparr>c_native_lock_errors := c_native_lock_errors n + 1\<rparr>) st1
                 | Inr _ \<Rightarrow> st1)"

definition unlink_ranges :: "Config \<Rightarrow> sref \<Rightarrow> bool \<Rightarrow> StateMgr \<Rightarrow> StateMgr" where
  "unlink_ranges cfg r handover st =
     (let rec = sm_srecs st r; key = state_key rec
      in case sr_type rec of
           kOpen \<Rightarrow> st
         | kLock \<Rightarrow>
             notify_lock_waiters key
               (upd_cnt (\<lambda>n. n\<lparr>n_locks := n_locks n - 1\<rparr>)
                 (unlink_native cfg r handover
                   (st\<lparr>sm_locks := snd (release_owner (sm_locks st) key (sr_lowner rec))\<rparr>)))
         | kDeleg \<Rightarrow>
             upd_client (sr_client rec) (\<lambda>k. k\<lparr>cl_delegs := cl_delegs k - 1\<rparr>)
               (upd_cnt (\<lambda>n. n\<lparr>n_delegs := n_delegs n - 1\<rparr>) st))"

text \<open>Under the client shard: the client forgets the state; its last one in an export delists it.\<close>

definition unlink_client :: "Config \<Rightarrow> sref \<Rightarrow> bool \<Rightarrow> bool \<Rightarrow> StateMgr \<Rightarrow> StateMgr" where
  "unlink_client cfg r from_client handover st =
     (if \<not> from_client then st
      else let rec = sm_srecs st r;
               (last_in_fs, st1) = untrack_state_locked (sr_client rec) rec st
           in if last_in_fs \<and> cfg_per_fsid_reclaim cfg \<and> \<not> handover
              then unpersist_fs_client (sr_fsid rec) (cl_owner_id (sm_clients st1 (sr_client rec))) st1
              else st1)"

text \<open>
  \<^verbatim>\<open>unlink_state\<close> recurses on the lock states of a closing open.  A lock state has no
  dependents, so the recursion is one level deep: \<open>unlink_leaf\<close> is the call on a dependent.
\<close>

definition unlink_leaf ::
  "Config \<Rightarrow> sref \<Rightarrow> bool \<Rightarrow> bool \<Rightarrow> StateMgr \<Rightarrow> nat option \<times> StateMgr" where
  "unlink_leaf cfg r from_client handover st =
     (case unlink_claim r st of
        None \<Rightarrow> (None, st)
      | Some (released, st1) \<Rightarrow>
          let (_, st2) = unlink_file r st1
          in (released, unlink_client cfg r from_client handover (unlink_ranges cfg r handover st2)))"

definition unlink_state ::
  "Config \<Rightarrow> sref \<Rightarrow> bool \<Rightarrow> bool \<Rightarrow> StateMgr \<Rightarrow> nat option \<times> StateMgr" where
  "unlink_state cfg r from_client handover st =
     (case unlink_claim r st of
        None \<Rightarrow> (None, st)
      | Some (released, st1) \<Rightarrow>
          let (deps, st2) = unlink_file r st1;
              st3 = fold (\<lambda>l s. snd (unlink_leaf cfg l from_client handover s)) deps
                      (unlink_ranges cfg r handover st2)
          in (released, unlink_client cfg r from_client handover st3))"

end
