(* ===== verification/StateExpire.thy ===== *)
theory StateExpire
  imports StateUnlink
begin

text \<open>
  The reclaim chain of one client (\<^verbatim>\<open>expire_client_impl\<close>) and the handover of an
  export (\<^verbatim>\<open>release_fsid\<close>), with the helpers the client operations share
  (\<^verbatim>\<open>state_mgr.cpp\<close>).
\<close>

datatype reason = kReasonForced | kReasonConflict | kReasonTimeout | kReasonReboot

text \<open>The record leaves its owner slot; an empty slot leaves the table.\<close>

definition clear_owner_slot :: "cref \<Rightarrow> StateMgr \<Rightarrow> StateMgr" where
  "clear_owner_slot c st =
     (let owner = cl_owner_id (sm_clients st c)
      in case sm_by_owner st owner of
           None \<Rightarrow> st
         | Some slot \<Rightarrow>
             let slot' = \<lparr>os_confirmed = (if os_confirmed slot = Some c then None else os_confirmed slot),
                          os_unconfirmed = (if os_unconfirmed slot = Some c then None else os_unconfirmed slot)\<rparr>
             in st\<lparr>sm_by_owner := (sm_by_owner st)(owner :=
                  (if os_confirmed slot' = None \<and> os_unconfirmed slot' = None then None else Some slot'))\<rparr>)"

text \<open>\<^verbatim>\<open>by_id.erase\<close>, \<^verbatim>\<open>unindex_client\<close> and the client count go together.\<close>

definition remove_client :: "u64 \<Rightarrow> StateMgr \<Rightarrow> StateMgr" where
  "remove_client clientid st =
     upd_cnt (\<lambda>n. n\<lparr>n_clients := n_clients n - 1\<rparr>)
       (unindex_client clientid (st\<lparr>sm_by_id := (sm_by_id st)(clientid := None)\<rparr>))"

text \<open>\<^verbatim>\<open>courtesy.exchange(false)\<close> with its counter.\<close>

definition end_courtesy :: "cref \<Rightarrow> StateMgr \<Rightarrow> StateMgr" where
  "end_courtesy c st =
     (if cl_courtesy (sm_clients st c)
      then upd_cnt (\<lambda>n. n\<lparr>n_courtesy := n_courtesy n - 1\<rparr>)
             (upd_client c (\<lambda>k. k\<lparr>cl_courtesy := False\<rparr>) st)
      else st)"

text \<open>One session leaves the table (its waiters are woken and find it gone).\<close>

definition drop_session :: "SessionId \<Rightarrow> StateMgr \<Rightarrow> StateMgr" where
  "drop_session i st =
     (case sm_sessions st i of
        None \<Rightarrow> st
      | Some _ \<Rightarrow> upd_cnt (\<lambda>n. n\<lparr>n_sessions := n_sessions n - 1\<rparr>)
                    (st\<lparr>sm_sessions := (sm_sessions st)(i := None)\<rparr>))"

text \<open>The loop over orphaned stateids: look each up, unlink it, collect the handles.\<close>

definition unlink_other ::
  "Config \<Rightarrow> StateOther \<Rightarrow> nat option list \<times> StateMgr \<Rightarrow> nat option list \<times> StateMgr" where
  "unlink_other cfg other a =
     (case a of (released, st) \<Rightarrow>
        case map_of (sm_states st) other of
          None \<Rightarrow> (released, st)
        | Some r \<Rightarrow> let (h, st1) = unlink_state cfg r False False st in (released @ [h], st1))"

definition unlink_others :: "Config \<Rightarrow> StateOther list \<Rightarrow> StateMgr \<Rightarrow> nat option list \<times> StateMgr" where
  "unlink_others cfg others st = fold (unlink_other cfg) others ([], st)"

definition forget_lock_owners :: "u64 \<Rightarrow> StateMgr \<Rightarrow> StateMgr" where
  "forget_lock_owners clientid st =
     st\<lparr>sm_lock_owners := filter (\<lambda>(k, r). \<not> cl_clientid (sm_clients st (lor_client r)) = clientid)
                           (sm_lock_owners st)\<rparr>"

fun count_reason :: "reason \<Rightarrow> StateMgr \<Rightarrow> StateMgr" where
  "count_reason kReasonConflict st = upd_cnt (\<lambda>n. n\<lparr>c_reclaim_conflict := c_reclaim_conflict n + 1\<rparr>) st"
| "count_reason kReasonTimeout st = upd_cnt (\<lambda>n. n\<lparr>c_reclaim_timeout := c_reclaim_timeout n + 1\<rparr>) st"
| "count_reason kReasonForced st = upd_cnt (\<lambda>n. n\<lparr>c_reclaim_forced := c_reclaim_forced n + 1\<rparr>) st"
| "count_reason kReasonReboot st = st"

text \<open>Under the client shard: the record is marked expired and leaves every client table.\<close>

definition expire_claim ::
  "Config \<Rightarrow> u64 \<Rightarrow> StateMgr \<Rightarrow> (Status + cref \<times> StateOther list \<times> SessionId list) \<times> StateMgr" where
  "expire_claim cfg clientid st =
     (case find_client cfg st clientid of
        None \<Rightarrow> (Inl S_StaleClientid, st)
      | Some c \<Rightarrow>
          if sm_by_id st clientid \<noteq> Some c then (Inl S_StaleClientid, st)
          else if cl_expired (sm_clients st c) then (Inl S_Ok, st)
          else
            let st1 = end_courtesy c (upd_client c (\<lambda>k. k\<lparr>cl_expired := True\<rparr>) st);
                states = cl_states (sm_clients st1 c);
                sessions = cl_sessions (sm_clients st1 c);
                st2 = upd_client c (\<lambda>k. k\<lparr>cl_states := [], cl_sessions := []\<rparr>) st1
            in (Inr (c, states, sessions), remove_client clientid (clear_owner_slot c st2)))"

definition expire_client_impl :: "Config \<Rightarrow> u64 \<Rightarrow> reason \<Rightarrow> StateMgr \<Rightarrow> Status \<times> StateMgr" where
  "expire_client_impl cfg clientid why st =
     (case expire_claim cfg clientid st of
        (Inl s, st1) \<Rightarrow> (s, st1)
      | (Inr (c, states, sessions), st1) \<Rightarrow>
          let (released, st2) = unlink_others cfg states st1;
              st3 = fold drop_session sessions st2;
              st4 = forget_lock_owners clientid (unpersist_client cfg c st3)
          in (S_Ok, fold drop_handle released (count_reason why st4)))"

definition expire_client :: "Config \<Rightarrow> u64 \<Rightarrow> StateMgr \<Rightarrow> Status \<times> StateMgr" where
  "expire_client cfg clientid st = expire_client_impl cfg clientid kReasonForced st"

section \<open>Export handover\<close>

definition release_victim ::
  "Config \<Rightarrow> int \<Rightarrow> sref \<Rightarrow> nat \<times> nat option list \<times> StateMgr \<Rightarrow> nat \<times> nat option list \<times> StateMgr" where
  "release_victim cfg until r a =
     (case a of (dropped, released, st) \<Rightarrow>
        if sr_closed (sm_srecs st r) then (dropped, released, st)
        else
          let st1 = upd_client (sr_client (sm_srecs st r)) (\<lambda>k. k\<lparr>cl_lease_moved_until := until\<rparr>) st;
              (h, st2) = unlink_state cfg r True True st1
          in (dropped + 1, released @ [h], st2))"

definition release_fsid :: "Config \<Rightarrow> u32 \<Rightarrow> StateMgr \<Rightarrow> nat \<times> StateMgr" where
  "release_fsid cfg fsid st =
     (let victims = map snd (filter (\<lambda>(other, r). sr_fsid (sm_srecs st r) = fsid \<and> \<not> sr_closed (sm_srecs st r))
                               (sm_states st));
          until = now_coarse st + uint (cfg_lease_seconds cfg);
          (dropped, released, st1) = fold (release_victim cfg until) victims (0, [], st);
          (_, st2) = end_grace fsid st1
      in (dropped, fold drop_handle released st2))"

end
