(* ===== verification/StateClient.thy ===== *)
theory StateClient
  imports StateExpire
begin

text \<open>
  Client and session operations of the state manager (\<^verbatim>\<open>state_mgr.cpp\<close>): EXCHANGE_ID,
  CREATE_SESSION and its confirmation, DESTROY_SESSION, DESTROY_CLIENTID, connection binding,
  SEQUENCE on the slot table, RECLAIM_COMPLETE.
\<close>

section \<open>EXCHANGE_ID\<close>

record ExchangeResult =
  xr_status :: Status
  xr_clientid :: u64
  xr_sequenceid :: u32
  xr_confirmed_r :: bool

definition exchange_fail :: "Status \<Rightarrow> ExchangeResult" where
  "exchange_fail s = \<lparr>xr_status = s, xr_clientid = 0, xr_sequenceid = 1, xr_confirmed_r = False\<rparr>"

text \<open>Reporting the confirmed record (and renewing its lease).\<close>

definition exchange_confirmed :: "Config \<Rightarrow> cref \<Rightarrow> StateMgr \<Rightarrow> ExchangeResult \<times> StateMgr" where
  "exchange_confirmed cfg c st =
     (\<lparr>xr_status = S_Ok, xr_clientid = cl_clientid (sm_clients st c),
       xr_sequenceid = cl_cs_sequence (sm_clients st c), xr_confirmed_r = True\<rparr>,
      renew cfg c st)"

definition set_slot :: "bytes \<Rightarrow> OwnerSlot \<Rightarrow> StateMgr \<Rightarrow> StateMgr" where
  "set_slot owner slot st = st\<lparr>sm_by_owner := (sm_by_owner st)(owner \<mapsto> slot)\<rparr>"

definition erase_slot :: "bytes \<Rightarrow> StateMgr \<Rightarrow> StateMgr" where
  "erase_slot owner st = st\<lparr>sm_by_owner := (sm_by_owner st)(owner := None)\<rparr>"

definition slot_of :: "StateMgr \<Rightarrow> bytes \<Rightarrow> OwnerSlot" where
  "slot_of st owner =
     (case sm_by_owner st owner of None \<Rightarrow> \<lparr>os_confirmed = None, os_unconfirmed = None\<rparr> | Some s \<Rightarrow> s)"

definition exchange_update ::
  "Config \<Rightarrow> bytes \<Rightarrow> Verifier \<Rightarrow> bytes \<Rightarrow> StateMgr \<Rightarrow> ExchangeResult \<times> StateMgr" where
  "exchange_update cfg owner ver princ st =
     (let slot = slot_of st owner;
          (out, st1) =
            (case os_confirmed slot of
               None \<Rightarrow> (exchange_fail S_Noent, set_slot owner slot st)
             | Some c \<Rightarrow>
                 if cl_verifier (sm_clients st c) \<noteq> ver then (exchange_fail S_NotSame, st)
                 else if cl_principal (sm_clients st c) \<noteq> princ then (exchange_fail S_Perm, st)
                 else exchange_confirmed cfg c st)
      in (out, if os_confirmed slot = None \<and> os_unconfirmed slot = None then erase_slot owner st1 else st1))"

text \<open>The unconfirmed record of the owner is always replaced by a fresh registration.\<close>

definition drop_unconfirmed :: "bytes \<Rightarrow> StateMgr \<Rightarrow> StateMgr" where
  "drop_unconfirmed owner st =
     (case os_unconfirmed (slot_of st owner) of
        None \<Rightarrow> st
      | Some u \<Rightarrow>
          set_slot owner ((slot_of st owner)\<lparr>os_unconfirmed := None\<rparr>)
            (remove_client (cl_clientid (sm_clients st u)) st))"

definition register_client ::
  "Config \<Rightarrow> bytes \<Rightarrow> Verifier \<Rightarrow> bytes \<Rightarrow> StateMgr \<Rightarrow> ExchangeResult \<times> StateMgr" where
  "register_client cfg owner ver princ st =
     (if cfg_max_clients cfg \<noteq> 0 \<and> n_clients (sm_cnt st) \<ge> uint (cfg_max_clients cfg)
      then (exchange_fail S_Resource,
            if os_confirmed (slot_of st owner) = None then erase_slot owner st else st)
      else
        let c = sm_next_cref st;
            clientid = push_bit 32 (cfg_boot_epoch cfg) OR ucast (sm_next_client st);
            rec = new_client\<lparr>cl_clientid := clientid, cl_owner_id := owner, cl_principal := princ,
                             cl_verifier := ver\<rparr>;
            st1 = st\<lparr>sm_next_client := sm_next_client st + 1, sm_next_cref := c + 1,
                     sm_clients := (sm_clients st)(c := rec)\<rparr>;
            st2 = renew cfg c st1;
            st3 = set_slot owner ((slot_of st2 owner)\<lparr>os_unconfirmed := Some c\<rparr>) st2;
            st4 = index_client c (st3\<lparr>sm_by_id := (sm_by_id st3)(clientid \<mapsto> c)\<rparr>);
            st5 = arm_lease_check c (cl_lease_expiry (sm_clients st4 c)) st4
        in (\<lparr>xr_status = S_Ok, xr_clientid = clientid, xr_sequenceid = cl_cs_sequence rec,
             xr_confirmed_r = False\<rparr>,
            upd_cnt (\<lambda>n. n\<lparr>n_clients := n_clients n + 1\<rparr>) st5))"

definition exchange_id ::
  "Config \<Rightarrow> bytes \<Rightarrow> Verifier \<Rightarrow> bytes \<Rightarrow> bool \<Rightarrow> StateMgr \<Rightarrow> ExchangeResult \<times> StateMgr" where
  "exchange_id cfg owner ver princ update st =
     (if update then exchange_update cfg owner ver princ st
      else case os_confirmed (slot_of st owner) of
        None \<Rightarrow> register_client cfg owner ver princ (drop_unconfirmed owner st)
      | Some c \<Rightarrow>
          let k = sm_clients st c
          in if cl_principal k \<noteq> princ
             then if cl_sessions k \<noteq> [] \<or> cl_states k \<noteq> [] then (exchange_fail S_ClidInuse, st)
                  else let st1 = remove_client (cl_clientid k) (unpersist_client cfg c st);
                           st2 = set_slot owner ((slot_of st1 owner)\<lparr>os_confirmed := None\<rparr>) st1
                       in register_client cfg owner ver princ (drop_unconfirmed owner st2)
             else if cl_verifier k = ver then exchange_confirmed cfg c st
             else register_client cfg owner ver princ (drop_unconfirmed owner st))"

section \<open>CREATE_SESSION\<close>

record CreateSessionResult =
  cs_status :: Status
  cs_replay :: bool
  cs_cached :: bytes
  cs_sessionid :: SessionId
  cs_fore :: ChannelAttrs
  cs_back :: ChannelAttrs
  cs_seq :: u32

text \<open>\<^verbatim>\<open>ChannelAttrs\<close> with its member initialisers.\<close>

definition default_attrs :: ChannelAttrs where
  "default_attrs = \<lparr>ca_headerpad = 0, ca_max_request = 1048576, ca_max_response = 1048576,
     ca_max_response_cached = 8192, ca_max_ops = 16, ca_max_requests = 32\<rparr>"

definition create_fail :: "Status \<Rightarrow> CreateSessionResult" where
  "create_fail s = \<lparr>cs_status = s, cs_replay = False, cs_cached = [], cs_sessionid = replicate 16 0,
     cs_fore = default_attrs, cs_back = default_attrs, cs_seq = 0\<rparr>"

text \<open>\<^verbatim>\<open>std::clamp\<close>\<close>

definition clamp :: "u32 \<Rightarrow> u32 \<Rightarrow> u32 \<Rightarrow> u32" where
  "clamp v lo hi = (if v < lo then lo else if hi < v then hi else v)"

definition negotiate_fore :: "Config \<Rightarrow> ChannelAttrs \<Rightarrow> ChannelAttrs" where
  "negotiate_fore cfg req = req\<lparr>ca_headerpad := 0,
     ca_max_request := min (ca_max_request req) (cfg_max_io cfg),
     ca_max_response := min (ca_max_response req) (cfg_max_io cfg),
     ca_max_response_cached := min (ca_max_response_cached req) (cfg_max_cached_reply cfg),
     ca_max_ops := min (ca_max_ops req) (cfg_max_ops cfg),
     ca_max_requests := clamp (ca_max_requests req) 1 (cfg_max_slots cfg)\<rparr>"

definition negotiate_back :: "ChannelAttrs \<Rightarrow> ChannelAttrs" where
  "negotiate_back req = req\<lparr>ca_max_requests := 1, ca_max_ops := 2\<rparr>"

definition make_session_id :: "u64 \<Rightarrow> u32 \<Rightarrow> u32 \<Rightarrow> SessionId" where
  "make_session_id clientid counter nonce = le_bytes 8 clientid @ le_bytes 4 counter @ le_bytes 4 nonce"

text \<open>
  Confirmation of a new incarnation: the confirmed record of the owner, if another one, dies.
  Answers its orphaned sessions and states.
\<close>

definition confirm_client :: "cref \<Rightarrow> StateMgr \<Rightarrow> (SessionId list \<times> StateOther list) option \<times> StateMgr" where
  "confirm_client c st =
     (let owner = cl_owner_id (sm_clients st c);
          slot = slot_of st owner;
          (orphans, st1) =
            (case os_confirmed slot of
               None \<Rightarrow> (None, st)
             | Some old \<Rightarrow>
                 if old = c then (None, st)
                 else let sa = end_courtesy old (upd_client old (\<lambda>k. k\<lparr>cl_expired := True\<rparr>) st);
                          k = sm_clients sa old;
                          sb = upd_client old (\<lambda>k. k\<lparr>cl_sessions := [], cl_states := []\<rparr>) sa
                      in (Some (cl_sessions k, cl_states k), remove_client (cl_clientid k) sb));
          slot' = \<lparr>os_confirmed = Some c,
                   os_unconfirmed = (if os_unconfirmed slot = Some c then None else os_unconfirmed slot)\<rparr>
      in (orphans, upd_client c (\<lambda>k. k\<lparr>cl_confirmed := True\<rparr>) (set_slot owner slot' st1)))"

text \<open>The session record under construction, and the client's side of it.\<close>

definition new_session ::
  "Config \<Rightarrow> cref \<Rightarrow> SessionId \<Rightarrow> ChannelAttrs \<Rightarrow> ChannelAttrs \<Rightarrow> u64 \<Rightarrow> nat option \<Rightarrow> u32 \<Rightarrow> Cred \<Rightarrow> SessionRec" where
  "new_session cfg c i fore_req back_req conn chan prog cred =
     (let fore = negotiate_fore cfg fore_req
      in \<lparr>se_id = i, se_client = c, se_fore = fore, se_back = negotiate_back back_req,
          se_slots = replicate (unat (ca_max_requests fore)) new_slot,
          se_slot_count = ca_max_requests fore, se_bound_conns = {conn}, se_cb_chan = chan,
          se_cb_program = prog, se_cb_cred = cred, se_cb_seq = 0, se_cb_inflight = False,
          se_cb_inflight_since = 0, se_cb_down = False\<rparr>)"

definition add_session :: "Config \<Rightarrow> cref \<Rightarrow> u32 \<Rightarrow> SessionRec \<Rightarrow> StateMgr \<Rightarrow> StateMgr" where
  "add_session cfg c sequence session st =
     (let i = se_id session;
          st1 = upd_client c (\<lambda>k. k\<lparr>cl_cs_sequence := sequence + 1, cl_sessions := cl_sessions k @ [i]\<rparr>)
                  (st\<lparr>sm_next_session := sm_next_session st + 1\<rparr>);
          st2 = renew cfg c st1
      in upd_cnt (\<lambda>n. n\<lparr>n_sessions := n_sessions n + 1\<rparr>)
           (st2\<lparr>sm_sessions := (sm_sessions st2)(i \<mapsto> session)\<rparr>))"

text \<open>The sessions and states of a dead incarnation go after the new session is in place.\<close>

definition bury_orphans :: "Config \<Rightarrow> (SessionId list \<times> StateOther list) option \<Rightarrow> StateMgr \<Rightarrow> StateMgr" where
  "bury_orphans cfg orphans st =
     (case orphans of
        None \<Rightarrow> st
      | Some (sessions, states) \<Rightarrow>
          let (released, st1) = unlink_others cfg states (fold drop_session sessions st)
          in fold drop_handle released st1)"

definition create_session ::
  "Config \<Rightarrow> u64 \<Rightarrow> u32 \<Rightarrow> bytes \<Rightarrow> ChannelAttrs \<Rightarrow> ChannelAttrs \<Rightarrow> u64 \<Rightarrow> nat option \<Rightarrow> u32 \<Rightarrow> Cred \<Rightarrow>
   u32 \<Rightarrow> StateMgr \<Rightarrow> CreateSessionResult \<times> StateMgr" where
  "create_session cfg clientid sequence princ fore_req back_req conn chan prog cred nonce st =
     (case find_client cfg st clientid of
        None \<Rightarrow> (create_fail S_StaleClientid, st)
      | Some c \<Rightarrow>
          let k = sm_clients st c
          in if \<not> cl_confirmed k \<and> cl_principal k \<noteq> princ then (create_fail S_ClidInuse, st)
             else if sequence + 1 = cl_cs_sequence k \<and> cl_confirmed k
             then ((create_fail S_Ok)\<lparr>cs_replay := True, cs_cached := cl_cs_cached_reply k\<rparr>, st)
             else if sequence \<noteq> cl_cs_sequence k then (create_fail S_SeqMisordered, st)
             else
               let (orphans, st1) = (if \<not> cl_confirmed k then confirm_client c st else (None, st));
                   i = make_session_id (cl_clientid k) (sm_next_session st1) nonce;
                   session = new_session cfg c i fore_req back_req conn chan prog cred;
                   st2 = bury_orphans cfg orphans (add_session cfg c sequence session st1)
               in (\<lparr>cs_status = S_Ok, cs_replay = False, cs_cached = [], cs_sessionid = i,
                    cs_fore = se_fore session, cs_back = se_back session, cs_seq = sequence\<rparr>, st2))"

definition confirm_create_session :: "Config \<Rightarrow> u64 \<Rightarrow> bytes \<Rightarrow> StateMgr \<Rightarrow> StateMgr" where
  "confirm_create_session cfg clientid reply st =
     (case find_client cfg st clientid of
        None \<Rightarrow> st
      | Some c \<Rightarrow>
          if sm_by_id st clientid = None then st
          else let st1 = upd_client c (\<lambda>k. k\<lparr>cl_cs_cached_reply := reply\<rparr>) st
               in if \<not> cl_persisted (sm_clients st1 c)
                  then persist_client cfg c (upd_client c (\<lambda>k. k\<lparr>cl_persisted := True\<rparr>) st1)
                  else st1)"

section \<open>Destroying and binding\<close>

definition destroy_session :: "SessionId \<Rightarrow> u64 \<Rightarrow> StateMgr \<Rightarrow> Status \<times> StateMgr" where
  "destroy_session i conn st =
     (case sm_sessions st i of
        None \<Rightarrow> (S_Badsession, st)
      | Some session \<Rightarrow>
          if conn \<notin> se_bound_conns session then (S_ConnNotBound, st)
          else (S_Ok, upd_client (se_client session) (\<lambda>k. k\<lparr>cl_sessions := removeAll i (cl_sessions k)\<rparr>)
                        (drop_session i st)))"

definition destroy_clientid :: "Config \<Rightarrow> u64 \<Rightarrow> StateMgr \<Rightarrow> Status \<times> StateMgr" where
  "destroy_clientid cfg clientid st =
     (case find_client cfg st clientid of
        None \<Rightarrow> (S_StaleClientid, st)
      | Some c \<Rightarrow>
          if sm_by_id st clientid \<noteq> Some c then (S_StaleClientid, st)
          else if cl_sessions (sm_clients st c) \<noteq> [] \<or> cl_states (sm_clients st c) \<noteq> [] then (S_ClientidBusy, st)
          else (S_Ok, forget_lock_owners clientid
                        (remove_client clientid (end_courtesy c (clear_owner_slot c (unpersist_client cfg c st))))))"

definition bind_conn :: "SessionId \<Rightarrow> u64 \<Rightarrow> StateMgr \<Rightarrow> Status \<times> StateMgr" where
  "bind_conn i conn st =
     (case sm_sessions st i of
        None \<Rightarrow> (S_Badsession, st)
      | Some _ \<Rightarrow> (S_Ok, upd_session i (\<lambda>s. s\<lparr>se_bound_conns := insert conn (se_bound_conns s)\<rparr>) st))"

definition bind_backchannel :: "SessionId \<Rightarrow> nat option \<Rightarrow> StateMgr \<Rightarrow> Status \<times> StateMgr" where
  "bind_backchannel i chan st =
     (case sm_sessions st i of
        None \<Rightarrow> (S_Badsession, st)
      | Some _ \<Rightarrow> (S_Ok, upd_session i (\<lambda>s. s\<lparr>se_cb_chan := chan, se_cb_inflight := False, se_cb_down := False\<rparr>) st))"

section \<open>SEQUENCE\<close>

record SeqResult =
  sq_status :: Status
  sq_replay :: bool
  sq_replay_bytes :: bytes
  sq_max_ops :: u32
  sq_max_request :: u32
  sq_max_response :: u32
  sq_max_response_cached :: u32
  sq_highest_slot :: u32
  sq_status_flags :: u32

definition seq_fail :: "Status \<Rightarrow> SeqResult" where
  "seq_fail s = \<lparr>sq_status = s, sq_replay = False, sq_replay_bytes = [], sq_max_ops = 0, sq_max_request = 0,
     sq_max_response = 0, sq_max_response_cached = 0, sq_highest_slot = 0, sq_status_flags = 0\<rparr>"

text \<open>
  One pass of the loop of \<^verbatim>\<open>sequence_begin\<close>: it answers, or parks on the slot (a
  retransmission of the request in flight) and runs again when the slot is woken.
\<close>

datatype seq_outcome = SeqDone SeqResult | SeqWait

definition cb_alive :: "StateMgr \<Rightarrow> SessionRec \<Rightarrow> bool" where
  "cb_alive st s \<longleftrightarrow> (case se_cb_chan s of None \<Rightarrow> False | Some ch \<Rightarrow> sm_chan_alive st ch) \<and> \<not> se_cb_down s"

definition upd_slot :: "SessionId \<Rightarrow> nat \<Rightarrow> (Slot \<Rightarrow> Slot) \<Rightarrow> StateMgr \<Rightarrow> StateMgr" where
  "upd_slot i n f st = upd_session i (\<lambda>s. s\<lparr>se_slots := (se_slots s)[n := f (se_slots s ! n)]\<rparr>) st"

definition seq_flags :: "StateMgr \<Rightarrow> SessionRec \<Rightarrow> u32" where
  "seq_flags st s =
     (let k = sm_clients st (se_client s)
      in (if cl_delegs k > 0 \<and> \<not> cb_alive st s then 0x1 else 0) OR
         (if cl_lease_moved_until k \<noteq> 0 \<and> now_coarse st < cl_lease_moved_until k then 0x80 else 0))"

definition sequence_step ::
  "Config \<Rightarrow> SessionId \<Rightarrow> u32 \<Rightarrow> u32 \<Rightarrow> u32 \<Rightarrow> u64 \<Rightarrow> StateMgr \<Rightarrow> seq_outcome \<times> StateMgr" where
  "sequence_step cfg i slotid seqid highest conn st =
     (case sm_sessions st i of
        None \<Rightarrow> (SeqDone (seq_fail S_Badsession), st)
      | Some s0 \<Rightarrow>
          if cl_expired (sm_clients st (se_client s0)) then (SeqDone (seq_fail S_Badsession), st)
          else
            let st1 = upd_session i (\<lambda>s. s\<lparr>se_bound_conns := insert conn (se_bound_conns s)\<rparr>) st
            in if slotid \<ge> se_slot_count s0 then (SeqDone (seq_fail S_Badslot), st1)
               else if highest \<ge> se_slot_count s0 then (SeqDone (seq_fail S_BadHighSlot), st1)
               else
                 let slot = se_slots s0 ! unat slotid
                 in if sl_in_flight slot
                    then if seqid = sl_seqid slot + 1
                         then (SeqWait, upd_cnt (\<lambda>n. n\<lparr>c_seq_waits := c_seq_waits n + 1\<rparr>) st1)
                         else (SeqDone (seq_fail S_SeqMisordered), st1)
                    else if seqid = sl_seqid slot + 1
                    then
                      let st2 = renew cfg (se_client s0)
                                  (upd_slot i (unat slotid) (\<lambda>x. x\<lparr>sl_in_flight := True\<rparr>) st1)
                      in (SeqDone \<lparr>sq_status = S_Ok, sq_replay = False, sq_replay_bytes = [],
                             sq_max_ops = ca_max_ops (se_fore s0),
                             sq_max_request = ca_max_request (se_fore s0),
                             sq_max_response = ca_max_response (se_fore s0),
                             sq_max_response_cached = ca_max_response_cached (se_fore s0),
                             sq_highest_slot = se_slot_count s0 - 1,
                             sq_status_flags = seq_flags st2 s0\<rparr>,
                          upd_cnt (\<lambda>n. n\<lparr>c_seq_new := c_seq_new n + 1\<rparr>) st2)
                    else if seqid = sl_seqid slot \<and> sl_seqid slot \<noteq> 0
                    then (SeqDone ((if sl_cached slot then (seq_fail S_Ok)\<lparr>sq_replay_bytes := sl_reply slot\<rparr>
                                    else seq_fail S_RetryUncachedRep)\<lparr>sq_replay := True\<rparr>),
                          upd_cnt (\<lambda>n. n\<lparr>c_seq_replay := c_seq_replay n + 1\<rparr>) (renew cfg (se_client s0) st1))
                    else (SeqDone (seq_fail S_SeqMisordered),
                          upd_cnt (\<lambda>n. n\<lparr>c_seq_misordered := c_seq_misordered n + 1\<rparr>) st1))"

definition sequence_abort :: "SessionId \<Rightarrow> u32 \<Rightarrow> StateMgr \<Rightarrow> StateMgr" where
  "sequence_abort i slotid st =
     (case sm_sessions st i of
        None \<Rightarrow> st
      | Some s \<Rightarrow>
          if slotid < se_slot_count s then upd_slot i (unat slotid) (\<lambda>x. x\<lparr>sl_in_flight := False\<rparr>) st else st)"

definition sequence_complete :: "SessionId \<Rightarrow> u32 \<Rightarrow> u32 \<Rightarrow> bool \<Rightarrow> bytes \<Rightarrow> StateMgr \<Rightarrow> StateMgr" where
  "sequence_complete i slotid seqid cache reply st =
     (case sm_sessions st i of
        None \<Rightarrow> st
      | Some s \<Rightarrow>
          if slotid \<ge> se_slot_count s then st
          else upd_slot i (unat slotid)
                 (\<lambda>_. \<lparr>sl_seqid = seqid, sl_in_flight = False, sl_cached = cache,
                       sl_reply = (if cache then reply else [])\<rparr>) st)"

definition reclaim_complete :: "Config \<Rightarrow> u64 \<Rightarrow> StateMgr \<Rightarrow> Status \<times> StateMgr" where
  "reclaim_complete cfg clientid st =
     (case find_client cfg st clientid of
        None \<Rightarrow> (S_StaleClientid, st)
      | Some c \<Rightarrow>
          if sm_by_id st clientid = None then (S_StaleClientid, st)
          else if cl_reclaim_complete (sm_clients st c) then (S_CompleteAlready, st)
          else (S_Ok, note_reclaimed (cl_owner_id (sm_clients st c))
                        (upd_client c (\<lambda>k. k\<lparr>cl_reclaim_complete := True\<rparr>) st)))"

end
