(* ===== verification/StateOpen.thy ===== *)
theory StateOpen
  imports StateClient
begin

text \<open>
  Open state of the state manager (\<^verbatim>\<open>state_mgr.cpp\<close>): OPEN with share-reservation
  arbitration, the stateid check of the IO path, CLOSE, OPEN_DOWNGRADE, FREE_STATEID.
\<close>

section \<open>Recalling a delegation\<close>

definition start_recall :: "Config \<Rightarrow> sref \<Rightarrow> StateMgr \<Rightarrow> StateMgr" where
  "start_recall cfg r st =
     (if sr_recalled (sm_srecs st r) then st
      else let st1 = upd_state r (\<lambda>x. x\<lparr>sr_recalled := True,
                       sr_recall_deadline := now_coarse st + uint (cfg_lease_seconds cfg)\<rparr>) st
           in upd_cnt (\<lambda>n. n\<lparr>c_deleg_recalls := c_deleg_recalls n + 1\<rparr>)
                (st1\<lparr>sm_recall_watch := sm_recall_watch st1 @ [r], sm_tasks := sm_tasks st1 @ [RecallTask r]\<rparr>))"

text \<open>Entries that still count: not closed, and not of a client whose reclaim chain runs.\<close>

definition live :: "StateMgr \<Rightarrow> sref \<Rightarrow> bool" where
  "live st r \<longleftrightarrow> \<not> (sr_closed (sm_srecs st r) \<or> cl_expired (client_of st r))"

section \<open>OPEN\<close>

record OpenArgs =
  oa_clientid :: u64
  oa_fsid :: u32
  oa_oid :: ObjId
  oa_owner :: bytes
  oa_access :: u32
  oa_deny :: u32
  oa_reclaim :: bool
  oa_deleg_claim :: bool

record OpenResult =
  or_status :: Status
  or_stateid :: Stateid
  or_merged :: bool

definition zero_sid :: Stateid where
  "zero_sid = \<lparr>sid_seqid = 0, sid_other = replicate 12 0\<rparr>"

definition open_fail :: "Status \<Rightarrow> OpenResult" where
  "open_fail s = \<lparr>or_status = s, or_stateid = zero_sid, or_merged = False\<rparr>"

definition state_sid :: "StateMgr \<Rightarrow> sref \<Rightarrow> Stateid" where
  "state_sid st r = \<lparr>sid_seqid = sr_seqid (sm_srecs st r), sid_other = sr_other (sm_srecs st r)\<rparr>"

text \<open>The grace gate and the per-client cap: what must hold before any arbitration.\<close>

definition open_gate :: "Config \<Rightarrow> OpenArgs \<Rightarrow> cref \<Rightarrow> StateMgr \<Rightarrow> Status \<times> StateMgr" where
  "open_gate cfg args c st =
     (let k = sm_clients st c;
          (g, st1) = in_grace (oa_fsid args) st;
          verdict =
            (if oa_reclaim args
             then if \<not> g then S_NoGrace
                  else if \<not> in_stable_list st1 (oa_fsid args) (cl_owner_id k) then S_ReclaimBad
                  else if cl_reclaim_complete k then S_NoGrace
                  else S_Ok
             else if g \<or> \<not> cl_reclaim_complete k then S_Grace
             else S_Ok)
      in if verdict \<noteq> S_Ok then (verdict, st1)
         else if cfg_max_states_per_client cfg \<noteq> 0 \<and>
                 int (length (cl_states k)) \<ge> uint (cfg_max_states_per_client cfg)
         then (S_Resource, st1)
         else (S_Ok, st1))"

text \<open>
  The scan over the opens of the file: the opener's own record, and the first conflicting one.
  The third component is the id of a courtesy client to reclaim (0: none).
\<close>

fun scan_opens ::
  "StateMgr \<Rightarrow> cref \<Rightarrow> OpenArgs \<Rightarrow> sref option \<Rightarrow> sref list \<Rightarrow> sref option \<times> bool \<times> u64" where
  "scan_opens st c args mine [] = (mine, False, 0)"
| "scan_opens st c args mine (r # rs) =
     (let other = sm_srecs st r
      in if \<not> live st r then scan_opens st c args mine rs
         else if sr_client other = c \<and> sr_owner other = oa_owner args then scan_opens st c args (Some r) rs
         else if share_conflict (oa_access args) (oa_deny args) other
         then if cl_courtesy (client_of st r) then (mine, False, cl_clientid (client_of st r))
              else (mine, True, 0)
         else scan_opens st c args mine rs)"

datatype arbitration =
    ArbRecall "sref list"
  | ArbDenied
  | ArbCourtesy u64
  | ArbMerged sref
  | ArbNew sref

text \<open>One file-shard critical section of \<^verbatim>\<open>open\<close>: arbitrate and publish.\<close>

definition open_merge :: "OpenArgs \<Rightarrow> sref \<Rightarrow> StateMgr \<Rightarrow> StateMgr" where
  "open_merge args r st =
     upd_cnt (\<lambda>n. n\<lparr>c_open_merges := c_open_merges n + 1\<rparr>)
       (upd_state r (\<lambda>x. x\<lparr>sr_access := sr_access x OR oa_access args, sr_deny := sr_deny x OR oa_deny args,
                          sr_seqid := sr_seqid x + 1\<rparr>) st)"

definition open_publish ::
  "Config \<Rightarrow> OpenArgs \<Rightarrow> cref \<Rightarrow> nat option \<Rightarrow> FileStateRec \<Rightarrow> StateMgr \<Rightarrow> sref \<times> StateMgr" where
  "open_publish cfg args c bopen file st =
     (let (other, st1) = new_other cfg kOpen st;
          r = sm_next_sref st1;
          rec = new_state\<lparr>sr_other := other, sr_client := c, sr_fsid := oa_fsid args, sr_oid := oa_oid args,
                  sr_owner := oa_owner args, sr_access := oa_access args, sr_deny := oa_deny args,
                  sr_bopen := bopen\<rparr>;
          st2 = st1\<lparr>sm_next_sref := r + 1, sm_srecs := (sm_srecs st1)(r := rec),
                    sm_files := (sm_files st1)(FileKey (oa_fsid args) (oa_oid args) \<mapsto>
                                  file\<lparr>fl_opens := fl_opens file @ [r]\<rparr>)\<rparr>
      in (r, if fl_opens file = [] then upd_cnt (\<lambda>n. n\<lparr>n_files := n_files n + 1\<rparr>) st2 else st2))"

definition open_arbitrate ::
  "Config \<Rightarrow> OpenArgs \<Rightarrow> cref \<Rightarrow> nat option \<Rightarrow> StateMgr \<Rightarrow> arbitration \<times> StateMgr" where
  "open_arbitrate cfg args c bopen st =
     (let key = FileKey (oa_fsid args) (oa_oid args);
          file = (case sm_files st key of None \<Rightarrow> empty_file | Some f \<Rightarrow> f);
          st0 = st\<lparr>sm_files := (sm_files st)(key \<mapsto> file)\<rparr>;
          (mine, denied, courtesy) = scan_opens st0 c args None (fl_opens file);
          recalls = (if courtesy = 0 \<and> \<not> denied \<and> oa_access args AND kShareWrite \<noteq> 0 \<and> \<not> oa_deleg_claim args
                     then filter (live st0) (fl_delegs file) else [])
      in if recalls \<noteq> [] then (ArbRecall recalls, st0)
         else if courtesy = 0
         then if denied
              then (ArbDenied,
                    upd_cnt (\<lambda>n. n\<lparr>c_share_denied := c_share_denied n + 1\<rparr>)
                      (if file_unused file then st0\<lparr>sm_files := (sm_files st0)(key := None)\<rparr> else st0))
              else (case mine of
                      Some r \<Rightarrow> (ArbMerged r, open_merge args r st0)
                    | None \<Rightarrow> let (r, st1) = open_publish cfg args c bopen file st0 in (ArbNew r, st1))
         else (ArbCourtesy courtesy,
               if fl_opens file = [] then st0\<lparr>sm_files := (sm_files st0)(key := None)\<rparr> else st0))"

text \<open>
  The retry loop: a courtesy conflict reclaims its client and arbitrates again.  The argument is
  the number of retries left; the code starts at attempt 0 and gives up at attempt 8.
\<close>

fun open_loop ::
  "nat \<Rightarrow> Config \<Rightarrow> OpenArgs \<Rightarrow> cref \<Rightarrow> nat option \<Rightarrow> StateMgr \<Rightarrow> arbitration \<times> StateMgr" where
  "open_loop 0 cfg args c bopen st = open_arbitrate cfg args c bopen st"
| "open_loop (Suc n) cfg args c bopen st =
     (case open_arbitrate cfg args c bopen st of
        (ArbCourtesy i, st1) \<Rightarrow> open_loop n cfg args c bopen (snd (expire_client_impl cfg i kReasonConflict st1))
      | other \<Rightarrow> other)"

text \<open>
  Registration of a record already in the file index: the stateid table, then the client.  If the
  reclaim chain of the client ran meanwhile the record is retracted.
\<close>

definition insert_state :: "sref \<Rightarrow> StateMgr \<Rightarrow> StateMgr" where
  "insert_state r st = st\<lparr>sm_states := AList.update (sr_other (sm_srecs st r)) r (sm_states st)\<rparr>"

definition register_state :: "Config \<Rightarrow> cref \<Rightarrow> sref \<Rightarrow> StateMgr \<Rightarrow> bool \<times> StateMgr" where
  "register_state cfg c r st =
     (if cl_expired (sm_clients st c) then (False, st)
      else let rec = sm_srecs st r;
               (first_in_fs, st1) = track_state_locked c rec st
           in (True, if first_in_fs \<and> cfg_per_fsid_reclaim cfg
                     then persist_fs_client (sr_fsid rec) (cl_owner_id (sm_clients st1 c)) st1 else st1))"

definition open_register :: "Config \<Rightarrow> cref \<Rightarrow> sref \<Rightarrow> StateMgr \<Rightarrow> OpenResult \<times> StateMgr" where
  "open_register cfg c r st =
     (let st1 = upd_cnt (\<lambda>n. n\<lparr>n_opens := n_opens n + 1\<rparr>)
                  (insert_state r st)
      in case register_state cfg c r st1 of
           (True, st2) \<Rightarrow> (\<lparr>or_status = S_Ok, or_stateid = state_sid st2 r, or_merged = False\<rparr>, st2)
         | (False, st2) \<Rightarrow>
             let (released, st3) = unlink_state cfg r False False st2
             in (open_fail S_Expired, drop_handle released st3))"

definition open_op :: "Config \<Rightarrow> OpenArgs \<Rightarrow> nat option \<Rightarrow> StateMgr \<Rightarrow> OpenResult \<times> StateMgr" where
  "open_op cfg args bopen st =
     (case find_client cfg st (oa_clientid args) of
        None \<Rightarrow> (open_fail S_StaleClientid, drop_handle bopen st)
      | Some c \<Rightarrow>
          if \<not> cl_confirmed (sm_clients st c) then (open_fail S_StaleClientid, drop_handle bopen st)
          else if cl_expired (sm_clients st c) then (open_fail S_Expired, drop_handle bopen st)
          else
            let (gate, st1) = open_gate cfg args c st
            in if gate \<noteq> S_Ok then (open_fail gate, drop_handle bopen st1)
               else
                 case open_loop 8 cfg args c bopen st1 of
                   (ArbRecall ds, st2) \<Rightarrow> (open_fail S_Delay, drop_handle bopen (fold (start_recall cfg) ds st2))
                 | (ArbDenied, st2) \<Rightarrow> (open_fail S_ShareDenied, drop_handle bopen st2)
                 | (ArbCourtesy i, st2) \<Rightarrow> (open_fail S_Delay, drop_handle bopen st2)
                 | (ArbMerged r, st2) \<Rightarrow>
                     (\<lparr>or_status = S_Ok, or_stateid = state_sid st2 r, or_merged = True\<rparr>, drop_handle bopen st2)
                 | (ArbNew r, st2) \<Rightarrow> open_register cfg c r st2)"

text \<open>\<^verbatim>\<open>"\x01legacy-read"\<close>\<close>

definition open_read :: "Config \<Rightarrow> u64 \<Rightarrow> u32 \<Rightarrow> ObjId \<Rightarrow> StateMgr \<Rightarrow> Stateid \<times> StateMgr" where
  "open_read cfg clientid fsid oid st =
     (let (out, st1) = open_op cfg \<lparr>oa_clientid = clientid, oa_fsid = fsid, oa_oid = oid,
            oa_owner = [1, 108, 101, 103, 97, 99, 121, 45, 114, 101, 97, 100], oa_access = kShareRead,
            oa_deny = 0, oa_reclaim = False, oa_deleg_claim = False\<rparr> None st
      in (or_stateid out, st1))"

section \<open>The IO path\<close>

record IoCheck =
  io_status :: Status
  io_special :: bool
  io_rec :: "sref option"
  io_bopen :: "nat option"

definition io_fail :: "Status \<Rightarrow> bool \<Rightarrow> IoCheck" where
  "io_fail s special = \<lparr>io_status = s, io_special = special, io_rec = None, io_bopen = None\<rparr>"

definition foreign_epoch :: "Config \<Rightarrow> Stateid \<Rightarrow> bool" where
  "foreign_epoch cfg sid \<longleftrightarrow> epoch_of (sid_other sid) \<noteq> ucast (cfg_boot_epoch cfg)"

definition check_io_special ::
  "Config \<Rightarrow> Stateid \<Rightarrow> u32 \<Rightarrow> ObjId \<Rightarrow> u32 \<Rightarrow> StateMgr \<Rightarrow> IoCheck \<times> StateMgr" where
  "check_io_special cfg sid fsid oid need st =
     (let (g, st1) = (if need = kShareWrite then in_grace fsid st else (False, st))
      in if g then (io_fail S_Grace True, st1)
         else if is_all_one sid then (io_fail S_Ok True, st1)
         else case sm_files st1 (FileKey fsid oid) of
                None \<Rightarrow> (io_fail S_Ok True, st1)
              | Some file \<Rightarrow>
                  if list_ex (\<lambda>r. live st1 r \<and> sr_deny (sm_srecs st1 r) AND need \<noteq> 0) (fl_opens file)
                  then (io_fail S_Locked True, st1)
                  else let recalls = (if need = kShareWrite then filter (live st1) (fl_delegs file) else [])
                       in if recalls \<noteq> [] then (io_fail S_Delay True, fold (start_recall cfg) recalls st1)
                          else (io_fail S_Ok True, st1))"

text \<open>\<^verbatim>\<open>rec.type == kLock && rec.parent_open ? *rec.parent_open : rec\<close>\<close>

definition anchor_open :: "StateMgr \<Rightarrow> sref \<Rightarrow> sref" where
  "anchor_open st r =
     (if sr_type (sm_srecs st r) = kLock
      then (case sr_parent_open (sm_srecs st r) of Some p \<Rightarrow> p | None \<Rightarrow> r) else r)"

definition check_io ::
  "Config \<Rightarrow> Stateid \<Rightarrow> u64 \<Rightarrow> u32 \<Rightarrow> ObjId \<Rightarrow> u32 \<Rightarrow> StateMgr \<Rightarrow> IoCheck \<times> StateMgr" where
  "check_io cfg sid clientid fsid oid need st =
     (if is_special sid then check_io_special cfg sid fsid oid need st
      else if foreign_epoch cfg sid then (io_fail S_StaleStateid False, st)
      else case map_of (sm_states st) (sid_other sid) of
             None \<Rightarrow> (io_fail S_BadStateid False, st)
           | Some r \<Rightarrow>
               let rec = sm_srecs st r; op = sm_srecs st (anchor_open st r);
                   status =
                     (if cl_expired (client_of st r) then S_Expired
                      else if cl_clientid (client_of st r) \<noteq> clientid \<or> sr_fsid rec \<noteq> fsid \<or> sr_oid rec \<noteq> oid
                      then S_BadStateid
                      else if sid_seqid sid \<noteq> 0 \<and> sid_seqid sid < sr_seqid rec then S_OldStateid
                      else if sid_seqid sid \<noteq> 0 \<and> sid_seqid sid > sr_seqid rec then S_BadStateid
                      else if sr_access op AND need = 0 then S_Openmode
                      else S_Ok)
               in (\<lparr>io_status = status, io_special = False, io_rec = Some r,
                    io_bopen = (if sr_type rec = kLock \<and> status = S_Ok then sr_bopen op else sr_bopen rec)\<rparr>, st))"

record OpenRec =
  opr_clientid :: u64
  opr_fsid :: u32
  opr_oid :: ObjId
  opr_seqid :: u32
  opr_access :: u32
  opr_deny :: u32

text \<open>\<^verbatim>\<open>lookup_stateid\<close>: the status, whether the stateid is special, the record found.\<close>

definition lookup_stateid :: "Config \<Rightarrow> Stateid \<Rightarrow> StateMgr \<Rightarrow> Status \<times> bool \<times> OpenRec option" where
  "lookup_stateid cfg sid st =
     (if is_special sid then (S_Ok, True, None)
      else if foreign_epoch cfg sid then (S_StaleStateid, False, None)
      else case map_of (sm_states st) (sid_other sid) of
             None \<Rightarrow> (S_BadStateid, False, None)
           | Some r \<Rightarrow>
               let rec = sm_srecs st r
               in (S_Ok, False, Some \<lparr>opr_clientid = cl_clientid (client_of st r), opr_fsid = sr_fsid rec,
                     opr_oid = sr_oid rec, opr_seqid = sr_seqid rec, opr_access = sr_access rec,
                     opr_deny = sr_deny rec\<rparr>))"

section \<open>CLOSE, OPEN_DOWNGRADE, FREE_STATEID\<close>

text \<open>Stateid to record: the part all operations on an existing stateid share.\<close>

definition find_state :: "Config \<Rightarrow> Stateid \<Rightarrow> StateMgr \<Rightarrow> Status + sref" where
  "find_state cfg sid st =
     (if is_special sid then Inl S_BadStateid
      else if foreign_epoch cfg sid then Inl S_StaleStateid
      else case map_of (sm_states st) (sid_other sid) of None \<Rightarrow> Inl S_BadStateid | Some r \<Rightarrow> Inr r)"

definition other_file :: "StateRec \<Rightarrow> (u32 \<times> ObjId) option \<Rightarrow> bool" where
  "other_file rec expect \<longleftrightarrow>
     (case expect of None \<Rightarrow> False | Some (fsid, oid) \<Rightarrow> sr_fsid rec \<noteq> fsid \<or> sr_oid rec \<noteq> oid)"

definition close_state ::
  "Config \<Rightarrow> Stateid \<Rightarrow> u64 \<Rightarrow> (u32 \<times> ObjId) option \<Rightarrow> StateMgr \<Rightarrow> (Status \<times> Stateid) \<times> StateMgr" where
  "close_state cfg sid clientid expect st =
     (case find_state cfg sid st of
        Inl s \<Rightarrow> ((s, zero_sid), st)
      | Inr r \<Rightarrow>
          let rec = sm_srecs st r
          in if clientid \<noteq> 0 \<and> cl_clientid (client_of st r) \<noteq> clientid then ((S_BadStateid, zero_sid), st)
             else if other_file rec expect then ((S_BadStateid, zero_sid), st)
             else if clientid \<noteq> 0 \<and> sid_seqid sid \<noteq> 0 \<and> sid_seqid sid < sr_seqid rec then ((S_OldStateid, zero_sid), st)
             else if clientid \<noteq> 0 \<and> sid_seqid sid \<noteq> 0 \<and> sid_seqid sid > sr_seqid rec then ((S_BadStateid, zero_sid), st)
             else let (released, st1) = unlink_state cfg r True False st
                  in ((S_Ok, \<lparr>sid_seqid = sr_seqid (sm_srecs st1 r) + 1, sid_other = sid_other sid\<rparr>),
                      drop_handle released st1))"

text \<open>\<^verbatim>\<open>close_state(sid)\<close>: any owner, any seqid.\<close>

definition close_state_any :: "Config \<Rightarrow> Stateid \<Rightarrow> StateMgr \<Rightarrow> Status \<times> StateMgr" where
  "close_state_any cfg sid st = (let (out, st1) = close_state cfg sid 0 None st in (fst out, st1))"

text \<open>
  OPEN_DOWNGRADE in its two critical sections: the checks, made without the file shard, and the
  assignment under it.
\<close>

definition downgrade_check ::
  "Config \<Rightarrow> Stateid \<Rightarrow> u64 \<Rightarrow> u32 \<Rightarrow> u32 \<Rightarrow> (u32 \<times> ObjId) option \<Rightarrow> StateMgr \<Rightarrow> Status + sref" where
  "downgrade_check cfg sid clientid access deny expect st =
     (case find_state cfg sid st of
        Inl s \<Rightarrow> Inl s
      | Inr r \<Rightarrow>
          let rec = sm_srecs st r
          in if cl_clientid (client_of st r) \<noteq> clientid \<or> sr_type rec \<noteq> kOpen then Inl S_BadStateid
             else if other_file rec expect then Inl S_BadStateid
             else if sid_seqid sid \<noteq> 0 \<and> sid_seqid sid < sr_seqid rec then Inl S_OldStateid
             else if sid_seqid sid \<noteq> 0 \<and> sid_seqid sid > sr_seqid rec then Inl S_BadStateid
             else if access = 0 \<or> access AND NOT (sr_access rec) \<noteq> 0 \<or> deny AND NOT (sr_deny rec) \<noteq> 0
             then Inl S_Inval
             else Inr r)"

definition downgrade_apply :: "sref \<Rightarrow> u32 \<Rightarrow> u32 \<Rightarrow> StateMgr \<Rightarrow> StateMgr" where
  "downgrade_apply r access deny st =
     upd_state r (\<lambda>x. x\<lparr>sr_access := access, sr_deny := deny, sr_seqid := sr_seqid x + 1\<rparr>) st"

definition open_downgrade ::
  "Config \<Rightarrow> Stateid \<Rightarrow> u64 \<Rightarrow> u32 \<Rightarrow> u32 \<Rightarrow> (u32 \<times> ObjId) option \<Rightarrow> StateMgr \<Rightarrow> (Status \<times> Stateid) \<times> StateMgr" where
  "open_downgrade cfg sid clientid access deny expect st =
     (case downgrade_check cfg sid clientid access deny expect st of
        Inl s \<Rightarrow> ((s, zero_sid), st)
      | Inr r \<Rightarrow>
          let st1 = downgrade_apply r access deny st
          in ((S_Ok, \<lparr>sid_seqid = sr_seqid (sm_srecs st1 r), sid_other = sid_other sid\<rparr>), st1))"

definition free_stateid :: "Config \<Rightarrow> Stateid \<Rightarrow> u64 \<Rightarrow> StateMgr \<Rightarrow> Status \<times> StateMgr" where
  "free_stateid cfg sid clientid st =
     (case find_state cfg sid st of
        Inl s \<Rightarrow> (s, st)
      | Inr r \<Rightarrow>
          let rec = sm_srecs st r
          in if cl_clientid (client_of st r) \<noteq> clientid then (S_BadStateid, st)
             else if sr_type rec \<noteq> kLock then (S_LocksHeld, st)
             else if count_owner (sm_locks st) (state_key rec) (sr_lowner rec) > 0 then (S_LocksHeld, st)
             else let (released, st1) = unlink_state cfg r True False st in (S_Ok, drop_handle released st1))"

end
