(* ===== verification/StateDeleg.thy ===== *)
theory StateDeleg
  imports StateOpen
begin

text \<open>
  Read delegations and the backchannel of the state manager (\<^verbatim>\<open>state_mgr.cpp\<close>): the
  grant, DELEGRETURN, the recall gate of mutations, callbacks on the single backchannel slot, the
  sweep that revokes overdue delegations.
\<close>

section \<open>Granting and returning\<close>

text \<open>The grant's file-shard section: the checks and the publication in one step.\<close>

definition deleg_blocked :: "StateMgr \<Rightarrow> cref \<Rightarrow> FileStateRec \<Rightarrow> bool" where
  "deleg_blocked st c file \<longleftrightarrow>
     list_ex (\<lambda>o'. live st o' \<and> sr_client (sm_srecs st o') \<noteq> c \<and>
                   sr_access (sm_srecs st o') AND kShareWrite \<noteq> 0) (fl_opens file) \<or>
     list_ex (\<lambda>d. \<not> sr_closed (sm_srecs st d) \<and>
                  (sr_client (sm_srecs st d) = c \<or> sr_recalled (sm_srecs st d))) (fl_delegs file)"

text \<open>\<^verbatim>\<open>"\x01" "deleg"\<close>\<close>

definition new_deleg ::
  "Config \<Rightarrow> cref \<Rightarrow> u32 \<Rightarrow> ObjId \<Rightarrow> bytes \<Rightarrow> StateMgr \<Rightarrow> sref \<times> StateMgr" where
  "new_deleg cfg c fsid oid fh st =
     (let (other, st1) = new_other cfg kDeleg st;
          r = sm_next_sref st1;
          rec = new_state\<lparr>sr_other := other, sr_type := kDeleg, sr_client := c, sr_fsid := fsid, sr_oid := oid,
                  sr_owner := [1, 100, 101, 108, 101, 103], sr_access := kShareRead, sr_fh := fh\<rparr>
      in (r, st1\<lparr>sm_next_sref := r + 1, sm_srecs := (sm_srecs st1)(r := rec)\<rparr>))"

definition publish_deleg ::
  "Config \<Rightarrow> cref \<Rightarrow> u32 \<Rightarrow> ObjId \<Rightarrow> bytes \<Rightarrow> StateMgr \<Rightarrow> sref option \<times> StateMgr" where
  "publish_deleg cfg c fsid oid fh st =
     (let (r, st1) = new_deleg cfg c fsid oid fh st;
          key = FileKey fsid oid;
          file = (case sm_files st1 key of None \<Rightarrow> empty_file | Some f \<Rightarrow> f)
      in if deleg_blocked st1 c file
         then (None, st1\<lparr>sm_files := (sm_files st1)(key \<mapsto> file)\<rparr>)
         else (Some r, st1\<lparr>sm_files := (sm_files st1)(key \<mapsto> file\<lparr>fl_delegs := fl_delegs file @ [r]\<rparr>)\<rparr>))"

text \<open>Registration of a published delegation, retracted if the reclaim chain ran mid-grant.\<close>

definition grant_deleg ::
  "Config \<Rightarrow> cref \<Rightarrow> sref \<Rightarrow> StateMgr \<Rightarrow> Stateid option \<times> StateMgr" where
  "grant_deleg cfg c r st =
     (let st1 = insert_state r st;
          (alive, st2) = register_state cfg c r st1;
          st3 = upd_cnt (\<lambda>n. n\<lparr>n_delegs := n_delegs n + 1\<rparr>)
                  (upd_client c (\<lambda>k. k\<lparr>cl_delegs := cl_delegs k + 1\<rparr>) st2)
      in if \<not> alive then (None, snd (unlink_state cfg r False False st3))
         else (Some (state_sid st3 r), upd_cnt (\<lambda>n. n\<lparr>c_deleg_grants := c_deleg_grants n + 1\<rparr>) st3))"

definition maybe_grant_read_deleg ::
  "Config \<Rightarrow> SessionId \<Rightarrow> u64 \<Rightarrow> u32 \<Rightarrow> ObjId \<Rightarrow> bytes \<Rightarrow> u32 \<Rightarrow> bool \<Rightarrow> StateMgr \<Rightarrow> Stateid option \<times> StateMgr" where
  "maybe_grant_read_deleg cfg i clientid fsid oid fh access reclaim st =
     (if \<not> cfg_delegations cfg \<or> reclaim \<or> access \<noteq> kShareRead then (None, st)
      else let (g, st1) = in_grace fsid st
      in if g then (None, st1)
      else case sm_sessions st1 i of
        None \<Rightarrow> (None, st1)
      | Some session \<Rightarrow>
          if \<not> cb_alive st1 session then (None, st1)
          else case find_client cfg st1 clientid of
            None \<Rightarrow> (None, st1)
          | Some c \<Rightarrow>
              if cl_expired (sm_clients st1 c) then (None, st1)
              else if cfg_max_states_per_client cfg \<noteq> 0 \<and>
                      int (length (cl_states (sm_clients st1 c))) \<ge> uint (cfg_max_states_per_client cfg)
              then (None, st1)
              else
                (case publish_deleg cfg c fsid oid fh st1 of
                   (None, st2) \<Rightarrow> (None, st2)
                 | (Some r, st2) \<Rightarrow> grant_deleg cfg c r st2))"

text \<open>The stateid must be this client's delegation on this file.\<close>

definition find_deleg ::
  "Config \<Rightarrow> Stateid \<Rightarrow> u64 \<Rightarrow> u32 \<Rightarrow> ObjId \<Rightarrow> StateMgr \<Rightarrow> Status + sref" where
  "find_deleg cfg sid clientid fsid oid st =
     (if foreign_epoch cfg sid then Inl S_StaleStateid
      else case map_of (sm_states st) (sid_other sid) of
             None \<Rightarrow> Inl S_BadStateid
           | Some r \<Rightarrow>
               let rec = sm_srecs st r
               in if sr_type rec \<noteq> kDeleg \<or> cl_clientid (client_of st r) \<noteq> clientid \<or> sr_fsid rec \<noteq> fsid \<or> sr_oid rec \<noteq> oid
                  then Inl S_BadStateid else Inr r)"

definition delegreturn ::
  "Config \<Rightarrow> Stateid \<Rightarrow> u64 \<Rightarrow> u32 \<Rightarrow> ObjId \<Rightarrow> StateMgr \<Rightarrow> Status \<times> StateMgr" where
  "delegreturn cfg sid clientid fsid oid st =
     (case find_deleg cfg sid clientid fsid oid st of
        Inl s \<Rightarrow> (s, st)
      | Inr r \<Rightarrow> (S_Ok, upd_cnt (\<lambda>n. n\<lparr>c_deleg_returns := c_deleg_returns n + 1\<rparr>)
                          (snd (unlink_state cfg r True False st))))"

definition check_deleg_claim ::
  "Config \<Rightarrow> Stateid \<Rightarrow> u64 \<Rightarrow> u32 \<Rightarrow> ObjId \<Rightarrow> StateMgr \<Rightarrow> Status" where
  "check_deleg_claim cfg sid clientid fsid oid st =
     (case find_deleg cfg sid clientid fsid oid st of Inl s \<Rightarrow> s | Inr _ \<Rightarrow> S_Ok)"

definition any_delegations :: "StateMgr \<Rightarrow> bool" where
  "any_delegations st \<longleftrightarrow> n_delegs (sm_cnt st) > 0"

definition deleg_conflict :: "Config \<Rightarrow> u32 \<Rightarrow> ObjId \<Rightarrow> StateMgr \<Rightarrow> Status \<times> StateMgr" where
  "deleg_conflict cfg fsid oid st =
     (if n_delegs (sm_cnt st) = 0 then (S_Ok, st)
      else let recalls = (case sm_files st (FileKey fsid oid) of
                            None \<Rightarrow> [] | Some file \<Rightarrow> filter (live st) (fl_delegs file))
           in if recalls = [] then (S_Ok, st) else (S_Delay, fold (start_recall cfg) recalls st))"

section \<open>Callbacks\<close>

record Target =
  tg_program :: u32
  tg_cred :: Cred
  tg_sessionid :: SessionId
  tg_slot_seq :: u32

text \<open>The client's first session with a live backchannel.\<close>

definition cb_pick :: "StateMgr \<Rightarrow> cref \<Rightarrow> SessionId option" where
  "cb_pick st c =
     find (\<lambda>i. case sm_sessions st i of None \<Rightarrow> False | Some s \<Rightarrow> cb_alive st s) (cl_sessions (sm_clients st c))"

text \<open>Claiming the single callback slot; a slot stuck longer than a lease takes the path down.\<close>

definition send_cb_begin :: "Config \<Rightarrow> cref \<Rightarrow> StateMgr \<Rightarrow> Target option \<times> StateMgr" where
  "send_cb_begin cfg c st =
     (case cb_pick st c of
        None \<Rightarrow> (None, st)
      | Some i \<Rightarrow>
          let s = the (sm_sessions st i); now = now_coarse st
          in if se_cb_inflight s
             then (None, if now - se_cb_inflight_since s > uint (cfg_lease_seconds cfg)
                         then upd_session i (\<lambda>x. x\<lparr>se_cb_down := True\<rparr>) st else st)
             else (Some \<lparr>tg_program = se_cb_program s, tg_cred = se_cb_cred s, tg_sessionid = i,
                         tg_slot_seq = se_cb_seq s + 1\<rparr>,
                   upd_session i (\<lambda>x. x\<lparr>se_cb_inflight := True, se_cb_inflight_since := now,
                                        se_cb_seq := se_cb_seq x + 1\<rparr>) st))"

text \<open>
  The answer: \<open>None\<close> when the channel failed, otherwise whether the reply record was an accepted,
  successful RPC.
\<close>

definition send_cb_end :: "SessionId \<Rightarrow> bool option \<Rightarrow> StateMgr \<Rightarrow> bool \<times> StateMgr" where
  "send_cb_end i reply st =
     (reply = Some True,
      upd_session i (\<lambda>x. x\<lparr>se_cb_inflight := False,
                           se_cb_down := (if reply = Some True then se_cb_down x else True)\<rparr>) st)"

definition send_cb :: "Config \<Rightarrow> cref \<Rightarrow> bool option \<Rightarrow> StateMgr \<Rightarrow> bool \<times> StateMgr" where
  "send_cb cfg c reply st =
     (case send_cb_begin cfg c st of
        (None, st1) \<Rightarrow> (False, st1)
      | (Some target, st1) \<Rightarrow> send_cb_end (tg_sessionid target) reply st1)"

definition recall_task :: "Config \<Rightarrow> sref \<Rightarrow> bool option \<Rightarrow> StateMgr \<Rightarrow> StateMgr" where
  "recall_task cfg r reply st = snd (send_cb cfg (sr_client (sm_srecs st r)) reply st)"

definition notify_task :: "Config \<Rightarrow> u64 \<Rightarrow> bool option \<Rightarrow> StateMgr \<Rightarrow> StateMgr" where
  "notify_task cfg clientid reply st =
     (case find_client cfg st clientid of
        None \<Rightarrow> st
      | Some c \<Rightarrow>
          if cl_expired (sm_clients st c) then st
          else let (ok, st1) = send_cb cfg c reply st
               in if ok then upd_cnt (\<lambda>n. n\<lparr>c_cb_lock_notifies := c_cb_lock_notifies n + 1\<rparr>) st1 else st1)"

section \<open>Revoking overdue delegations\<close>

text \<open>
  The sweep over \<^verbatim>\<open>recall_watch_\<close>: closed entries leave, overdue ones leave and are
  collected; removal moves the last entry into the hole.
\<close>

function sweep_watch :: "(sref \<Rightarrow> bool) \<Rightarrow> (sref \<Rightarrow> bool) \<Rightarrow> sref list \<Rightarrow> sref list \<times> sref list" where
  "sweep_watch closed overdue [] = ([], [])"
| "sweep_watch closed overdue (r # rs) =
     (let rest = (if rs = [] then [] else last rs # butlast rs)
      in if closed r then sweep_watch closed overdue rest
         else if overdue r then (case sweep_watch closed overdue rest of (due, kept) \<Rightarrow> (r # due, kept))
         else (case sweep_watch closed overdue rs of (due, kept) \<Rightarrow> (due, r # kept)))"
  by pat_completeness auto
termination
  by (relation "measure (\<lambda>(_, _, rs). length rs)") auto

definition revoke_deleg :: "Config \<Rightarrow> sref \<Rightarrow> StateMgr \<Rightarrow> StateMgr" where
  "revoke_deleg cfg r st =
     upd_cnt (\<lambda>n. n\<lparr>c_deleg_revokes := c_deleg_revokes n + 1\<rparr>) (snd (unlink_state cfg r True False st))"

definition sweep_recalls :: "Config \<Rightarrow> StateMgr \<Rightarrow> StateMgr" where
  "sweep_recalls cfg st =
     (let (due, kept) = sweep_watch (\<lambda>r. sr_closed (sm_srecs st r))
            (\<lambda>r. sr_recall_deadline (sm_srecs st r) \<le> now_coarse st) (sm_recall_watch st)
      in fold (revoke_deleg cfg) due (st\<lparr>sm_recall_watch := kept\<rparr>))"

end
