(* ===== verification/StateLock.thy ===== *)
theory StateLock
  imports StateDeleg
begin

text \<open>
  Byte-range locks of the state manager (\<^verbatim>\<open>state_mgr.cpp\<close>): LOCK, LOCKT and LOCKU over
  the gateway lock table, with the push to the native lock manager of the export.
\<close>

section \<open>Lock owners\<close>

definition make_lowner :: "u64 \<Rightarrow> bytes \<Rightarrow> LockOwnerId" where
  "make_lowner clientid owner =
     \<lparr>lo_bytes = le_bytes 8 clientid @ le_bytes 8 (fnv64 owner) @
                 le_bytes 4 (of_nat (length owner) :: u32) @ replicate 4 0,
      lo_len = 20\<rparr>"

definition lowner_key :: "LockOwnerId \<Rightarrow> bytes" where
  "lowner_key i = take (lo_len i) (lo_bytes i)"

definition remember_lock_owner :: "LockOwnerId \<Rightarrow> cref \<Rightarrow> bytes \<Rightarrow> StateMgr \<Rightarrow> StateMgr" where
  "remember_lock_owner i c owner st =
     st\<lparr>sm_lock_owners := AList.update (lowner_key i) \<lparr>lor_client = c, lor_owner = owner\<rparr> (sm_lock_owners st)\<rparr>"

definition find_lock_owner :: "StateMgr \<Rightarrow> LockOwnerId \<Rightarrow> LockOwnerRec option" where
  "find_lock_owner st i = map_of (sm_lock_owners st) (lowner_key i)"

section \<open>LOCK\<close>

record LockDenied =
  ld_offset :: u64
  ld_length :: u64
  ld_exclusive :: bool
  ld_clientid :: u64
  ld_owner :: bytes

record LockArgs =
  la_clientid :: u64
  la_fsid :: u32
  la_oid :: ObjId
  la_exclusive :: bool
  la_reclaim :: bool
  la_offset :: u64
  la_length :: u64
  la_new_owner :: bool
  la_open_stateid :: Stateid
  la_owner :: bytes
  la_lock_stateid :: Stateid

record LockResult =
  lr_status :: Status
  lr_stateid :: Stateid
  lr_denied :: LockDenied

definition no_denied :: LockDenied where
  "no_denied = \<lparr>ld_offset = 0, ld_length = 0, ld_exclusive = False, ld_clientid = 0, ld_owner = []\<rparr>"

definition lock_fail :: "Status \<Rightarrow> LockResult" where
  "lock_fail s = \<lparr>lr_status = s, lr_stateid = zero_sid, lr_denied = no_denied\<rparr>"

text \<open>The answer to a conflict: the conflicting range and its holder, when known.\<close>

definition denied_by :: "StateMgr \<Rightarrow> LockConflict \<Rightarrow> LockOwnerRec option \<Rightarrow> LockResult" where
  "denied_by st conflict holder =
     (lock_fail S_Denied)\<lparr>lr_denied :=
        \<lparr>ld_offset = rng_offset (con_range conflict), ld_length = rng_length (con_range conflict),
         ld_exclusive = con_exclusive conflict,
         ld_clientid = (case holder of None \<Rightarrow> 0 | Some h \<Rightarrow> cl_clientid (sm_clients st (lor_client h))),
         ld_owner = (case holder of None \<Rightarrow> [] | Some h \<Rightarrow> lor_owner h)\<rparr>\<rparr>"

definition lock_gate :: "LockArgs \<Rightarrow> cref \<Rightarrow> StateMgr \<Rightarrow> Status \<times> StateMgr" where
  "lock_gate args c st =
     (let k = sm_clients st c; (g, st1) = in_grace (la_fsid args) st
      in (if la_reclaim args
          then if \<not> g \<or> cl_reclaim_complete k then S_NoGrace
               else if \<not> in_stable_list st1 (la_fsid args) (cl_owner_id k) then S_ReclaimBad
               else S_Ok
          else if g \<or> \<not> cl_reclaim_complete k then S_Grace
          else S_Ok,
          st1))"

text \<open>
  A stateid of the request resolved to a record of the given type, owned by the client, on the
  file, with the seqid discipline.
\<close>

definition resolve_sid ::
  "Config \<Rightarrow> Stateid \<Rightarrow> StateType \<Rightarrow> cref \<Rightarrow> u32 \<Rightarrow> ObjId \<Rightarrow> StateMgr \<Rightarrow> Status + sref" where
  "resolve_sid cfg sid ty c fsid oid st =
     (case find_state cfg sid st of
        Inl s \<Rightarrow> Inl s
      | Inr r \<Rightarrow>
          let rec = sm_srecs st r
          in if sr_type rec \<noteq> ty \<or> sr_client rec \<noteq> c \<or> sr_fsid rec \<noteq> fsid \<or> sr_oid rec \<noteq> oid then Inl S_BadStateid
             else if sid_seqid sid \<noteq> 0 \<and> sid_seqid sid < sr_seqid rec then Inl S_OldStateid
             else if sid_seqid sid \<noteq> 0 \<and> sid_seqid sid > sr_seqid rec then Inl S_BadStateid
             else Inr r)"

text \<open>The anchoring open, the existing lock state if one was named, and the lock-owner bytes.\<close>

definition lock_resolve ::
  "Config \<Rightarrow> LockArgs \<Rightarrow> cref \<Rightarrow> StateMgr \<Rightarrow> Status + sref option \<times> sref option \<times> bytes" where
  "lock_resolve cfg args c st =
     (if la_new_owner args
      then case resolve_sid cfg (la_open_stateid args) kOpen c (la_fsid args) (la_oid args) st of
             Inl s \<Rightarrow> Inl s
           | Inr r \<Rightarrow> Inr (Some r, None, la_owner args)
      else case resolve_sid cfg (la_lock_stateid args) kLock c (la_fsid args) (la_oid args) st of
             Inl s \<Rightarrow> Inl s
           | Inr r \<Rightarrow> Inr (sr_parent_open (sm_srecs st r), Some r, sr_owner (sm_srecs st r)))"

text \<open>
  Arbitration in the lock table.  A conflict held by a courtesy client reclaims it, one held by a
  client being reclaimed waits a millisecond; at most eight retries.
\<close>

fun lock_loop ::
  "nat \<Rightarrow> Config \<Rightarrow> FileKey \<Rightarrow> LockOwnerId \<Rightarrow> LockRange \<Rightarrow> bool \<Rightarrow> StateMgr \<Rightarrow> LockResult option \<times> StateMgr" where
  "lock_loop n cfg key lowner rng x st =
     (case lock (sm_locks st) key lowner rng x of
        (None, t) \<Rightarrow> (None, st\<lparr>sm_locks := t\<rparr>)
      | (Some conflict, t) \<Rightarrow>
          let st1 = st\<lparr>sm_locks := t\<rparr>;
              holder = find_lock_owner st1 (con_owner conflict);
              denied = (Some (denied_by st1 conflict holder),
                        upd_cnt (\<lambda>k. k\<lparr>c_lock_denied := c_lock_denied k + 1\<rparr>) st1)
          in case (n, holder) of
               (Suc m, Some h) \<Rightarrow>
                 if cl_courtesy (sm_clients st1 (lor_client h))
                 then lock_loop m cfg key lowner rng x
                        (snd (expire_client_impl cfg (cl_clientid (sm_clients st1 (lor_client h))) kReasonConflict st1))
                 else if cl_expired (sm_clients st1 (lor_client h))
                 then lock_loop m cfg key lowner rng x (advance_clock 1000000 st1)
                 else denied
             | _ \<Rightarrow> denied)"

declare lock_loop.simps [simp del]

section \<open>Native push\<close>

definition push_native_lock ::
  "Config \<Rightarrow> u32 \<Rightarrow> ObjId \<Rightarrow> LockOwnerId \<Rightarrow> LockRange \<Rightarrow> bool \<Rightarrow> StateMgr \<Rightarrow> LockResult \<times> StateMgr" where
  "push_native_lock cfg fsid oid lowner rng x st =
     (case native_lock_object cfg fsid oid of
        Inl e \<Rightarrow> (lock_fail (native_lock_status e),
                  upd_cnt (\<lambda>n. n\<lparr>c_native_lock_errors := c_native_lock_errors n + 1\<rparr>) st)
      | Inr _ \<Rightarrow>
          let (granted, st1) = native_do cfg (NLock fsid oid lowner rng x) st
          in case granted of
               Inr _ \<Rightarrow> (lock_fail S_Ok, st1)
             | Inl e \<Rightarrow>
                 if e \<noteq> EAGAIN
                 then (lock_fail (native_lock_status e),
                       upd_cnt (\<lambda>n. n\<lparr>c_native_lock_errors := c_native_lock_errors n + 1\<rparr>) st1)
                 else
                   let st2 = upd_cnt (\<lambda>n. n\<lparr>c_native_lock_denied := c_native_lock_denied n + 1,
                                            c_lock_denied := c_lock_denied n + 1\<rparr>) st1;
                       (probe, st3) = native_probe cfg (NTest fsid oid rng x) st2
                   in (case probe of
                         Inr (Some conflict) \<Rightarrow>
                           (denied_by st3 conflict
                              (if lo_len (con_owner conflict) > 0 then find_lock_owner st3 (con_owner conflict) else None))
                       | _ \<Rightarrow> (lock_fail S_Denied)\<lparr>lr_denied := no_denied\<lparr>ld_offset := rng_offset rng,
                                 ld_length := rng_length rng, ld_exclusive := x\<rparr>\<rparr>,
                       st3))"

text \<open>A refused push undoes the grant: the owner's previous coverage is locked again.\<close>

definition restore_locks :: "FileKey \<Rightarrow> LockOwnerId \<Rightarrow> LockSeg list \<Rightarrow> LockTab \<Rightarrow> LockTab" where
  "restore_locks key lowner before t =
     fold (\<lambda>seg t. snd (lock t key lowner (to_range (seg_start seg) (seg_end seg)) (seg_exclusive seg))) before
       (snd (release_owner t key lowner))"

definition lock_push ::
  "Config \<Rightarrow> LockArgs \<Rightarrow> LockOwnerId \<Rightarrow> LockSeg list \<Rightarrow> StateMgr \<Rightarrow> LockResult option \<times> StateMgr" where
  "lock_push cfg args lowner before st =
     (let key = FileKey (la_fsid args) (la_oid args);
          rng = \<lparr>rng_offset = la_offset args, rng_length = la_length args\<rparr>;
          (pushed, st1) = push_native_lock cfg (la_fsid args) (la_oid args) lowner rng (la_exclusive args) st
      in if lr_status pushed = S_Ok then (None, st1)
         else
           let st2 = st1\<lparr>sm_locks := restore_locks key lowner before (sm_locks st1)\<rparr>
           in if lr_status pushed = S_Denied \<and> la_reclaim args
              then let (g, st3) = in_grace (la_fsid args) st2
                   in if g
                      then (Some (pushed\<lparr>lr_status := S_Delay, lr_denied := no_denied\<rparr>),
                            upd_cnt (\<lambda>n. n\<lparr>c_native_lock_reclaim_delays := c_native_lock_reclaim_delays n + 1\<rparr>) st3)
                      else (Some pushed, st3)
              else (Some pushed, st2))"

section \<open>The lock stateid\<close>

text \<open>Under the file shard: the stateid of (lock-owner, file) is reused or minted, then bumped.\<close>

definition lock_find_rec :: "StateMgr \<Rightarrow> LockOwnerId \<Rightarrow> FileStateRec \<Rightarrow> sref option" where
  "lock_find_rec st lowner file =
     foldl (\<lambda>found l. if \<not> sr_closed (sm_srecs st l) \<and> same_owner (sr_lowner (sm_srecs st l)) lowner
                      then Some l else found) None (fl_locks file)"

definition lock_mint ::
  "Config \<Rightarrow> LockArgs \<Rightarrow> cref \<Rightarrow> LockOwnerId \<Rightarrow> bytes \<Rightarrow> sref option \<Rightarrow> FileStateRec \<Rightarrow> StateMgr \<Rightarrow> sref \<times> StateMgr" where
  "lock_mint cfg args c lowner owner open_rec file st =
     (let (other, st1) = new_other cfg kLock st;
          r = sm_next_sref st1;
          rec = new_state\<lparr>sr_type := kLock, sr_other := other, sr_client := c, sr_fsid := la_fsid args,
                  sr_oid := la_oid args, sr_owner := owner, sr_lowner := lowner, sr_parent_open := open_rec,
                  sr_seqid := 0\<rparr>;
          st2 = st1\<lparr>sm_next_sref := r + 1, sm_srecs := (sm_srecs st1)(r := rec),
                    sm_files := (sm_files st1)(FileKey (la_fsid args) (la_oid args) \<mapsto>
                                  file\<lparr>fl_locks := fl_locks file @ [r]\<rparr>)\<rparr>
      in (r, if fl_opens file = [] \<and> fl_locks file = []
             then upd_cnt (\<lambda>n. n\<lparr>n_files := n_files n + 1\<rparr>) st2 else st2))"

definition lock_publish ::
  "Config \<Rightarrow> LockArgs \<Rightarrow> cref \<Rightarrow> LockOwnerId \<Rightarrow> bytes \<Rightarrow> sref option \<Rightarrow> sref option \<Rightarrow> StateMgr \<Rightarrow>
   bool \<times> sref \<times> StateMgr" where
  "lock_publish cfg args c lowner owner open_rec lock_rec st =
     (let key = FileKey (la_fsid args) (la_oid args);
          file = (case sm_files st key of None \<Rightarrow> empty_file | Some f \<Rightarrow> f);
          st0 = st\<lparr>sm_files := (sm_files st)(key \<mapsto> file)\<rparr>;
          known = (case lock_rec of Some r \<Rightarrow> Some r | None \<Rightarrow> lock_find_rec st0 lowner file);
          (created, r, st1) =
            (case known of
               Some r \<Rightarrow> (False, r, st0)
             | None \<Rightarrow> (True, lock_mint cfg args c lowner owner open_rec file st0))
      in (created, r, upd_state r (\<lambda>x. x\<lparr>sr_seqid := sr_seqid x + 1\<rparr>) st1))"

definition lock_register :: "Config \<Rightarrow> cref \<Rightarrow> bool \<Rightarrow> sref \<Rightarrow> StateMgr \<Rightarrow> LockResult \<times> StateMgr" where
  "lock_register cfg c created r st =
     (let done = (\<lambda>s. ((lock_fail S_Ok)\<lparr>lr_stateid := state_sid s r\<rparr>, s))
      in if \<not> created then done st
         else
           let st1 = upd_cnt (\<lambda>n. n\<lparr>n_locks := n_locks n + 1\<rparr>)
                       (insert_state r st)
           in case register_state cfg c r st1 of
                (True, st2) \<Rightarrow> done st2
              | (False, st2) \<Rightarrow> (lock_fail S_Expired, snd (unlink_state cfg r False False st2)))"

definition lock_op ::
  "Config \<Rightarrow> LockArgs \<Rightarrow> StateMgr \<Rightarrow> LockResult \<times> StateMgr" where
  "lock_op cfg args st =
     (case find_client cfg st (la_clientid args) of
        None \<Rightarrow> (lock_fail S_StaleClientid, st)
      | Some c \<Rightarrow>
          if \<not> cl_confirmed (sm_clients st c) then (lock_fail S_StaleClientid, st)
          else if cl_expired (sm_clients st c) then (lock_fail S_Expired, st)
          else
            let held_states = length (cl_states (sm_clients st c));
                (gate, st1) = lock_gate args c st
            in if gate \<noteq> S_Ok then (lock_fail gate, st1)
               else case lock_resolve cfg args c st1 of
                 Inl s \<Rightarrow> (lock_fail s, st1)
               | Inr (open_rec, lock_rec, owner) \<Rightarrow>
                   let need = (if la_exclusive args then kShareWrite else kShareRead)
                   in if (case open_rec of None \<Rightarrow> True
                          | Some p \<Rightarrow> sr_closed (sm_srecs st1 p) \<or> sr_access (sm_srecs st1 p) AND need = 0)
                      then (lock_fail S_Openmode, st1)
                      else
                        let lowner = make_lowner (la_clientid args) owner;
                            key = FileKey (la_fsid args) (la_oid args);
                            rng = \<lparr>rng_offset = la_offset args, rng_length = la_length args\<rparr>
                        in if la_new_owner args \<and> cfg_max_states_per_client cfg \<noteq> 0 \<and>
                              int held_states \<ge> uint (cfg_max_states_per_client cfg)
                           then (lock_fail S_Resource, st1)
                           else if cfg_max_lock_segments_per_owner cfg \<noteq> 0 \<and>
                                   int (count_owner (sm_locks st1) key lowner) \<ge> uint (cfg_max_lock_segments_per_owner cfg)
                           then (lock_fail S_Resource, st1)
                           else
                             let native = native_lock_mgr cfg (la_fsid args);
                                 before = filter (\<lambda>seg. same_owner (seg_owner seg) lowner) (segments (sm_locks st1) key)
                             in case lock_loop 8 cfg key lowner rng (la_exclusive args) st1 of
                                  (Some out, st2) \<Rightarrow> (out, st2)
                                | (None, st2) \<Rightarrow>
                                    (case (if native then lock_push cfg args lowner before st2 else (None, st2)) of
                                       (Some out, st3) \<Rightarrow> (out, st3)
                                     | (None, st3) \<Rightarrow>
                                         let st4 = remember_lock_owner lowner c owner st3;
                                             (created, r, st5) = lock_publish cfg args c lowner owner open_rec lock_rec st4
                                         in lock_register cfg c created r st5))"

section \<open>LOCKT and LOCKU\<close>

fun lockt_loop ::
  "nat \<Rightarrow> Config \<Rightarrow> FileKey \<Rightarrow> LockOwnerId \<Rightarrow> LockRange \<Rightarrow> bool \<Rightarrow> StateMgr \<Rightarrow> LockResult option \<times> StateMgr" where
  "lockt_loop n cfg key lowner rng x st =
     (case test (sm_locks st) key (Some lowner) rng x of
        None \<Rightarrow> (None, st)
      | Some conflict \<Rightarrow>
          let holder = find_lock_owner st (con_owner conflict)
          in case (n, holder) of
               (Suc m, Some h) \<Rightarrow>
                 if cl_courtesy (sm_clients st (lor_client h))
                 then lockt_loop m cfg key lowner rng x
                        (snd (expire_client_impl cfg (cl_clientid (sm_clients st (lor_client h))) kReasonConflict st))
                 else (Some (denied_by st conflict holder), st)
             | _ \<Rightarrow> (Some (denied_by st conflict holder), st))"

declare lockt_loop.simps [simp del]

definition lockt_native ::
  "Config \<Rightarrow> u32 \<Rightarrow> ObjId \<Rightarrow> LockOwnerId \<Rightarrow> LockRange \<Rightarrow> bool \<Rightarrow> StateMgr \<Rightarrow> LockResult \<times> StateMgr" where
  "lockt_native cfg fsid oid lowner rng x st =
     (if \<not> native_lock_mgr cfg fsid then (lock_fail S_Ok, st)
      else if list_ex (\<lambda>seg. same_owner (seg_owner seg) lowner \<and> seg_start seg < range_end rng \<and>
                             rng_offset rng < seg_end seg) (segments (sm_locks st) (FileKey fsid oid))
      then (lock_fail S_Ok, st)
      else case native_lock_object cfg fsid oid of
             Inl e \<Rightarrow> (lock_fail (native_lock_status e), st)
           | Inr _ \<Rightarrow>
               let (probe, st1) = native_probe cfg (NTest fsid oid rng x) st
               in case probe of
                    Inl e \<Rightarrow> (lock_fail (native_lock_status e),
                              upd_cnt (\<lambda>n. n\<lparr>c_native_lock_errors := c_native_lock_errors n + 1\<rparr>) st1)
                  | Inr None \<Rightarrow> (lock_fail S_Ok, st1)
                  | Inr (Some conflict) \<Rightarrow>
                      (denied_by st1 conflict
                         (if lo_len (con_owner conflict) > 0 then find_lock_owner st1 (con_owner conflict) else None), st1))"

definition lockt ::
  "Config \<Rightarrow> u64 \<Rightarrow> u32 \<Rightarrow> ObjId \<Rightarrow> bytes \<Rightarrow> bool \<Rightarrow> u64 \<Rightarrow> u64 \<Rightarrow> StateMgr \<Rightarrow> LockResult \<times> StateMgr" where
  "lockt cfg clientid fsid oid owner x offset len st =
     (case find_client cfg st clientid of
        None \<Rightarrow> (lock_fail S_StaleClientid, st)
      | Some c \<Rightarrow>
          if \<not> cl_confirmed (sm_clients st c) then (lock_fail S_StaleClientid, st)
          else let lowner = make_lowner clientid owner;
                   rng = \<lparr>rng_offset = offset, rng_length = len\<rparr>
               in case lockt_loop 8 cfg (FileKey fsid oid) lowner rng x st of
                    (Some out, st1) \<Rightarrow> (out, st1)
                  | (None, st1) \<Rightarrow> lockt_native cfg fsid oid lowner rng x st1)"

definition locku_native :: "Config \<Rightarrow> StateRec \<Rightarrow> LockRange \<Rightarrow> StateMgr \<Rightarrow> StateMgr" where
  "locku_native cfg rec rng st =
     (if \<not> native_lock_mgr cfg (sr_fsid rec) then st
      else let (rel, st1) =
             (case native_lock_object cfg (sr_fsid rec) (sr_oid rec) of
                Inl e \<Rightarrow> (Inl e, st)
              | Inr _ \<Rightarrow> native_do cfg (NUnlock (sr_fsid rec) (sr_oid rec) (sr_lowner rec) rng) st)
           in case rel of
                Inl _ \<Rightarrow> upd_cnt (\<lambda>n. n\<lparr>c_native_lock_errors := c_native_lock_errors n + 1\<rparr>) st1
              | Inr _ \<Rightarrow> st1)"

definition locku ::
  "Config \<Rightarrow> Stateid \<Rightarrow> u64 \<Rightarrow> u64 \<Rightarrow> u64 \<Rightarrow> (u32 \<times> ObjId) option \<Rightarrow> StateMgr \<Rightarrow> (Status \<times> Stateid) \<times> StateMgr" where
  "locku cfg sid clientid offset len expect st =
     (case find_state cfg sid st of
        Inl s \<Rightarrow> ((s, zero_sid), st)
      | Inr r \<Rightarrow>
          let rec = sm_srecs st r; rng = \<lparr>rng_offset = offset, rng_length = len\<rparr>
          in if sr_type rec \<noteq> kLock \<or> cl_clientid (client_of st r) \<noteq> clientid then ((S_BadStateid, zero_sid), st)
             else if other_file rec expect then ((S_BadStateid, zero_sid), st)
             else if sid_seqid sid \<noteq> 0 \<and> sid_seqid sid < sr_seqid rec then ((S_OldStateid, zero_sid), st)
             else if sid_seqid sid \<noteq> 0 \<and> sid_seqid sid > sr_seqid rec then ((S_BadStateid, zero_sid), st)
             else
               let st1 = locku_native cfg rec rng
                           (st\<lparr>sm_locks := unlock (sm_locks st) (state_key rec) (sr_lowner rec) rng\<rparr>);
                   st2 = upd_state r (\<lambda>x. x\<lparr>sr_seqid := sr_seqid x + 1\<rparr>) st1
               in ((S_Ok, \<lparr>sid_seqid = sr_seqid (sm_srecs st2 r), sid_other = sid_other sid\<rparr>),
                   notify_lock_waiters (state_key rec) st2))"

end
