(* ===== verification/StateLease.thy ===== *)
theory StateLease
  imports StateLock
begin

text \<open>
  The lease scanner and the observation counters of the state manager
  (\<^verbatim>\<open>state_mgr.cpp\<close>): due entries of the expiry heap, courtesy, lapse of idle records,
  the reclaim of clients past the courtesy window.
\<close>

section \<open>One scanner pass\<close>

text \<open>
  Popping the due entries; the heap is kept as a sorted list.  Entries of clients that are gone and
  superseded duplicates are skipped.
\<close>

fun pop_due :: "int \<Rightarrow> (int \<times> u64) list \<Rightarrow> StateMgr \<Rightarrow> cref list \<times> StateMgr" where
  "pop_due now [] st = ([], st\<lparr>sm_lease_heap := []\<rparr>)"
| "pop_due now ((when, clientid) # heap) st =
     (if when \<le> now
      then case sm_client_idx st clientid of
             None \<Rightarrow> pop_due now heap st
           | Some c \<Rightarrow>
               if cl_lease_heap_deadline (sm_clients st c) \<noteq> when then pop_due now heap st
               else let (due, st1) = pop_due now heap (upd_client c (\<lambda>k. k\<lparr>cl_lease_heap_deadline := -1\<rparr>) st)
                    in (c # due, st1)
      else ([], st\<lparr>sm_lease_heap := (when, clientid) # heap\<rparr>))"

definition courtesy_window :: "Config \<Rightarrow> int" where
  "courtesy_window cfg = uint (cfg_lease_seconds cfg) * uint (max 1 (cfg_courtesy_multiplier cfg))"

text \<open>Under the client shard, everything re-checked: lapse an idle record, or enter courtesy.\<close>

definition scan_locked :: "Config \<Rightarrow> int \<Rightarrow> cref \<Rightarrow> StateMgr \<Rightarrow> StateMgr" where
  "scan_locked cfg now c st =
     (let k = sm_clients st c
      in if sm_by_id st (cl_clientid k) \<noteq> Some c then st
         else if cl_expired k then st
         else if cl_lease_expiry k > now \<or> cl_courtesy k
         then arm_lease_check c (max (cl_lease_expiry k) (now + 1)) st
         else if \<not> cl_confirmed k \<or> (cl_sessions k = [] \<and> cl_states k = [])
         then upd_cnt (\<lambda>n. n\<lparr>c_lease_expirations := c_lease_expirations n + 1\<rparr>)
                (remove_client (cl_clientid k) (clear_owner_slot c (unpersist_client cfg c st)))
         else arm_lease_check c (now + courtesy_window cfg)
                (upd_cnt (\<lambda>n. n\<lparr>n_courtesy := n_courtesy n + 1, c_lease_expirations := c_lease_expirations n + 1\<rparr>)
                  (upd_client c (\<lambda>k. k\<lparr>cl_courtesy := True, cl_courtesy_since := now\<rparr>) st)))"

definition scan_client :: "Config \<Rightarrow> int \<Rightarrow> cref \<Rightarrow> u64 list \<times> StateMgr \<Rightarrow> u64 list \<times> StateMgr" where
  "scan_client cfg now c a =
     (case a of (timed_out, st) \<Rightarrow>
        let k = sm_clients st c
        in if cl_expired k then (timed_out, st)
           else if cl_courtesy k
           then if now - cl_courtesy_since k \<ge> courtesy_window cfg then (timed_out @ [cl_clientid k], st)
                else (timed_out, arm_lease_check c (cl_courtesy_since k + courtesy_window cfg) st)
           else if cl_lease_expiry k > now then (timed_out, arm_lease_check c (cl_lease_expiry k) st)
           else (timed_out, scan_locked cfg now c st))"

text \<open>The part of a pass over the due clients: the ids to reclaim, and the state after it.\<close>

definition scan_due :: "Config \<Rightarrow> StateMgr \<Rightarrow> u64 list \<times> StateMgr" where
  "scan_due cfg st =
     (let now = now_coarse st; (due, st1) = pop_due now (sm_lease_heap st) st
      in fold (scan_client cfg now) due ([], st1))"

definition scan_leases :: "Config \<Rightarrow> StateMgr \<Rightarrow> StateMgr" where
  "scan_leases cfg st =
     (let (timed_out, st1) = scan_due cfg st;
          st2 = fold (\<lambda>i s. snd (expire_client_impl cfg i kReasonTimeout s)) timed_out st1
      in sweep_recalls cfg st2)"

section \<open>Statistics\<close>

record Stats =
  ss_clients :: nat
  ss_sessions :: nat
  ss_opens :: nat
  ss_files :: nat
  ss_courtesy :: nat
  ss_lock_states :: nat
  ss_delegs :: nat
  ss_lock_segments :: u64
  ss_lock_owners :: nat
  ss_counters :: Counters
  ss_grace :: bool
  ss_grace_remaining :: int
  ss_fs_grace :: "(u32 \<times> int) list"

definition stats :: "StateMgr \<Rightarrow> Stats \<times> StateMgr" where
  "stats st =
     (let n = sm_cnt st;
          (g, st1) = in_grace_any st;
          (left, st2) = grace_remaining_any st1
      in (\<lparr>ss_clients = nat (n_clients n), ss_sessions = nat (n_sessions n), ss_opens = nat (n_opens n),
           ss_files = nat (n_files n), ss_courtesy = nat (n_courtesy n), ss_lock_states = nat (n_locks n),
           ss_delegs = nat (n_delegs n), ss_lock_segments = lt_total (sm_locks st),
           ss_lock_owners = length (sm_lock_owners st), ss_counters = n, ss_grace = g, ss_grace_remaining = left,
           ss_fs_grace = (if g then sort (map (\<lambda>(i, w). (i, max 0 (secs_left st2 w)))
                                        (filter (\<lambda>(i, w). \<not> (i = 0 \<or> \<not> gw_active w)) (sm_grace st2)))
                          else [])\<rparr>, st2))"

end
