(* ===== verification/StateFrame.thy ===== *)
theory StateFrame
  imports StateLease
begin

text \<open>
  Invariants of the state manager.  Most steps of most operations leave the tables alone; they are
  collected in the relation \<open>same_core\<close>.  The locale \<open>mgr_invariant\<close> is the contract of an
  invariant: it holds initially, does not depend on what \<open>same_core\<close> lets change, and is kept by
  the few steps that do change the tables.  Inside it every operation of the manager is shown to
  keep the invariant, once for all; \<open>reachable\<close> is the transition system of the whole manager.
\<close>

section \<open>Steps that leave the tables alone\<close>

definition same_client :: "ClientRec \<Rightarrow> ClientRec \<Rightarrow> bool" where
  "same_client a b \<longleftrightarrow>
     cl_clientid b = cl_clientid a \<and> cl_owner_id b = cl_owner_id a \<and> cl_confirmed b = cl_confirmed a \<and>
     cl_expired b = cl_expired a \<and> cl_courtesy b = cl_courtesy a \<and> cl_courtesy_since b = cl_courtesy_since a \<and>
     cl_lease_heap_deadline b = cl_lease_heap_deadline a \<and> cl_states b = cl_states a"

definition same_core :: "StateMgr \<Rightarrow> StateMgr \<Rightarrow> bool" where
  "same_core st st' \<longleftrightarrow>
     (\<forall>c. same_client (sm_clients st c) (sm_clients st' c)) \<and>
     sm_next_cref st' = sm_next_cref st \<and> sm_srecs st' = sm_srecs st \<and> sm_next_sref st' = sm_next_sref st \<and>
     sm_by_owner st' = sm_by_owner st \<and> sm_by_id st' = sm_by_id st \<and> sm_client_idx st' = sm_client_idx st \<and>
     sm_states st' = sm_states st \<and> sm_files st' = sm_files st \<and> sm_lease_heap st' = sm_lease_heap st \<and>
     sm_next_client st' = sm_next_client st \<and> sm_next_state st' = sm_next_state st \<and>
     n_clients (sm_cnt st') = n_clients (sm_cnt st) \<and> n_courtesy (sm_cnt st') = n_courtesy (sm_cnt st)"

named_theorems core_intros \<open>steps that leave the tables alone\<close>

lemma same_client_refl [simp]: "same_client k k"
  by (simp add: same_client_def)

lemma same_core_refl [core_intros]: "same_core st st"
  by (simp add: same_core_def)

lemma same_core_trans: "same_core a b \<Longrightarrow> same_core b c \<Longrightarrow> same_core a c"
  by (simp add: same_core_def same_client_def)

lemma same_core_upd_client [core_intros]:
  "same_core s st \<Longrightarrow> (\<And>k. same_client k (f k)) \<Longrightarrow> same_core s (upd_client c f st)"
  by (auto simp: same_core_def upd_client_def same_client_def)

lemma same_core_upd_cnt [core_intros]:
  "same_core s st \<Longrightarrow> (\<And>n. n_clients (f n) = n_clients n \<and> n_courtesy (f n) = n_courtesy n) \<Longrightarrow> same_core s (upd_cnt f st)"
  by (simp add: same_core_def upd_cnt_def)

lemma same_core_fields [core_intros]:
  "same_core s st \<Longrightarrow> same_core s (st\<lparr>sm_sessions := v1\<rparr>)"
  "same_core s st \<Longrightarrow> same_core s (st\<lparr>sm_locks := v2\<rparr>)"
  "same_core s st \<Longrightarrow> same_core s (st\<lparr>sm_lock_owners := v3\<rparr>)"
  "same_core s st \<Longrightarrow> same_core s (st\<lparr>sm_next_session := v4\<rparr>)"
  "same_core s st \<Longrightarrow> same_core s (st\<lparr>sm_grace := v5\<rparr>)"
  "same_core s st \<Longrightarrow> same_core s (st\<lparr>sm_grace_any := v6\<rparr>)"
  "same_core s st \<Longrightarrow> same_core s (st\<lparr>sm_recall_watch := v7\<rparr>)"
  "same_core s st \<Longrightarrow> same_core s (st\<lparr>sm_lock_waiters := v8\<rparr>)"
  "same_core s st \<Longrightarrow> same_core s (st\<lparr>sm_stable := v9\<rparr>)"
  "same_core s st \<Longrightarrow> same_core s (st\<lparr>sm_now := v10\<rparr>)"
  "same_core s st \<Longrightarrow> same_core s (st\<lparr>sm_chan_alive := v11\<rparr>)"
  "same_core s st \<Longrightarrow> same_core s (st\<lparr>sm_tasks := v12\<rparr>)"
  "same_core s st \<Longrightarrow> same_core s (st\<lparr>sm_native_log := v13\<rparr>)"
  "same_core s st \<Longrightarrow> same_core s (st\<lparr>sm_released := v14\<rparr>)"
  by (simp_all add: same_core_def)

lemma same_core_upd_session [core_intros]: "same_core s st \<Longrightarrow> same_core s (upd_session i f st)"
  unfolding upd_session_def by (intro core_intros)

lemma same_core_drop_handle [core_intros]: "same_core s st \<Longrightarrow> same_core s (drop_handle h st)"
  unfolding drop_handle_def by (cases h) (auto intro!: core_intros)

lemma same_core_fold [core_intros]:
  "same_core s st \<Longrightarrow> (\<And>x t. same_core s t \<Longrightarrow> same_core s (f x t)) \<Longrightarrow> same_core s (fold f xs st)"
  by (induction xs arbitrary: st) auto

lemma same_core_drop_session [core_intros]: "same_core s st \<Longrightarrow> same_core s (drop_session i st)"
  unfolding drop_session_def by (auto intro!: core_intros split: option.splits)

lemma same_core_records [core_intros]:
  "same_core s st \<Longrightarrow> same_core s (write_client_record fsid ow st)"
  "same_core s st \<Longrightarrow> same_core s (unlink_client_record fsid ow st)"
  "same_core s st \<Longrightarrow> same_core s (persist_fs_client fsid ow st)"
  "same_core s st \<Longrightarrow> same_core s (unpersist_fs_client fsid ow st)"
  "same_core s st \<Longrightarrow> same_core s (persist_client cfg c st)"
  unfolding write_client_record_def unlink_client_record_def persist_fs_client_def unpersist_fs_client_def persist_client_def
  by (auto intro!: core_intros)

lemma same_core_unpersist [core_intros]: "same_core s st \<Longrightarrow> same_core s (unpersist_client cfg c st)"
  unfolding unpersist_client_def Let_def
  by (auto intro!: core_intros simp: same_client_def split: prod.splits)

lemma same_core_grace [core_intros]:
  "same_core s st \<Longrightarrow> same_core s (snd (in_grace fsid st))"
  "same_core s st \<Longrightarrow> same_core s (snd (in_grace_any st))"
  "same_core s st \<Longrightarrow> same_core s (snd (end_grace fsid st))"
  "same_core s st \<Longrightarrow> same_core s (note_reclaimed ow st)"
  "same_core s st \<Longrightarrow> same_core s (arm_grace cfg fsid ows st)"
  "same_core s st \<Longrightarrow> same_core s (load_grace_list cfg fsid st)"
  unfolding in_grace_def in_grace_any_def end_grace_def note_reclaimed_def arm_grace_def load_grace_list_def Let_def
  by (auto intro!: core_intros)

lemma same_core_forget [core_intros]: "same_core s st \<Longrightarrow> same_core s (forget_lock_owners i st)"
  unfolding forget_lock_owners_def by (intro core_intros)

lemma same_core_reason [core_intros]: "same_core s st \<Longrightarrow> same_core s (count_reason why st)"
  by (cases why) (auto intro!: core_intros)

lemma same_core_clock [core_intros]: "same_core s st \<Longrightarrow> same_core s (advance_clock d st)"
  unfolding advance_clock_def by (intro core_intros)

lemma same_core_native [core_intros]:
  "same_core s st \<Longrightarrow> same_core s (snd (native_do cfg call st))"
  "same_core s st \<Longrightarrow> same_core s (snd (native_probe cfg call st))"
  unfolding native_do_def native_probe_def by (auto intro!: core_intros)

lemma same_core_waiters [core_intros]:
  "same_core s st \<Longrightarrow> same_core s (register_lock_waiter cfg fsid oid i ow fh st)"
  "same_core s st \<Longrightarrow> same_core s (notify_lock_waiters key st)"
  unfolding register_lock_waiter_def notify_lock_waiters_def Let_def
  by (auto intro!: core_intros split: option.splits)

lemma same_core_remember [core_intros]: "same_core s st \<Longrightarrow> same_core s (remember_lock_owner i c ow st)"
  unfolding remember_lock_owner_def by (intro core_intros)

lemma same_core_push [core_intros]:
  "same_core s st \<Longrightarrow> same_core s (snd (push_native_lock cfg fsid oid lo rng x st))"
  unfolding push_native_lock_def Let_def split_beta
  by (auto intro!: core_intros split: sum.splits option.splits)

lemma same_core_lock_push [core_intros]: "same_core s st \<Longrightarrow> same_core s (snd (lock_push cfg args lo before st))"
  unfolding lock_push_def Let_def split_beta by (auto intro!: core_intros)

lemma same_core_lockt_native [core_intros]:
  "same_core s st \<Longrightarrow> same_core s (snd (lockt_native cfg fsid oid lo rng x st))"
  unfolding lockt_native_def Let_def split_beta
  by (auto intro!: core_intros split: sum.splits option.splits)

lemma same_core_locku_native [core_intros]: "same_core s st \<Longrightarrow> same_core s (locku_native cfg rec rng st)"
  unfolding locku_native_def Let_def split_beta by (auto intro!: core_intros split: sum.splits)

lemma same_core_send_cb [core_intros]: "same_core s st \<Longrightarrow> same_core s (snd (send_cb cfg c reply st))"
  unfolding send_cb_def send_cb_begin_def send_cb_end_def Let_def
  by (auto intro!: core_intros split: option.splits)

lemma same_core_tasks [core_intros]:
  "same_core s st \<Longrightarrow> same_core s (recall_task cfg r reply st)"
  "same_core s st \<Longrightarrow> same_core s (notify_task cfg i reply st)"
  unfolding recall_task_def notify_task_def Let_def split_beta
  by (auto intro!: core_intros split: option.splits)

lemma same_core_slots [core_intros]:
  "same_core s st \<Longrightarrow> same_core s (upd_slot i n f st)"
  "same_core s st \<Longrightarrow> same_core s (sequence_abort i slotid st)"
  "same_core s st \<Longrightarrow> same_core s (sequence_complete i slotid seqid cache reply st)"
  unfolding upd_slot_def sequence_abort_def sequence_complete_def
  by (auto intro!: core_intros split: option.splits)

lemma same_core_sessions [core_intros]:
  "same_core s st \<Longrightarrow> same_core s (snd (bind_conn i conn st))"
  "same_core s st \<Longrightarrow> same_core s (snd (bind_backchannel i chan st))"
  "same_core s st \<Longrightarrow> same_core s (snd (destroy_session i conn st))"
  "same_core s st \<Longrightarrow> same_core s (confirm_create_session cfg ci reply st)"
  "same_core s st \<Longrightarrow> same_core s (snd (reclaim_complete cfg ci st))"
  unfolding bind_conn_def bind_backchannel_def destroy_session_def confirm_create_session_def reclaim_complete_def Let_def
  by (auto intro!: core_intros simp: same_client_def split: option.splits)

section \<open>The contract of an invariant\<close>

text \<open>A record that its file lists under its type.\<close>

definition in_file :: "StateMgr \<Rightarrow> sref \<Rightarrow> bool" where
  "in_file st r \<longleftrightarrow>
     (case sm_files st (state_key (sm_srecs st r)) of
        None \<Rightarrow> False
      | Some f \<Rightarrow> r \<in> set (case sr_type (sm_srecs st r) of kOpen \<Rightarrow> fl_opens f | kLock \<Rightarrow> fl_locks f | kDeleg \<Rightarrow> fl_delegs f))"

text \<open>
  \<open>minted\<close>: a record that has just been published in the file index and is about to be registered.
\<close>

definition minted :: "StateMgr \<Rightarrow> sref \<Rightarrow> bool" where
  "minted st r \<longleftrightarrow> r < sm_next_sref st \<and> \<not> sr_closed (sm_srecs st r) \<and> in_file st r"

lemma minted_arbitrate: "open_arbitrate cfg args c h st = (ArbNew r, st1) \<Longrightarrow> minted st1 r"
  by (auto simp: open_arbitrate_def open_publish_def new_other_def minted_def in_file_def Let_def upd_cnt_def new_state_def
      split: prod.splits if_splits option.splits)

lemma minted_loop: "open_loop n cfg args c h st = (ArbNew r, st1) \<Longrightarrow> minted st1 r"
  by (induction n cfg args c h st rule: open_loop.induct)
     (auto dest: minted_arbitrate split: prod.splits arbitration.splits)

lemma minted_deleg: "publish_deleg cfg c fsid oid fh st = (Some r, st1) \<Longrightarrow> minted st1 r"
  by (auto simp: publish_deleg_def new_deleg_def new_other_def minted_def in_file_def Let_def new_state_def split: if_splits)

lemma minted_deleg':
  "fst (publish_deleg cfg c fsid oid fh st) = Some r \<longrightarrow> minted (snd (publish_deleg cfg c fsid oid fh st)) r"
  using minted_deleg by (metis prod.collapse)

lemma minted_lock: "lock_publish cfg args c lo ow p l st = (True, r, st1) \<Longrightarrow> minted st1 r"
  by (auto simp: lock_publish_def lock_mint_def new_other_def minted_def in_file_def Let_def upd_cnt_def upd_state_def new_state_def
      split: option.splits if_splits)

text \<open>No step of the reclaim chain allocates a client.\<close>

lemma next_cref_upd [simp]:
  "sm_next_cref (upd_client c f st) = sm_next_cref st"
  "sm_next_cref (upd_cnt g st) = sm_next_cref st"
  "sm_next_cref (upd_state r h st) = sm_next_cref st"
  "sm_next_cref (upd_session i k st) = sm_next_cref st"
  by (simp_all add: upd_client_def upd_cnt_def upd_state_def upd_session_def)

lemma next_cref_core: "same_core st st' \<Longrightarrow> sm_next_cref st' = sm_next_cref st"
  by (simp add: same_core_def)

lemma same_core_unlink_native [core_intros]: "same_core s st \<Longrightarrow> same_core s (unlink_native cfg r ho st)"
  unfolding unlink_native_def Let_def split_beta by (auto intro!: core_intros split: sum.splits)

lemma next_cref_unlink_parts:
  "unlink_claim r st = Some (h, st1) \<Longrightarrow> sm_next_cref st1 = sm_next_cref st"
  "sm_next_cref (snd (unlink_file r st)) = sm_next_cref st"
  "sm_next_cref (unlink_client cfg r fc ho st) = sm_next_cref st"
  by (auto simp: unlink_claim_def unlink_file_def unlink_client_def untrack_state_locked_def unpersist_fs_client_def
      unlink_client_record_def Let_def split_beta split: if_splits option.splits)

lemma next_cref_unlink_ranges [simp]: "sm_next_cref (unlink_ranges cfg r ho st) = sm_next_cref st"
proof -
  have "sm_next_cref (unlink_native cfg r ho s) = sm_next_cref s" for s
    by (rule next_cref_core) (intro core_intros)
  moreover have "sm_next_cref (notify_lock_waiters k s) = sm_next_cref s" for k s
    by (rule next_cref_core) (intro core_intros)
  ultimately show ?thesis
    by (cases "sr_type (sm_srecs st r)") (simp_all add: unlink_ranges_def Let_def)
qed

lemma next_cref_unlink_leaf [simp]: "sm_next_cref (snd (unlink_leaf cfg r fc ho st)) = sm_next_cref st"
  by (auto simp: unlink_leaf_def Let_def split_beta next_cref_unlink_parts split: option.splits)

lemma next_cref_fold: "(\<And>x s. sm_next_cref (f x s) = sm_next_cref s) \<Longrightarrow> sm_next_cref (fold f xs st) = sm_next_cref st"
  by (induction xs arbitrary: st) auto

lemma next_cref_unlink [simp]: "sm_next_cref (snd (unlink_state cfg r fc ho st)) = sm_next_cref st"
  by (auto simp: unlink_state_def Let_def split_beta next_cref_unlink_parts next_cref_fold split: option.splits)

lemma next_cref_unlink_others [simp]: "sm_next_cref (snd (unlink_others cfg os st)) = sm_next_cref st"
proof -
  have "sm_next_cref (snd (fold (unlink_other cfg) os a)) = sm_next_cref (snd a)" for a
    by (induction os arbitrary: a) (simp_all add: unlink_other_def Let_def split_beta split: option.splits prod.splits)
  then show ?thesis by (simp add: unlink_others_def)
qed

lemma next_cref_claim [simp]: "sm_next_cref (snd (expire_claim cfg i st)) = sm_next_cref st"
  by (auto simp: expire_claim_def end_courtesy_def remove_client_def unindex_client_def clear_owner_slot_def Let_def
      split: option.splits)

lemma next_cref_expire [simp]: "sm_next_cref (snd (expire_client_impl cfg i why st)) = sm_next_cref st"
proof (cases "expire_claim cfg i st")
  case (Pair a st1)
  then have st1: "sm_next_cref st1 = sm_next_cref st" using next_cref_claim [of cfg i st] by simp
  show ?thesis
  proof (cases a)
    case (Inr b)
    obtain c states sessions where b: "b = (c, states, sessions)" by (cases b) auto
    have "same_core (snd (unlink_others cfg states st1)) (snd (expire_client_impl cfg i why st))"
      using Pair Inr b by (simp add: expire_client_impl_def Let_def split_beta) (intro core_intros)
    with st1 show ?thesis by (simp add: next_cref_core)
  qed (use Pair st1 in \<open>simp add: expire_client_impl_def\<close>)
qed

lemma next_cref_arbitrate [simp]: "sm_next_cref (snd (open_arbitrate cfg args c h st)) = sm_next_cref st"
  by (auto simp: open_arbitrate_def open_merge_def open_publish_def new_other_def Let_def split_beta split: option.splits)

lemma next_cref_grace [simp]: "sm_next_cref (snd (in_grace fsid st)) = sm_next_cref st"
  by (rule next_cref_core) (intro core_intros)

lemma next_cref_lock_loop [simp]: "sm_next_cref (snd (lock_loop n cfg key lo rng x st)) = sm_next_cref st"
proof (induction n arbitrary: st)
  case 0
  show ?case by (simp add: lock_loop.simps [of 0] Let_def split: prod.splits option.splits)
next
  case (Suc n)
  then show ?case
    by (simp add: lock_loop.simps [of "Suc n"] Let_def advance_clock_def split: prod.splits option.splits)
qed

lemma next_cref_lock_push [simp]: "sm_next_cref (snd (lock_push cfg args lo before st)) = sm_next_cref st"
  by (rule next_cref_core) (intro core_intros)

lemma next_cref_remember [simp]: "sm_next_cref (remember_lock_owner i c ow st) = sm_next_cref st"
  by (rule next_cref_core) (intro core_intros)

section \<open>The transition system\<close>

text \<open>
  Every call the rest of the gateway makes into the state manager, the passing of time, the
  opening and closing of callback connections, and the tasks the manager spawns.  A run starts
  from a freshly constructed manager on an arbitrary stable list.
\<close>

inductive reachable :: "Config \<Rightarrow> StateMgr \<Rightarrow> bool" for cfg :: Config where
  start: "reachable cfg ((init_mgr t)\<lparr>sm_stable := v\<rparr>)"
| tick: "reachable cfg st \<Longrightarrow> d \<ge> 0 \<Longrightarrow> reachable cfg (advance_clock d st)"
| chan: "reachable cfg st \<Longrightarrow> reachable cfg (st\<lparr>sm_chan_alive := a\<rparr>)"
| grace_load: "reachable cfg st \<Longrightarrow> reachable cfg (load_grace_list cfg fsid st)"
| grace_end: "reachable cfg st \<Longrightarrow> reachable cfg (snd (end_grace fsid st))"
| exchange_id: "reachable cfg st \<Longrightarrow> reachable cfg (snd (exchange_id cfg ow ver princ upd st))"
| create_session: "reachable cfg st \<Longrightarrow>
    reachable cfg (snd (create_session cfg i sq princ fore back conn ch prog cred nonce st))"
| confirm_create: "reachable cfg st \<Longrightarrow> reachable cfg (confirm_create_session cfg i reply st)"
| destroy_session: "reachable cfg st \<Longrightarrow> reachable cfg (snd (destroy_session ses conn st))"
| destroy_clientid: "reachable cfg st \<Longrightarrow> reachable cfg (snd (destroy_clientid cfg i st))"
| bind_conn: "reachable cfg st \<Longrightarrow> reachable cfg (snd (bind_conn ses conn st))"
| bind_backchannel: "reachable cfg st \<Longrightarrow> reachable cfg (snd (bind_backchannel ses ch st))"
| sequence: "reachable cfg st \<Longrightarrow> reachable cfg (snd (sequence_step cfg ses slotid seqid highest conn st))"
| sequence_abort: "reachable cfg st \<Longrightarrow> reachable cfg (sequence_abort ses slotid st)"
| sequence_complete: "reachable cfg st \<Longrightarrow> reachable cfg (sequence_complete ses slotid seqid cache reply st)"
| reclaim_complete: "reachable cfg st \<Longrightarrow> reachable cfg (snd (reclaim_complete cfg i st))"
| open_op: "reachable cfg st \<Longrightarrow> reachable cfg (snd (open_op cfg args h st))"
| check_io: "reachable cfg st \<Longrightarrow> reachable cfg (snd (check_io cfg sid i fsid oid need st))"
| close_state: "reachable cfg st \<Longrightarrow> reachable cfg (snd (close_state cfg sid i ex st))"
| open_downgrade: "reachable cfg st \<Longrightarrow> reachable cfg (snd (open_downgrade cfg sid i acc den ex st))"
| free_stateid: "reachable cfg st \<Longrightarrow> reachable cfg (snd (free_stateid cfg sid i st))"
| grant_deleg: "reachable cfg st \<Longrightarrow>
    reachable cfg (snd (maybe_grant_read_deleg cfg ses i fsid oid fh acc rc st))"
| delegreturn: "reachable cfg st \<Longrightarrow> reachable cfg (snd (delegreturn cfg sid i fsid oid st))"
| deleg_conflict: "reachable cfg st \<Longrightarrow> reachable cfg (snd (deleg_conflict cfg fsid oid st))"
| recall_task: "reachable cfg st \<Longrightarrow> reachable cfg (recall_task cfg r reply st)"
| notify_task: "reachable cfg st \<Longrightarrow> reachable cfg (notify_task cfg i reply st)"
| lock_waiter: "reachable cfg st \<Longrightarrow> reachable cfg (register_lock_waiter cfg fsid oid i ow fh st)"
| lock_op: "reachable cfg st \<Longrightarrow> reachable cfg (snd (lock_op cfg la st))"
| lockt: "reachable cfg st \<Longrightarrow> reachable cfg (snd (lockt cfg i fsid oid ow x off len st))"
| locku: "reachable cfg st \<Longrightarrow> reachable cfg (snd (locku cfg sid i off len ex st))"
| scan_leases: "reachable cfg st \<Longrightarrow> reachable cfg (scan_leases cfg st)"
| expire_client: "reachable cfg st \<Longrightarrow> reachable cfg (snd (expire_client cfg i st))"
| release_fsid: "reachable cfg st \<Longrightarrow> reachable cfg (snd (release_fsid cfg fsid st))"
| stats: "reachable cfg st \<Longrightarrow> reachable cfg (snd (stats st))"

locale mgr_invariant =
  fixes cfg :: Config and I :: "StateMgr \<Rightarrow> bool"
  assumes init: "I (init_mgr t)"
    and core: "I st \<Longrightarrow> same_core st st' \<Longrightarrow> I st'"
    and bound: "I st \<Longrightarrow> find_client cfg st i = Some c \<Longrightarrow> c < sm_next_cref st"
    and renew: "I st \<Longrightarrow> I (renew cfg c st)"
    and exchange: "I st \<Longrightarrow> I (snd (exchange_id cfg ow ver princ upd st))"
    and confirm: "I st \<Longrightarrow> c < sm_next_cref st \<Longrightarrow> I (snd (confirm_client c st))"
    and claim: "I st \<Longrightarrow> I (snd (expire_claim cfg i st))"
    and destroy: "I st \<Longrightarrow> I (snd (destroy_clientid cfg i st))"
    and unlink: "I st \<Longrightarrow> I (snd (unlink_state cfg r fc ho st))"
    and arbitrate: "I st \<Longrightarrow> c < sm_next_cref st \<Longrightarrow> I (snd (open_arbitrate cfg args c h st))"
    and recall: "I st \<Longrightarrow> I (start_recall cfg r st)"
    and insert: "I st \<Longrightarrow> minted st r \<Longrightarrow> I (insert_state r st)"
    and register: "I st \<Longrightarrow> I (snd (register_state cfg c r st))"
    and deleg: "I st \<Longrightarrow> c < sm_next_cref st \<Longrightarrow> I (snd (publish_deleg cfg c fsid oid fh st))"
    and lock_pub: "I st \<Longrightarrow> c < sm_next_cref st \<Longrightarrow> I (snd (snd (lock_publish cfg la c lo ow p l st)))"
    and bump: "I st \<Longrightarrow> I (upd_state r (\<lambda>x. x\<lparr>sr_seqid := sr_seqid x + 1\<rparr>) st)"
    and downgrade: "I st \<Longrightarrow> I (snd (open_downgrade cfg sid i acc den ex st))"
    and scan: "I st \<Longrightarrow> I (snd (scan_due cfg st))"
begin

lemmas keeps =
  core [OF _ same_core_upd_client [OF same_core_refl]]
  core [OF _ same_core_upd_cnt [OF same_core_refl]]
  same_core_fields [OF same_core_refl, THEN core [rotated]]
  core [OF _ same_core_upd_session [OF same_core_refl]]
  core [OF _ same_core_drop_handle [OF same_core_refl]]
  core [OF _ same_core_drop_session [OF same_core_refl]]
  same_core_records [OF same_core_refl, THEN core [rotated]]
  core [OF _ same_core_unpersist [OF same_core_refl]]
  same_core_grace [OF same_core_refl, THEN core [rotated]]
  core [OF _ same_core_forget [OF same_core_refl]]
  core [OF _ same_core_reason [OF same_core_refl]]
  core [OF _ same_core_clock [OF same_core_refl]]
  same_core_native [OF same_core_refl, THEN core [rotated]]
  same_core_waiters [OF same_core_refl, THEN core [rotated]]
  core [OF _ same_core_remember [OF same_core_refl]]
  core [OF _ same_core_push [OF same_core_refl]]
  core [OF _ same_core_lock_push [OF same_core_refl]]
  core [OF _ same_core_lockt_native [OF same_core_refl]]
  core [OF _ same_core_locku_native [OF same_core_refl]]
  core [OF _ same_core_send_cb [OF same_core_refl]]
  same_core_tasks [OF same_core_refl, THEN core [rotated]]
  same_core_slots [OF same_core_refl, THEN core [rotated]]
  same_core_sessions [OF same_core_refl, THEN core [rotated]]

lemma fold_keeps: "I st \<Longrightarrow> (\<And>x s. I s \<Longrightarrow> I (f x s)) \<Longrightarrow> I (fold f xs st)"
  by (induction xs arbitrary: st) auto

lemma fold_snd_keeps: "I (snd a) \<Longrightarrow> (\<And>x b. I (snd b) \<Longrightarrow> I (snd (f x b))) \<Longrightarrow> I (snd (fold f xs a))"
  by (induction xs arbitrary: a) auto

lemma unlink_others: "I st \<Longrightarrow> I (snd (unlink_others cfg others st))"
  unfolding unlink_others_def
  by (rule fold_snd_keeps) (auto simp: unlink_other_def Let_def split_beta unlink split: option.splits)

lemma expire: "I st \<Longrightarrow> I (snd (expire_client_impl cfg i why st))"
  using claim [of st i] unfolding expire_client_impl_def Let_def split_beta
  by (auto split: prod.splits sum.splits intro!: fold_keeps keeps unlink_others)

lemma release: "I st \<Longrightarrow> I (snd (release_fsid cfg fsid st))"
proof -
  assume i: "I st"
  have step: "I (snd (snd a)) \<Longrightarrow> I (snd (snd (release_victim cfg u r a)))" for u r a
    by (cases a) (auto simp: release_victim_def Let_def split_beta same_client_def intro!: unlink keeps)
  have "I (snd (snd a)) \<Longrightarrow> I (snd (snd (fold (release_victim cfg u) rs a)))" for u rs a
    by (induction rs arbitrary: a) (simp_all add: step)
  with i show ?thesis
    unfolding release_fsid_def Let_def split_beta by (auto intro!: fold_keeps keeps)
qed

lemma add_session: "I st \<Longrightarrow> I (add_session cfg c sq ses st)"
  unfolding add_session_def Let_def by (auto simp: same_client_def intro!: keeps renew)

lemma bury: "I st \<Longrightarrow> I (bury_orphans cfg orphans st)"
  unfolding bury_orphans_def Let_def split_beta
  by (auto split: option.splits intro!: fold_keeps keeps unlink_others)

lemma create: "I st \<Longrightarrow> I (snd (create_session cfg i sq princ fore back conn ch prog cred nonce st))"
  using confirm [of st] bound [of st i] unfolding create_session_def Let_def split_beta
  by (auto split: option.splits intro!: bury add_session)

lemma sequence: "I st \<Longrightarrow> I (snd (sequence_step cfg i slotid seqid highest conn st))"
  unfolding sequence_step_def Let_def by (auto split: option.splits intro!: keeps renew)

lemma open_loop: "I st \<Longrightarrow> c < sm_next_cref st \<Longrightarrow> I (snd (open_loop n cfg args c h st))"
proof (induction n arbitrary: st)
  case 0
  then show ?case by (simp add: arbitrate)
next
  case (Suc n)
  then have *: "I (snd (open_arbitrate cfg args c h st))" by (simp add: arbitrate)
  then have "I (snd (expire_client_impl cfg j why (snd (open_arbitrate cfg args c h st))))" for j why
    by (rule expire)
  moreover have "c < sm_next_cref s1" if "open_arbitrate cfg args c h st = (a, s1)" for a s1
    using Suc.prems(2) next_cref_arbitrate [of cfg args c h st] unfolding that by simp
  ultimately show ?case
    using * Suc by (auto split: prod.splits arbitration.splits)
qed

lemma open_register: "I st \<Longrightarrow> minted st r \<Longrightarrow> I (snd (open_register cfg c r st))"
proof -
  assume "I st" "minted st r"
  then have "I (upd_cnt (\<lambda>n. n\<lparr>n_opens := n_opens n + 1\<rparr>) (insert_state r st))"
    by (auto intro!: keeps insert)
  from register [OF this, of c r] show ?thesis
    unfolding open_register_def Let_def split_beta
    by (auto split: prod.splits bool.splits intro!: keeps unlink)
qed

lemma gate: "I st \<Longrightarrow> I (snd (open_gate cfg args c st))"
  unfolding open_gate_def Let_def split_beta by (auto intro!: keeps)

lemma next_cref_gate: "sm_next_cref (snd (open_gate cfg args c st)) = sm_next_cref st"
  unfolding open_gate_def Let_def split_beta by auto

lemma open_op: "I st \<Longrightarrow> I (snd (open_op cfg args h st))"
proof (cases "find_client cfg st (oa_clientid args)")
  case (Some c)
  assume i: "I st"
  let ?s1 = "snd (open_gate cfg args c st)"
  have "I (snd (open_loop 8 cfg args c h ?s1))"
    using i bound [OF i Some] gate by (intro open_loop) (simp_all add: next_cref_gate)
  moreover have "minted s2 r" if "open_loop 8 cfg args c h ?s1 = (ArbNew r, s2)" for r s2
    using minted_loop [OF that] .
  ultimately show ?thesis
    using i gate [OF i, of args c] Some unfolding open_op_def Let_def
    by (cases "open_gate cfg args c st")
       (auto split: prod.splits arbitration.splits intro!: keeps fold_keeps recall open_register)
qed (auto simp: open_op_def intro!: keeps)

lemma check_io: "I st \<Longrightarrow> I (snd (check_io cfg sid i fsid oid need st))"
  unfolding check_io_def check_io_special_def Let_def split_beta
  by (auto split: option.splits intro!: keeps fold_keeps recall)

lemma close: "I st \<Longrightarrow> I (snd (close_state cfg sid i ex st))"
  unfolding close_state_def Let_def split_beta by (auto split: sum.splits intro!: keeps unlink)

lemma free: "I st \<Longrightarrow> I (snd (free_stateid cfg sid i st))"
  unfolding free_stateid_def Let_def split_beta by (auto split: sum.splits intro!: keeps unlink)

lemma grant_deleg: "I st \<Longrightarrow> minted st r \<Longrightarrow> I (snd (grant_deleg cfg c r st))"
  unfolding grant_deleg_def Let_def split_beta by (auto simp: same_client_def intro!: keeps unlink register insert)

lemma maybe_grant: "I st \<Longrightarrow> I (snd (maybe_grant_read_deleg cfg ses i fsid oid fh acc rc st))"
proof -
  assume "I st"
  then have s1: "I (snd (in_grace fsid st))" by (intro keeps)
  have pub: "I (snd (publish_deleg cfg c fsid oid fh (snd (in_grace fsid st))))"
    if "find_client cfg (snd (in_grace fsid st)) i = Some c" for c
    using deleg [OF s1 bound [OF s1 that]] .
  show ?thesis
    using \<open>I st\<close> s1 pub unfolding maybe_grant_read_deleg_def Let_def split_beta
    by (auto split: option.splits intro!: grant_deleg minted_deleg' [THEN mp])
qed

lemma delegreturn: "I st \<Longrightarrow> I (snd (delegreturn cfg sid i fsid oid st))"
  unfolding delegreturn_def by (auto split: sum.splits intro!: keeps unlink)

lemma deleg_conflict: "I st \<Longrightarrow> I (snd (deleg_conflict cfg fsid oid st))"
  unfolding deleg_conflict_def Let_def by (auto intro!: fold_keeps recall)

lemma sweep: "I st \<Longrightarrow> I (sweep_recalls cfg st)"
  unfolding sweep_recalls_def revoke_deleg_def Let_def split_beta by (auto intro!: fold_keeps keeps unlink)

lemma scan_leases: "I st \<Longrightarrow> I (scan_leases cfg st)"
  unfolding scan_leases_def Let_def split_beta by (auto intro!: sweep fold_keeps expire scan)

lemma lock_loop: "I st \<Longrightarrow> I (snd (lock_loop n cfg key lo rng x st))"
proof (induction n arbitrary: st)
  case 0
  then show ?case
    by (auto simp: lock_loop.simps [of 0] Let_def split: prod.splits option.splits intro!: keeps)
next
  case (Suc n)
  show ?case
    using Suc.prems
    by (auto simp: lock_loop.simps [of "Suc n"] Let_def split: prod.splits option.splits intro!: Suc.IH keeps expire)
qed

lemma lockt_loop: "I st \<Longrightarrow> I (snd (lockt_loop n cfg key lo rng x st))"
proof (induction n arbitrary: st)
  case 0
  then show ?case by (auto simp: lockt_loop.simps [of 0] Let_def split: option.splits)
next
  case (Suc n)
  show ?case
    using Suc.prems by (auto simp: lockt_loop.simps [of "Suc n"] Let_def split: option.splits intro!: Suc.IH expire)
qed

lemma lockt: "I st \<Longrightarrow> I (snd (lockt cfg i fsid oid ow x off len st))"
proof -
  assume i: "I st"
  have "I s1" if "lockt_loop 8 cfg (FileKey fsid oid) lo rng x st = (a, s1)" for lo rng a s1
    using lockt_loop [OF i, of 8 "FileKey fsid oid" lo rng x] that by simp
  with i show ?thesis
    unfolding lockt_def Let_def by (auto split: option.splits prod.splits intro!: keeps)
qed

lemma locku: "I st \<Longrightarrow> I (snd (locku cfg sid i off len ex st))"
  unfolding locku_def Let_def by (auto split: sum.splits intro!: keeps bump)

lemma lock_register:
  "I st \<Longrightarrow> (created \<Longrightarrow> minted st r) \<Longrightarrow> I (snd (lock_register cfg c created r st))"
proof -
  assume i: "I st" and m: "created \<Longrightarrow> minted st r"
  have "I (upd_cnt (\<lambda>n. n\<lparr>n_locks := n_locks n + 1\<rparr>) (insert_state r st))" if created
    using i m [OF that] by (auto intro!: keeps insert)
  from register [OF this, of c r] i show ?thesis
    unfolding lock_register_def Let_def
    by (auto split: prod.splits bool.splits intro!: unlink)
qed

lemma lock_finish:
  assumes "I st" and "c < sm_next_cref st"
  shows "I (snd (let st4 = remember_lock_owner lo c ow st;
                    (created, r, st5) = lock_publish cfg args c lo ow p l st4
                in lock_register cfg c created r st5))"
proof -
  let ?s4 = "remember_lock_owner lo c ow st"
  have "I (snd (snd (lock_publish cfg args c lo ow p l ?s4)))"
    using assms by (intro lock_pub) (auto intro!: keeps)
  then show ?thesis
    by (auto simp: Let_def split: prod.splits intro!: lock_register dest: minted_lock)
qed

lemma lock_grant:
  assumes "I st" and "c < sm_next_cref st"
  shows "I (snd (case lock_loop 8 cfg key lo rng x st of
      (Some out, st2) \<Rightarrow> (out, st2)
    | (None, st2) \<Rightarrow>
        (case (if native then lock_push cfg args lo before st2 else (None, st2)) of
           (Some out, st3) \<Rightarrow> (out, st3)
         | (None, st3) \<Rightarrow>
             let st4 = remember_lock_owner lo c ow st3;
                 (created, r, st5) = lock_publish cfg args c lo ow p l st4
             in lock_register cfg c created r st5)))"
proof -
  obtain a s2 where loop: "lock_loop 8 cfg key lo rng x st = (a, s2)" by fastforce
  have s2: "I s2" "c < sm_next_cref s2"
    using lock_loop [OF assms(1), of 8 key lo rng x] next_cref_lock_loop [of 8 cfg key lo rng x st] assms(2)
    unfolding loop by simp_all
  obtain b s3 where push: "(if native then lock_push cfg args lo before s2 else (None, s2)) = (b, s3)" by fastforce
  have "same_core s2 (snd (if native then lock_push cfg args lo before s2 else (None, s2)))"
    by (auto intro!: core_intros)
  then have "same_core s2 s3" unfolding push by simp
  then have s3: "I s3" "c < sm_next_cref s3"
    using core [OF s2(1)] next_cref_core s2(2) by auto
  show ?thesis
    unfolding loop using s2 s3 lock_finish [OF s3, of lo ow args p l] push
    by (cases a; cases b) simp_all
qed

lemma lock_op: "I st \<Longrightarrow> I (snd (lock_op cfg args st))"
proof -
  assume i: "I st"
  have g: "I (snd (lock_gate args c st)) \<and> sm_next_cref (snd (lock_gate args c st)) = sm_next_cref st" for c
    using i unfolding lock_gate_def Let_def split_beta by (auto intro!: keeps)
  have n: "c < sm_next_cref (snd (lock_gate args c st))" if "find_client cfg st (la_clientid args) = Some c" for c
    using bound [OF i that] g by simp
  show ?thesis
    using i g n unfolding lock_op_def Let_def split_beta [of _ "lock_gate _ _ _"]
    by (auto split: option.splits sum.splits intro!: lock_grant [unfolded Let_def])
qed

lemma stats: "I st \<Longrightarrow> I (snd (stats st))"
  unfolding stats_def grace_remaining_any_def Let_def split_beta by (auto intro!: keeps)

lemma reachable_inv: "reachable cfg st \<Longrightarrow> I st"
proof (induction rule: reachable.induct)
  case (start t v)
  show ?case by (intro keeps init)
next
  case (expire_client st i)
  then show ?case unfolding expire_client_def by (intro expire)
qed (intro keeps exchange create sequence destroy open_op check_io close downgrade free maybe_grant delegreturn
      deleg_conflict lock_op lockt locku scan_leases release stats; assumption)+

end

end
