(* ===== verification/StateDemo.thy ===== *)
theory StateDemo
  imports StateFrame
begin

text \<open>
  One run of the state manager, evaluated stage by stage: a client connects, ends its reclaim phase
  and opens a file under two owners.  The properties of the manager are applied to its states.
\<close>

section \<open>Projections\<close>

lemma upd_proj [simp]:
  "sm_clients (upd_client c f st) = (sm_clients st)(c := f (sm_clients st c))"
  "sm_client_idx (upd_client c f st) = sm_client_idx st" "sm_by_id (upd_client c f st) = sm_by_id st"
  "sm_files (upd_client c f st) = sm_files st" "sm_grace_any (upd_client c f st) = sm_grace_any st"
  "sm_next_sref (upd_client c f st) = sm_next_sref st" "sm_srecs (upd_client c f st) = sm_srecs st"
  "sm_states (upd_client c f st) = sm_states st" "sm_next_state (upd_client c f st) = sm_next_state st"
  "sm_sessions (upd_client c f st) = sm_sessions st" "sm_next_session (upd_client c f st) = sm_next_session st"
  "sm_now (upd_client c f st) = sm_now st" "sm_lease_heap (upd_client c f st) = sm_lease_heap st"
  "sm_by_owner (upd_client c f st) = sm_by_owner st" "sm_locks (upd_client c f st) = sm_locks st"
  "sm_clients (upd_cnt g st) = sm_clients st"
  "sm_client_idx (upd_cnt g st) = sm_client_idx st" "sm_by_id (upd_cnt g st) = sm_by_id st"
  "sm_files (upd_cnt g st) = sm_files st" "sm_grace_any (upd_cnt g st) = sm_grace_any st"
  "sm_next_sref (upd_cnt g st) = sm_next_sref st" "sm_srecs (upd_cnt g st) = sm_srecs st"
  "sm_states (upd_cnt g st) = sm_states st" "sm_next_state (upd_cnt g st) = sm_next_state st"
  "sm_sessions (upd_cnt g st) = sm_sessions st" "sm_now (upd_cnt g st) = sm_now st"
  "sm_lease_heap (upd_cnt g st) = sm_lease_heap st" "sm_by_owner (upd_cnt g st) = sm_by_owner st"
  "sm_locks (upd_cnt g st) = sm_locks st" "sm_locks (upd_state r h st) = sm_locks st" "sm_grace_any (upd_state r h st) = sm_grace_any st"
  "sm_clients (upd_state r h st) = sm_clients st" "sm_client_idx (upd_state r h st) = sm_client_idx st"
  "sm_by_id (upd_state r h st) = sm_by_id st" "sm_files (upd_state r h st) = sm_files st"
  "sm_next_sref (upd_state r h st) = sm_next_sref st" "sm_states (upd_state r h st) = sm_states st"
  "sm_next_state (upd_state r h st) = sm_next_state st" "sm_lease_heap (upd_state r h st) = sm_lease_heap st"
  "sm_srecs (upd_state r h st) = (sm_srecs st)(r := h (sm_srecs st r))"
  by (simp_all add: upd_client_def upd_cnt_def upd_state_def)

section \<open>The run\<close>

definition demo_cred :: Cred where
  "demo_cred = \<lparr>cr_auth_sys = False, cr_uid = 0, cr_gid = 0, cr_machine = []\<rparr>"

definition demo_args :: "bytes \<Rightarrow> u32 \<Rightarrow> u32 \<Rightarrow> OpenArgs" where
  "demo_args ow acc den = \<lparr>oa_clientid = 0x100000001, oa_fsid = 1, oa_oid = [5], oa_owner = ow, oa_access = acc,
     oa_deny = den, oa_reclaim = False, oa_deleg_claim = False\<rparr>"

definition demo0 :: StateMgr where "demo0 = (init_mgr 0)\<lparr>sm_stable := \<lambda>_. []\<rparr>"
definition demo1 :: StateMgr where "demo1 = snd (exchange_id default_config [1] [1] [9] False demo0)"
definition demo2 :: StateMgr where
  "demo2 = snd (create_session default_config 0x100000001 1 [9] default_attrs default_attrs 7 None 0 demo_cred 42 demo1)"
definition demo3 :: StateMgr where "demo3 = snd (reclaim_complete default_config 0x100000001 demo2)"
definition demo4 :: StateMgr where "demo4 = snd (open_op default_config (demo_args [3] 1 2) None demo3)"
definition demo5 :: StateMgr where "demo5 = snd (open_op default_config (demo_args [4] 1 0) None demo4)"

definition demo_lock :: LockArgs where
  "demo_lock = \<lparr>la_clientid = 0x100000001, la_fsid = 1, la_oid = [5], la_exclusive = False, la_reclaim = False, la_offset = 0,
     la_length = 10, la_new_owner = True,
     la_open_stateid = \<lparr>sid_seqid = 0, sid_other = [1, 0, 0, 0, 1, 2, 0, 0, 0, 0, 0, 0]\<rparr>, la_owner = [7],
     la_lock_stateid = zero_sid\<rparr>"

definition demo6 :: StateMgr where "demo6 = snd (lock_op default_config demo_lock demo5)"

lemma reachable_demo:
  "reachable default_config demo0" "reachable default_config demo1" "reachable default_config demo2"
  "reachable default_config demo3" "reachable default_config demo4" "reachable default_config demo5"
  "reachable default_config demo6"
proof -
  show 0: "reachable default_config demo0" unfolding demo0_def by (rule reachable.start)
  show 1: "reachable default_config demo1" unfolding demo1_def by (rule reachable.exchange_id [OF 0])
  show 2: "reachable default_config demo2" unfolding demo2_def by (rule reachable.create_session [OF 1])
  show 3: "reachable default_config demo3" unfolding demo3_def by (rule reachable.reclaim_complete [OF 2])
  show 4: "reachable default_config demo4" unfolding demo4_def by (rule reachable.open_op [OF 3])
  show 5: "reachable default_config demo5" unfolding demo5_def by (rule reachable.open_op [OF 4])
  show "reachable default_config demo6" unfolding demo6_def by (rule reachable.lock_op [OF 5])
qed

lemma demo1_client:
  "\<not> cl_confirmed (sm_clients demo1 0) \<and> \<not> cl_courtesy (sm_clients demo1 0) \<and> \<not> cl_expired (sm_clients demo1 0) \<and>
   cl_cs_sequence (sm_clients demo1 0) = 1 \<and> cl_clientid (sm_clients demo1 0) = 0x100000001 \<and>
   cl_principal (sm_clients demo1 0) = [9] \<and> cl_owner_id (sm_clients demo1 0) = [1] \<and>
   \<not> cl_reclaim_complete (sm_clients demo1 0) \<and> cl_states (sm_clients demo1 0) = [] \<and>
   cl_lease_heap_deadline (sm_clients demo1 0) = 90 \<and> cl_sessions (sm_clients demo1 0) = []"
  by code_simp

lemma demo1_tables:
  "sm_client_idx demo1 0x100000001 = Some 0 \<and> sm_by_id demo1 0x100000001 = Some 0 \<and>
   slot_of demo1 [1] = \<lparr>os_confirmed = None, os_unconfirmed = Some 0\<rparr> \<and> sm_files demo1 (FileKey 1 [5]) = None \<and>
   \<not> sm_grace_any demo1 \<and> sm_next_sref demo1 = 0 \<and> sm_states demo1 = [] \<and> sm_next_state demo1 = 1 \<and>
   sm_next_session demo1 = 1 \<and> sm_now demo1 = 0 \<and> sm_lease_heap demo1 = [(90, 0x100000001)]"
  by code_simp

lemma demo1_locks: "sm_locks demo1 = empty_tab"
  by (simp add: demo1_def demo0_def exchange_id_def register_client_def drop_unconfirmed_def slot_of_def init_mgr_def renew_def
      arm_lease_check_def set_slot_def index_client_def erase_slot_def Let_def)

lemma demo_epoch [simp]: "cfg_boot_epoch default_config = 1" "cfg_max_states_per_client default_config = 65536"
  "cfg_lease_seconds default_config = 90" "cfg_max_slots default_config = 32" "\<not> cfg_per_fsid_reclaim default_config"
  by (simp_all add: default_config_def)

lemma demo2_facts:
  "cl_confirmed (sm_clients demo2 0)" "\<not> cl_courtesy (sm_clients demo2 0)" "\<not> cl_expired (sm_clients demo2 0)"
  "cl_states (sm_clients demo2 0) = []" "cl_owner_id (sm_clients demo2 0) = [1]"
  "cl_clientid (sm_clients demo2 0) = 0x100000001" "\<not> cl_reclaim_complete (sm_clients demo2 0)"
  "sm_client_idx demo2 0x100000001 = Some 0" "sm_by_id demo2 0x100000001 = Some 0"
  "sm_files demo2 (FileKey 1 [5]) = None" "\<not> sm_grace_any demo2" "sm_next_sref demo2 = 0" "sm_states demo2 = []"
  "sm_next_state demo2 = 1" "sm_locks demo2 = empty_tab"
  by (simp_all add: demo2_def create_session_def find_client_def demo1_client demo1_tables demo1_locks confirm_client_def add_session_def
      bury_orphans_def new_session_def renew_def Let_def set_slot_def)

lemma demo3_facts:
  "cl_confirmed (sm_clients demo3 0)" "\<not> cl_courtesy (sm_clients demo3 0)" "\<not> cl_expired (sm_clients demo3 0)"
  "cl_states (sm_clients demo3 0) = []" "cl_clientid (sm_clients demo3 0) = 0x100000001"
  "cl_reclaim_complete (sm_clients demo3 0)" "sm_client_idx demo3 0x100000001 = Some 0" "sm_by_id demo3 0x100000001 = Some 0"
  "sm_files demo3 (FileKey 1 [5]) = None" "\<not> sm_grace_any demo3" "sm_next_sref demo3 = 0" "sm_states demo3 = []"
  "sm_next_state demo3 = 1" "sm_locks demo3 = empty_tab"
  by (simp_all add: demo3_def reclaim_complete_def find_client_def demo2_facts note_reclaimed_def Let_def)

section \<open>Opening\<close>

lemma open_loop_settled:
  "open_arbitrate cfg args c h st = (a, st1) \<Longrightarrow> (\<And>i. a \<noteq> ArbCourtesy i) \<Longrightarrow> open_loop n cfg args c h st = (a, st1)"
  by (cases n) (auto split: arbitration.splits)

text \<open>A client that may open: known, confirmed, past its reclaim phase and below its cap, no grace running.\<close>

definition may_open :: "Config \<Rightarrow> StateMgr \<Rightarrow> u64 \<Rightarrow> cref \<Rightarrow> bool" where
  "may_open cfg st i c \<longleftrightarrow>
     find_client cfg st i = Some c \<and> cl_confirmed (sm_clients st c) \<and> \<not> cl_expired (sm_clients st c) \<and>
     cl_reclaim_complete (sm_clients st c) \<and> \<not> sm_grace_any st \<and>
     (cfg_max_states_per_client cfg = 0 \<or>
      int (length (cl_states (sm_clients st c))) < uint (cfg_max_states_per_client cfg))"

lemma open_new:
  assumes may: "may_open cfg st (oa_clientid args) c" and r: "\<not> oa_reclaim args"
    and arb: "fst (open_arbitrate cfg args c h st) = ArbNew r"
  shows "open_op cfg args h st = open_register cfg c r (snd (open_arbitrate cfg args c h st))"
proof -
  obtain st1 where st1: "open_arbitrate cfg args c h st = (ArbNew r, st1)" using arb by (metis prod.collapse)
  from may have g: "in_grace f st = (False, st)" for f by (simp add: may_open_def in_grace_def)
  have gate: "open_gate cfg args c st = (S_Ok, st)"
    using may r by (auto simp: open_gate_def g may_open_def)
  show ?thesis
    using may open_loop_settled [OF st1, of 8] st1 by (simp add: open_op_def may_open_def gate)
qed

lemma demo_args_simps [simp]:
  "oa_clientid (demo_args ow acc den) = 0x100000001" "oa_fsid (demo_args ow acc den) = 1" "oa_oid (demo_args ow acc den) = [5]"
  "oa_owner (demo_args ow acc den) = ow" "oa_access (demo_args ow acc den) = acc" "oa_deny (demo_args ow acc den) = den"
  "\<not> oa_reclaim (demo_args ow acc den)" "\<not> oa_deleg_claim (demo_args ow acc den)"
  by (simp_all add: demo_args_def)

lemma demo4_eq:
  "demo4 = snd (open_register default_config 0 0 (snd (open_arbitrate default_config (demo_args [3] 1 2) 0 None demo3)))"
proof -
  have "may_open default_config demo3 0x100000001 0" by (simp add: may_open_def find_client_def demo3_facts)
  moreover have "fst (open_arbitrate default_config (demo_args [3] 1 2) 0 None demo3) = ArbNew 0"
    by (simp add: open_arbitrate_def demo3_facts empty_file_def open_publish_def new_other_def Let_def)
  ultimately show ?thesis unfolding demo4_def by (subst open_new) auto
qed

lemma demo_other:
  "le_bytes 4 (ucast (cfg_boot_epoch default_config) :: u32) @ [type_byte kOpen] @ take 7 (le_bytes 8 (1 :: u64)) =
   [1, 0, 0, 0, 1, 1, 0, 0, 0, 0, 0, 0]"
  "le_bytes 4 (ucast (cfg_boot_epoch default_config) :: u32) @ [type_byte kOpen] @ take 7 (le_bytes 8 (2 :: u64)) =
   [1, 0, 0, 0, 1, 2, 0, 0, 0, 0, 0, 0]"
  by code_simp+

lemmas demo_open_defs = open_register_def insert_state_def register_state_def track_state_locked_def open_arbitrate_def
  open_publish_def new_other_def empty_file_def Let_def

lemma demo4_facts:
  "cl_confirmed (sm_clients demo4 0)" "\<not> cl_courtesy (sm_clients demo4 0)" "\<not> cl_expired (sm_clients demo4 0)"
  "cl_states (sm_clients demo4 0) = [[1, 0, 0, 0, 1, 1, 0, 0, 0, 0, 0, 0]]" "cl_clientid (sm_clients demo4 0) = 0x100000001"
  "cl_reclaim_complete (sm_clients demo4 0)" "sm_client_idx demo4 0x100000001 = Some 0"
  "sm_files demo4 (FileKey 1 [5]) = Some \<lparr>fl_opens = [0], fl_locks = [], fl_delegs = []\<rparr>"
  "\<not> sm_grace_any demo4" "sm_next_sref demo4 = 1" "sm_next_state demo4 = 2"
  "sm_srecs demo4 0 = new_state\<lparr>sr_other := [1, 0, 0, 0, 1, 1, 0, 0, 0, 0, 0, 0], sr_client := 0, sr_fsid := 1,
     sr_oid := [5], sr_owner := [3], sr_access := 1, sr_deny := 2, sr_bopen := None\<rparr>"
  "sm_states demo4 = [([1, 0, 0, 0, 1, 1, 0, 0, 0, 0, 0, 0], 0)]" "sm_locks demo4 = empty_tab"
  "sm_by_id demo4 0x100000001 = Some 0"
  by (simp_all add: demo4_eq demo_open_defs demo3_facts demo_other [simplified])

lemma demo5_eq:
  "demo5 = snd (open_register default_config 0 1 (snd (open_arbitrate default_config (demo_args [4] 1 0) 0 None demo4)))"
proof -
  have "may_open default_config demo4 0x100000001 0" by (simp add: may_open_def find_client_def demo4_facts)
  moreover have "fst (open_arbitrate default_config (demo_args [4] 1 0) 0 None demo4) = ArbNew 1"
    by (simp add: open_arbitrate_def demo4_facts live_def share_conflict_def new_state_def open_publish_def new_other_def Let_def)
  ultimately show ?thesis unfolding demo5_def by (subst open_new) auto
qed

lemma demo5_facts:
  "\<not> cl_expired (sm_clients demo5 0)" "cl_clientid (sm_clients demo5 0) = 0x100000001" "sm_client_idx demo5 0x100000001 = Some 0"
  "sm_files demo5 (FileKey 1 [5]) = Some \<lparr>fl_opens = [0, 1], fl_locks = [], fl_delegs = []\<rparr>"
  "sm_srecs demo5 0 = new_state\<lparr>sr_other := [1, 0, 0, 0, 1, 1, 0, 0, 0, 0, 0, 0], sr_client := 0, sr_fsid := 1,
     sr_oid := [5], sr_owner := [3], sr_access := 1, sr_deny := 2, sr_bopen := None\<rparr>"
  "sm_srecs demo5 1 = new_state\<lparr>sr_other := [1, 0, 0, 0, 1, 2, 0, 0, 0, 0, 0, 0], sr_client := 0, sr_fsid := 1,
     sr_oid := [5], sr_owner := [4], sr_access := 1, sr_deny := 0, sr_bopen := None\<rparr>"
  "sm_states demo5 = [([1, 0, 0, 0, 1, 1, 0, 0, 0, 0, 0, 0], 0), ([1, 0, 0, 0, 1, 2, 0, 0, 0, 0, 0, 0], 1)]"
  "sm_next_sref demo5 = 2" "sm_locks demo5 = empty_tab" "\<not> sm_grace_any demo5" "cl_confirmed (sm_clients demo5 0)"
  "cl_reclaim_complete (sm_clients demo5 0)" "cl_states (sm_clients demo5 0) = [[1, 0, 0, 0, 1, 2, 0, 0, 0, 0, 0, 0], [1, 0, 0, 0, 1, 1, 0, 0, 0, 0, 0, 0]]" "sm_next_state demo5 = 3" "sm_by_id demo5 0x100000001 = Some 0"
  by (simp_all add: demo5_eq demo_open_defs demo4_facts demo_other [simplified] live_def share_conflict_def new_state_def)

section \<open>Locking\<close>

text \<open>The lock table after the first grant.\<close>

definition demo_tab :: LockTab where
  "demo_tab = snd (lock empty_tab (FileKey 1 [5]) (make_lowner 0x100000001 [7]) \<lparr>rng_offset = 0, rng_length = 10\<rparr> False)"

lemma demo_granted:
  "lock empty_tab (FileKey 1 [5]) (make_lowner 0x100000001 [7]) \<lparr>rng_offset = 0, rng_length = 10\<rparr> False = (None, demo_tab)"
proof -
  have "fst (lock empty_tab (FileKey 1 [5]) (make_lowner 0x100000001 [7]) \<lparr>rng_offset = 0, rng_length = 10\<rparr> False) = None"
    by code_simp
  then show ?thesis unfolding demo_tab_def by (metis prod.collapse)
qed

lemma demo_lock_simps [simp]:
  "la_clientid demo_lock = 0x100000001" "la_fsid demo_lock = 1" "la_oid demo_lock = [5]" "\<not> la_exclusive demo_lock"
  "\<not> la_reclaim demo_lock" "la_offset demo_lock = 0" "la_length demo_lock = 10" "la_new_owner demo_lock" "la_owner demo_lock = [7]"
  "la_open_stateid demo_lock = \<lparr>sid_seqid = 0, sid_other = [1, 0, 0, 0, 1, 2, 0, 0, 0, 0, 0, 0]\<rparr>"
  by (simp_all add: demo_lock_def)

lemma demo_sids:
  "\<not> is_special \<lparr>sid_seqid = 0, sid_other = [1, 0, 0, 0, 1, 2, 0, 0, 0, 0, 0, 0]\<rparr>"
  "\<not> is_all_one \<lparr>sid_seqid = 0, sid_other = [1, 0, 0, 0, 1, 2, 0, 0, 0, 0, 0, 0]\<rparr>"
  "\<not> foreign_epoch default_config \<lparr>sid_seqid = 0, sid_other = [1, 0, 0, 0, 1, 2, 0, 0, 0, 0, 0, 0]\<rparr>"
  "le_bytes 4 (ucast (cfg_boot_epoch default_config) :: u32) @ [type_byte kLock] @ take 7 (le_bytes 8 (3 :: u64)) =
   [1, 0, 0, 0, 2, 3, 0, 0, 0, 0, 0, 0]"
  by code_simp+

lemma demo_native [simp]: "\<not> native_lock_mgr default_config fsid" "cfg_max_lock_segments_per_owner default_config = 1024"
  by (simp_all add: native_lock_mgr_def default_config_def)

definition demo_before :: StateMgr where
  "demo_before = remember_lock_owner (make_lowner 0x100000001 [7]) 0 [7] (demo5\<lparr>sm_locks := demo_tab\<rparr>)"

lemma demo_before_facts:
  "sm_clients demo_before = sm_clients demo5" "sm_files demo_before = sm_files demo5" "sm_srecs demo_before = sm_srecs demo5"
  "sm_states demo_before = sm_states demo5" "sm_next_sref demo_before = 2" "sm_next_state demo_before = 3"
  "sm_locks demo_before = demo_tab"
  by (simp_all add: demo_before_def remember_lock_owner_def demo5_facts)

lemma demo6_eq:
  "demo6 = snd (lock_register default_config 0 True 2
     (snd (snd (lock_publish default_config demo_lock 0 (make_lowner 0x100000001 [7]) [7] (Some 1) None demo_before))))"
proof -
  have pub: "fst (lock_publish default_config demo_lock 0 lo [7] (Some 1) None demo_before)"
      "fst (snd (lock_publish default_config demo_lock 0 lo [7] (Some 1) None demo_before)) = 2" for lo
    by (simp_all add: lock_publish_def lock_mint_def lock_find_rec_def new_other_def demo_before_facts demo5_facts Let_def)
  have "find_client default_config demo5 0x100000001 = Some 0" by (simp add: find_client_def demo5_facts)
  then show ?thesis
    using demo_granted pub
    by (simp add: demo6_def lock_op_def demo5_facts lock_gate_def in_grace_def lock_resolve_def resolve_sid_def
        find_state_def demo_sids new_state_def count_owner_def empty_tab_def lock_loop.simps demo_before_def split_beta Let_def
        del: One_nat_def)
qed

lemma demo6_facts:
  "sm_files demo6 (FileKey 1 [5]) = Some \<lparr>fl_opens = [0, 1], fl_locks = [2], fl_delegs = []\<rparr>"
  "sm_srecs demo6 2 = new_state\<lparr>sr_type := kLock, sr_other := [1, 0, 0, 0, 2, 3, 0, 0, 0, 0, 0, 0], sr_client := 0, sr_fsid := 1,
     sr_oid := [5], sr_owner := [7], sr_lowner := make_lowner 0x100000001 [7], sr_parent_open := Some 1, sr_seqid := 1\<rparr>"
  "sm_srecs demo6 1 = sm_srecs demo5 1"
  "sm_states demo6 = sm_states demo5 @ [([1, 0, 0, 0, 2, 3, 0, 0, 0, 0, 0, 0], 2)]" "sm_locks demo6 = demo_tab"
  "cl_clientid (sm_clients demo6 0) = 0x100000001"
  by (simp_all add: demo6_eq lock_register_def lock_publish_def lock_mint_def lock_find_rec_def new_other_def insert_state_def
      register_state_def track_state_locked_def demo_before_facts demo5_facts demo_sids(4) [simplified] new_state_def Let_def
      del: One_nat_def)

end
