(* ===== verification/StateShare.thy ===== *)
theory StateShare
  imports StateDemo
begin

text \<open>
  Share reservations: on every file, whatever the clients do, the modes of the live opens never
  conflict.  The invariant behind it also says that an owner of a client has at most one live open
  per file.  An interpretation of \<open>mgr_invariant\<close>; the consequences for the IO path follow.
\<close>

section \<open>The invariant\<close>

definition file_opens :: "StateMgr \<Rightarrow> FileKey \<Rightarrow> sref list" where
  "file_opens st k = (case sm_files st k of None \<Rightarrow> [] | Some f \<Rightarrow> fl_opens f)"

text \<open>Two opens that may coexist: no share conflict, and not the same owner of the same client twice.\<close>

definition compatible :: "StateRec \<Rightarrow> StateRec \<Rightarrow> bool" where
  "compatible a b \<longleftrightarrow> \<not> share_conflict (sr_access a) (sr_deny a) b \<and>
     \<not> (sr_client a = sr_client b \<and> sr_owner a = sr_owner b)"

definition opens_ok :: "StateMgr \<Rightarrow> FileKey \<Rightarrow> bool" where
  "opens_ok st k \<longleftrightarrow>
     (\<forall>a\<in>set (file_opens st k). a < sm_next_sref st \<and> sr_client (sm_srecs st a) < sm_next_cref st \<and>
       state_key (sm_srecs st a) = k \<and>
       (\<forall>b\<in>set (file_opens st k). a \<noteq> b \<longrightarrow> live st a \<longrightarrow> live st b \<longrightarrow>
          compatible (sm_srecs st a) (sm_srecs st b)))"

text \<open>The index holds allocated records.\<close>

definition idx_ok :: "StateMgr \<Rightarrow> bool" where
  "idx_ok st \<longleftrightarrow> (\<forall>i c. sm_client_idx st i = Some c \<longrightarrow> c < sm_next_cref st)"

text \<open>No client has the id 0, which the arbitration uses for "no courtesy client".\<close>

definition ids_ok :: "StateMgr \<Rightarrow> bool" where
  "ids_ok st \<longleftrightarrow> (\<forall>c < sm_next_cref st. cl_clientid (sm_clients st c) \<noteq> 0)"

text \<open>The boot epoch is a counter that starts at 1; its low half is part of every client id.\<close>

definition epoch_ok :: "Config \<Rightarrow> bool" where
  "epoch_ok cfg \<longleftrightarrow> push_bit 32 (cfg_boot_epoch cfg) \<noteq> 0"

definition share_inv :: "StateMgr \<Rightarrow> bool" where
  "share_inv st \<longleftrightarrow> (\<forall>k. opens_ok st k) \<and> ids_ok st"

section \<open>Steps that only shrink\<close>

text \<open>
  What every step except the publication of an open and a change of modes does to the opens: the
  existing records keep their owner and modes, records only close, clients only expire, lists only
  shrink.
\<close>

definition same_open :: "StateRec \<Rightarrow> StateRec \<Rightarrow> bool" where
  "same_open a b \<longleftrightarrow> sr_client b = sr_client a \<and> sr_owner b = sr_owner a \<and>
     sr_fsid b = sr_fsid a \<and> sr_oid b = sr_oid a \<and> sr_access b = sr_access a \<and>
     sr_deny b = sr_deny a \<and> (sr_closed a \<longrightarrow> sr_closed b)"

definition shrinks :: "Config \<Rightarrow> StateMgr \<Rightarrow> StateMgr \<Rightarrow> bool" where
  "shrinks cfg st st' \<longleftrightarrow>
     sm_next_sref st \<le> sm_next_sref st' \<and> sm_next_cref st \<le> sm_next_cref st' \<and>
     (\<forall>r < sm_next_sref st. same_open (sm_srecs st r) (sm_srecs st' r)) \<and>
     (\<forall>c < sm_next_cref st. cl_expired (sm_clients st c) \<longrightarrow> cl_expired (sm_clients st' c)) \<and>
     (\<forall>k. set (file_opens st' k) \<subseteq> set (file_opens st k)) \<and>
     (idx_ok st \<longrightarrow> idx_ok st') \<and> (epoch_ok cfg \<longrightarrow> ids_ok st \<longrightarrow> ids_ok st')"

named_theorems shrink_intros \<open>steps that only shrink\<close>

lemma same_open_refl [simp]: "same_open a a"
  by (simp add: same_open_def)

lemma shrinks_refl [shrink_intros]: "shrinks cfg st st"
  by (simp add: shrinks_def)

lemma shrinks_trans: "shrinks cfg a b \<Longrightarrow> shrinks cfg b c \<Longrightarrow> shrinks cfg a c"
  unfolding shrinks_def same_open_def by (auto dest: order_less_le_trans) (meson subsetD)+

lemma shrinks_inv:
  assumes "share_inv st" and q: "shrinks cfg st st'" and e: "epoch_ok cfg"
  shows "share_inv st'"
proof -
  have "opens_ok st' k" for k
    unfolding opens_ok_def
  proof (intro ballI conjI impI)
    fix a assume a': "a \<in> set (file_opens st' k)"
    with q have a: "a \<in> set (file_opens st k)" unfolding shrinks_def by blast
    with assms have ba: "a < sm_next_sref st" "sr_client (sm_srecs st a) < sm_next_cref st"
        "state_key (sm_srecs st a) = k"
      unfolding share_inv_def opens_ok_def by blast+
    with q show "a < sm_next_sref st'" "sr_client (sm_srecs st' a) < sm_next_cref st'"
        "state_key (sm_srecs st' a) = k"
      unfolding shrinks_def same_open_def by auto
    fix b assume b': "b \<in> set (file_opens st' k)"
    with q have b: "b \<in> set (file_opens st k)" unfolding shrinks_def by blast
    with assms have bb: "b < sm_next_sref st" "sr_client (sm_srecs st b) < sm_next_cref st"
      unfolding share_inv_def opens_ok_def by blast+
    assume n: "a \<noteq> b" and l: "live st' a" "live st' b"
    have "live st a" "live st b"
      using l q ba bb unfolding live_def shrinks_def same_open_def by auto
    with assms a b n have "compatible (sm_srecs st a) (sm_srecs st b)"
      unfolding share_inv_def opens_ok_def by blast
    with q ba(1) bb(1) show "compatible (sm_srecs st' a) (sm_srecs st' b)"
      unfolding shrinks_def same_open_def compatible_def share_conflict_def by auto
  qed
  with assms q e show ?thesis unfolding share_inv_def shrinks_def by blast
qed

lemma shrinks_core: "shrinks cfg s st \<Longrightarrow> same_core st st' \<Longrightarrow> shrinks cfg s st'"
  unfolding same_core_def same_client_def shrinks_def same_open_def file_opens_def idx_ok_def ids_ok_def by simp

lemma shrinks_upd_client [shrink_intros]:
  "shrinks cfg s st \<Longrightarrow> (\<And>k. cl_expired k \<Longrightarrow> cl_expired (f k)) \<Longrightarrow> (\<And>k. cl_clientid (f k) = cl_clientid k) \<Longrightarrow>
     shrinks cfg s (upd_client c f st)"
  unfolding upd_client_def shrinks_def file_opens_def idx_ok_def ids_ok_def by auto

lemma shrinks_upd_cnt [shrink_intros]: "shrinks cfg s st \<Longrightarrow> shrinks cfg s (upd_cnt f st)"
  unfolding upd_cnt_def shrinks_def file_opens_def idx_ok_def ids_ok_def by simp

lemma shrinks_upd_state [shrink_intros]:
  "shrinks cfg s st \<Longrightarrow> (\<And>x. same_open x (f x)) \<Longrightarrow> shrinks cfg s (upd_state r f st)"
  unfolding upd_state_def shrinks_def file_opens_def idx_ok_def ids_ok_def same_open_def by auto

lemma shrinks_fields [shrink_intros]:
  "shrinks cfg s st \<Longrightarrow> shrinks cfg s (st\<lparr>sm_states := v1\<rparr>)"
  "shrinks cfg s st \<Longrightarrow> shrinks cfg s (st\<lparr>sm_by_id := v2\<rparr>)"
  "shrinks cfg s st \<Longrightarrow> shrinks cfg s (st\<lparr>sm_by_owner := v3\<rparr>)"
  "shrinks cfg s st \<Longrightarrow> shrinks cfg s (st\<lparr>sm_lease_heap := v4\<rparr>)"
  "shrinks cfg s st \<Longrightarrow> shrinks cfg s (st\<lparr>sm_tasks := v5\<rparr>)"
  "shrinks cfg s st \<Longrightarrow> shrinks cfg s (st\<lparr>sm_recall_watch := v6\<rparr>)"
  "shrinks cfg s st \<Longrightarrow> shrinks cfg s (st\<lparr>sm_locks := v7\<rparr>)"
  unfolding shrinks_def file_opens_def idx_ok_def ids_ok_def by simp_all

lemma shrinks_arm [shrink_intros]: "shrinks cfg s st \<Longrightarrow> shrinks cfg s (arm_lease_check c d st)"
  unfolding arm_lease_check_def Let_def by (auto intro!: shrink_intros)

lemma shrinks_renew [shrink_intros]: "shrinks cfg s st \<Longrightarrow> shrinks cfg s (renew cfg c st)"
  unfolding renew_def Let_def by (auto intro!: shrink_intros)

lemma shrinks_client_steps [shrink_intros]:
  "shrinks cfg s st \<Longrightarrow> shrinks cfg s (clear_owner_slot c st)"
  "shrinks cfg s st \<Longrightarrow> shrinks cfg s (unindex_client i st)"
  "shrinks cfg s st \<Longrightarrow> shrinks cfg s (remove_client i st)"
  "shrinks cfg s st \<Longrightarrow> shrinks cfg s (end_courtesy c st)"
  "shrinks cfg s st \<Longrightarrow> shrinks cfg s (set_slot ow sl st)"
  "shrinks cfg s st \<Longrightarrow> shrinks cfg s (erase_slot ow st)"
proof -
  show idx: "shrinks cfg s st \<Longrightarrow> shrinks cfg s (unindex_client i st)" for s st i
    unfolding unindex_client_def shrinks_def file_opens_def idx_ok_def ids_ok_def by auto
  show "shrinks cfg s st \<Longrightarrow> shrinks cfg s (clear_owner_slot c st)"
    unfolding clear_owner_slot_def Let_def by (auto intro!: shrink_intros split: option.splits)
  show "shrinks cfg s st \<Longrightarrow> shrinks cfg s (remove_client i st)"
    unfolding remove_client_def by (intro shrink_intros idx)
  show "shrinks cfg s st \<Longrightarrow> shrinks cfg s (end_courtesy c st)"
    unfolding end_courtesy_def by (auto intro!: shrink_intros)
  show "shrinks cfg s st \<Longrightarrow> shrinks cfg s (set_slot ow sl st)" "shrinks cfg s st \<Longrightarrow> shrinks cfg s (erase_slot ow st)"
    unfolding set_slot_def erase_slot_def by (intro shrink_intros; assumption)+
qed

lemmas shrinks_cores [shrink_intros] =
  shrinks_core [OF _ same_core_unlink_native [OF same_core_refl]]
  shrinks_core [OF _ same_core_unpersist [OF same_core_refl]]
  shrinks_core [OF _ same_core_forget [OF same_core_refl]]
  same_core_waiters [OF same_core_refl, THEN shrinks_core [rotated]]
  same_core_records [OF same_core_refl, THEN shrinks_core [rotated]]

lemma shrinks_fold [shrink_intros]:
  "shrinks cfg s st \<Longrightarrow> (\<And>x t. shrinks cfg s t \<Longrightarrow> shrinks cfg s (f x t)) \<Longrightarrow> shrinks cfg s (fold f xs st)"
  by (induction xs arbitrary: st) auto

lemma file_opens_upd [simp]:
  "file_opens (st\<lparr>sm_files := (sm_files st)(k \<mapsto> f)\<rparr>) j = (if j = k then fl_opens f else file_opens st j)"
  "file_opens (st\<lparr>sm_files := (sm_files st)(k := None)\<rparr>) j = (if j = k then [] else file_opens st j)"
  by (simp_all add: file_opens_def)

lemma shrinks_files:
  "shrinks cfg s st \<Longrightarrow> set (fl_opens f) \<subseteq> set (file_opens st k) \<Longrightarrow> shrinks cfg s (st\<lparr>sm_files := (sm_files st)(k \<mapsto> f)\<rparr>)"
  "shrinks cfg s st \<Longrightarrow> shrinks cfg s (st\<lparr>sm_files := (sm_files st)(k := None)\<rparr>)"
  unfolding shrinks_def idx_ok_def ids_ok_def by (auto split: if_splits) (meson subsetD)+

lemma shrinks_claim_state: "shrinks cfg s st \<Longrightarrow> unlink_claim r st = Some (h, st1) \<Longrightarrow> shrinks cfg s st1"
  by (auto simp: unlink_claim_def Let_def same_open_def split: if_splits intro!: shrink_intros)

lemma shrinks_unlink_file: "shrinks cfg s st \<Longrightarrow> shrinks cfg s (snd (unlink_file r st))"
  by (auto simp: unlink_file_def Let_def file_opens_def split: option.splits StateType.splits if_splits
      intro!: shrink_intros shrinks_files)

lemma shrinks_unlink_ranges: "shrinks cfg s st \<Longrightarrow> shrinks cfg s (unlink_ranges cfg r ho st)"
  by (auto simp: unlink_ranges_def Let_def split: StateType.splits intro!: shrink_intros)

lemma shrinks_unlink_client: "shrinks cfg s st \<Longrightarrow> shrinks cfg s (unlink_client cfg r fc ho st)"
  by (auto simp: unlink_client_def untrack_state_locked_def Let_def split_beta
      split: option.splits if_splits intro!: shrink_intros)

lemmas shrinks_unlink_parts = shrinks_unlink_file shrinks_unlink_ranges shrinks_unlink_client

lemma shrinks_unlink_leaf: "shrinks cfg s st \<Longrightarrow> shrinks cfg s (snd (unlink_leaf cfg r fc ho st))"
  by (auto simp: unlink_leaf_def Let_def split_beta split: option.splits
      intro!: shrinks_unlink_parts dest: shrinks_claim_state)

lemma shrinks_unlink: "shrinks cfg s st \<Longrightarrow> shrinks cfg s (snd (unlink_state cfg r fc ho st))"
  by (auto simp: unlink_state_def Let_def split_beta split: option.splits
      intro!: shrinks_unlink_parts shrinks_unlink_leaf shrinks_fold dest: shrinks_claim_state)

lemma shrinks_expire_claim: "shrinks cfg s st \<Longrightarrow> shrinks cfg s (snd (expire_claim cfg i st))"
  unfolding expire_claim_def Let_def by (auto split: option.splits intro!: shrink_intros)

lemma shrinks_destroy: "shrinks cfg s st \<Longrightarrow> shrinks cfg s (snd (destroy_clientid cfg i st))"
  unfolding destroy_clientid_def by (auto split: option.splits intro!: shrink_intros)

lemma shrinks_confirm: "shrinks cfg s st \<Longrightarrow> shrinks cfg s (snd (confirm_client c st))"
  unfolding confirm_client_def Let_def split_beta by (auto split: option.splits intro!: shrink_intros)

lemma shrinks_recall: "shrinks cfg s st \<Longrightarrow> shrinks cfg s (start_recall cfg r st)"
  unfolding start_recall_def Let_def by (auto simp: same_open_def intro!: shrink_intros)

lemma shrinks_insert: "shrinks cfg s st \<Longrightarrow> shrinks cfg s (insert_state r st)"
  unfolding insert_state_def by (intro shrink_intros)

lemma shrinks_register: "shrinks cfg s st \<Longrightarrow> shrinks cfg s (snd (register_state cfg c r st))"
  unfolding register_state_def track_state_locked_def Let_def split_beta by (auto intro!: shrink_intros)

text \<open>Allocation of a client or of a state that is not an open.\<close>

lemma shrinks_new_client:
  "shrinks cfg s st \<Longrightarrow> (epoch_ok cfg \<Longrightarrow> cl_clientid k \<noteq> 0) \<Longrightarrow> shrinks cfg s (st\<lparr>sm_next_client := n, sm_next_cref := Suc (sm_next_cref st),
     sm_clients := (sm_clients st)(sm_next_cref st := k)\<rparr>)"
  unfolding shrinks_def file_opens_def idx_ok_def ids_ok_def by (auto simp: less_Suc_eq)

lemma shrinks_new_state:
  assumes s: "shrinks cfg s st" and f: "set (fl_opens f) \<subseteq> set (file_opens st k)"
  shows "shrinks cfg s (st\<lparr>sm_next_state := n, sm_next_sref := Suc (sm_next_sref st),
    sm_srecs := (sm_srecs st)(sm_next_sref st := x), sm_files := (sm_files st)(k \<mapsto> f)\<rparr>)"
proof -
  have "shrinks cfg s (st\<lparr>sm_next_state := n, sm_next_sref := Suc (sm_next_sref st),
    sm_srecs := (sm_srecs st)(sm_next_sref st := x)\<rparr>)" (is "shrinks cfg s ?t")
    using s unfolding shrinks_def file_opens_def idx_ok_def ids_ok_def by auto
  moreover have "file_opens ?t k = file_opens st k" by (simp add: file_opens_def)
  ultimately show ?thesis using shrinks_files(1) [of cfg s ?t f k] f by simp
qed

lemma shrinks_index:
  "shrinks cfg s st \<Longrightarrow> c < sm_next_cref st \<Longrightarrow> shrinks cfg s (index_client c st)"
  unfolding shrinks_def file_opens_def idx_ok_def ids_ok_def index_client_def by auto

lemma next_cref_renew [simp]: "sm_next_cref (renew cfg c st) = sm_next_cref st"
  by (simp add: renew_def arm_lease_check_def Let_def)

lemma next_cref_slot [simp]: "sm_next_cref (set_slot ow sl st) = sm_next_cref st"
  by (simp add: set_slot_def)

lemma new_clientid_nonzero: "epoch_ok cfg \<Longrightarrow> push_bit 32 (cfg_boot_epoch cfg) OR x \<noteq> 0"
  by (simp add: epoch_ok_def or_eq_0_iff)

lemma shrinks_register_client:
  "shrinks cfg s st \<Longrightarrow> shrinks cfg s (snd (register_client cfg ow ver princ st))"
  unfolding register_client_def Let_def
  by (auto intro!: shrink_intros shrinks_index shrinks_new_client simp: new_clientid_nonzero)

lemma shrinks_drop_unconfirmed: "shrinks cfg s st \<Longrightarrow> shrinks cfg s (drop_unconfirmed ow st)"
  unfolding drop_unconfirmed_def by (auto split: option.splits intro!: shrink_intros)

lemma shrinks_exchange: "shrinks cfg s st \<Longrightarrow> shrinks cfg s (snd (exchange_id cfg ow ver princ upd st))"
  unfolding exchange_id_def exchange_update_def exchange_confirmed_def Let_def split_beta
  by (auto split: option.splits intro!: shrink_intros shrinks_register_client shrinks_drop_unconfirmed)

lemma shrinks_publish_deleg: "shrinks cfg s st \<Longrightarrow> shrinks cfg s (snd (publish_deleg cfg c fsid oid fh st))"
  unfolding publish_deleg_def new_deleg_def new_other_def Let_def
  by (auto simp: file_opens_def empty_file_def split: option.splits intro!: shrinks_new_state)

lemma shrinks_lock_publish: "shrinks cfg s st \<Longrightarrow> shrinks cfg s (snd (snd (lock_publish cfg la c lo ow p l st)))"
  unfolding lock_publish_def lock_mint_def new_other_def Let_def
  by (auto simp: file_opens_def empty_file_def same_open_def split: option.splits
      intro!: shrinks_new_state shrinks_upd_state shrinks_upd_cnt shrinks_files)

lemma shrinks_scan_locked: "shrinks cfg s st \<Longrightarrow> shrinks cfg s (scan_locked cfg now c st)"
  unfolding scan_locked_def Let_def by (auto intro!: shrink_intros)

lemma shrinks_pop_due: "shrinks cfg s st \<Longrightarrow> shrinks cfg s (snd (pop_due now heap st))"
proof (induction now heap st rule: pop_due.induct)
  case (2 now w i heap st)
  moreover have "shrinks cfg s (upd_client c (\<lambda>k. k\<lparr>cl_lease_heap_deadline := -1\<rparr>) st)" for c
    using 2 by (intro shrink_intros) simp_all
  ultimately show ?case
    by (auto simp: Let_def split_beta split: option.splits intro!: shrink_intros)
qed (auto intro!: shrink_intros)

lemma shrinks_scan: "shrinks cfg s st \<Longrightarrow> shrinks cfg s (snd (scan_due cfg st))"
proof -
  have step: "shrinks cfg s (snd a) \<Longrightarrow> shrinks cfg s (snd (scan_client cfg now c a))" for now c a
    by (auto simp: scan_client_def Let_def split: prod.splits intro!: shrink_intros shrinks_scan_locked)
  have loop: "shrinks cfg s (snd a) \<Longrightarrow> shrinks cfg s (snd (fold (scan_client cfg now) due a))" for now due a
    by (induction due arbitrary: a) (simp_all add: step)
  have "shrinks cfg s st \<Longrightarrow> shrinks cfg s (snd (fold (scan_client cfg now) due ([], snd (pop_due now heap st))))" for now due heap
    by (rule loop) (simp add: shrinks_pop_due)
  then show "shrinks cfg s st \<Longrightarrow> ?thesis"
    unfolding scan_due_def Let_def split_beta by simp
qed

section \<open>The steps that change the opens\<close>

lemma share_conflict_sym:
  "share_conflict (sr_access a) (sr_deny a) b = share_conflict (sr_access b) (sr_deny b) a"
  by (auto simp: share_conflict_def and.commute)

lemma compatible_sym: "compatible a b = compatible b a"
  using share_conflict_sym by (auto simp: compatible_def)

text \<open>A scan without conflict has compared the request with every live open that is not its own.\<close>

lemma scan_clear:
  assumes "scan_opens st c args mine rs = (m, False, 0)" and "\<forall>r\<in>set rs. cl_clientid (client_of st r) \<noteq> 0"
    and "r \<in> set rs" and "live st r" and "\<not> (sr_client (sm_srecs st r) = c \<and> sr_owner (sm_srecs st r) = oa_owner args)"
  shows "\<not> share_conflict (oa_access args) (oa_deny args) (sm_srecs st r)"
  using assms by (induction rs arbitrary: mine) (auto simp: Let_def split: if_splits)

lemma scan_mine:
  assumes "scan_opens st c args mine rs = (m, False, 0)" and "\<forall>r\<in>set rs. cl_clientid (client_of st r) \<noteq> 0"
  shows "(m = mine \<and> (\<forall>r\<in>set rs. live st r \<longrightarrow> \<not> (sr_client (sm_srecs st r) = c \<and> sr_owner (sm_srecs st r) = oa_owner args)))
    \<or> (\<exists>r\<in>set rs. m = Some r \<and> live st r \<and> sr_client (sm_srecs st r) = c \<and> sr_owner (sm_srecs st r) = oa_owner args)"
  using assms by (induction rs arbitrary: mine) (auto simp: Let_def split: if_splits)

lemma share_conflict_or:
  "share_conflict (a OR a') (d OR d') b \<longleftrightarrow> share_conflict a d b \<or> share_conflict a' d' b"
  by (auto simp: share_conflict_def bit.conj_disj_distrib2 or_eq_0_iff)

text \<open>Changing the modes of one record to modes that fit all other live opens of its file.\<close>

lemma share_modes:
  assumes inv: "share_inv st"
    and fit: "\<And>b. b \<in> set (file_opens st (state_key (sm_srecs st r))) \<Longrightarrow> b \<noteq> r \<Longrightarrow> live st r \<Longrightarrow> live st b \<Longrightarrow>
      r \<in> set (file_opens st (state_key (sm_srecs st r))) \<Longrightarrow> \<not> share_conflict a d (sm_srecs st b)"
  shows "share_inv (upd_state r (\<lambda>x. x\<lparr>sr_access := a, sr_deny := d, sr_seqid := q\<rparr>) st)" (is "share_inv ?st")
proof -
  let ?new = "(sm_srecs st r)\<lparr>sr_access := a, sr_deny := d, sr_seqid := q\<rparr>"
  have recs: "sm_srecs ?st x = (if x = r then ?new else sm_srecs st x)" for x
    by (simp add: upd_state_def)
  have opens: "file_opens ?st = file_opens st" by (simp add: upd_state_def file_opens_def fun_eq_iff)
  have live: "live ?st x = live st x" for x by (simp add: live_def upd_state_def)
  have lim: "sm_next_sref ?st = sm_next_sref st" "sm_next_cref ?st = sm_next_cref st"
    by (simp_all add: upd_state_def)
  have "opens_ok ?st k" for k
    unfolding opens_ok_def opens live lim
  proof (intro ballI conjI impI)
    fix x assume x: "x \<in> set (file_opens st k)"
    with inv have xk: "x < sm_next_sref st" "sr_client (sm_srecs st x) < sm_next_cref st" "state_key (sm_srecs st x) = k"
      unfolding share_inv_def opens_ok_def by blast+
    then show "x < sm_next_sref st" "sr_client (sm_srecs ?st x) < sm_next_cref st" "state_key (sm_srecs ?st x) = k"
      by (auto simp: recs)
    fix y assume y: "y \<in> set (file_opens st k)" and n: "x \<noteq> y" and l: "live st x" "live st y"
    with inv have yk: "state_key (sm_srecs st y) = k" unfolding share_inv_def opens_ok_def by blast
    from inv x y n l have old: "compatible (sm_srecs st x) (sm_srecs st y)"
      unfolding share_inv_def opens_ok_def by blast
    have c1: "compatible ?new (sm_srecs st z)"
      if "compatible (sm_srecs st r) (sm_srecs st z)" "\<not> share_conflict a d (sm_srecs st z)" for z
      using that by (simp add: compatible_def)
    consider "x = r" | "y = r" | "x \<noteq> r" "y \<noteq> r" by blast
    then show "compatible (sm_srecs ?st x) (sm_srecs ?st y)"
    proof cases
      case 1
      with fit [of y] x y n l xk have "\<not> share_conflict a d (sm_srecs st y)" by simp
      with c1 [of y] 1 old n show ?thesis by (simp add: recs)
    next
      case 2
      with fit [of x] x y n l yk have "\<not> share_conflict a d (sm_srecs st x)" by simp
      with c1 [of x] 2 old n have "compatible ?new (sm_srecs st x)" by (simp add: compatible_sym)
      with 2 n show ?thesis by (simp add: recs compatible_sym)
    next
      case 3
      with old show ?thesis by (simp add: recs)
    qed
  qed
  moreover have "ids_ok ?st" using inv by (simp add: share_inv_def idx_ok_def ids_ok_def upd_state_def)
  ultimately show ?thesis by (simp add: share_inv_def)
qed

text \<open>Publishing a fresh record whose modes and owner fit all live opens of its file.\<close>

lemma share_new:
  assumes inv: "share_inv st" and new: "r = sm_next_sref st" and c: "sr_client x < sm_next_cref st"
    and key: "state_key x = k" and fl: "fl_opens f = file_opens st k @ [r]"
    and fit: "\<And>b. b \<in> set (file_opens st k) \<Longrightarrow> live st b \<Longrightarrow> compatible x (sm_srecs st b)"
  shows "share_inv (st\<lparr>sm_next_state := n, sm_next_sref := Suc r, sm_srecs := (sm_srecs st)(r := x),
    sm_files := (sm_files st)(k \<mapsto> f)\<rparr>)" (is "share_inv ?st")
proof -
  have opens: "file_opens ?st j = (if j = k then file_opens st k @ [r] else file_opens st j)" for j
    using fl by (simp add: file_opens_def)
  have old: "b < r \<and> sr_client (sm_srecs st b) < sm_next_cref st \<and> state_key (sm_srecs st b) = j"
    if "b \<in> set (file_opens st j)" for b j
    using inv that new unfolding share_inv_def opens_ok_def by blast
  have recs: "sm_srecs ?st b = sm_srecs st b" "live ?st b = live st b" if "b < r" for b
    using that by (simp_all add: live_def)
  have recr: "sm_srecs ?st r = x" by simp
  have "opens_ok ?st j" for j
    unfolding opens_ok_def
  proof (intro ballI conjI impI)
    fix a assume a: "a \<in> set (file_opens ?st j)"
    then have ca: "a \<in> set (file_opens st j) \<or> a = r \<and> j = k" by (auto simp: opens split: if_splits)
    then show "a < sm_next_sref ?st" "sr_client (sm_srecs ?st a) < sm_next_cref ?st" "state_key (sm_srecs ?st a) = j"
      using old [of a j] c key new by auto
    fix b assume b: "b \<in> set (file_opens ?st j)" and n: "a \<noteq> b" and l: "live ?st a" "live ?st b"
    then have cb: "b \<in> set (file_opens st j) \<or> b = r \<and> j = k" by (auto simp: opens split: if_splits)
    consider "a \<in> set (file_opens st j)" "b \<in> set (file_opens st j)" | "a = r" "j = k" "b \<in> set (file_opens st k)"
      | "b = r" "j = k" "a \<in> set (file_opens st k)"
      using ca cb n by blast
    then show "compatible (sm_srecs ?st a) (sm_srecs ?st b)"
    proof cases
      case 1
      with old [of a j] old [of b j] l have "live st a" "live st b" by (simp_all add: recs)
      with 1 inv n have "compatible (sm_srecs st a) (sm_srecs st b)" unfolding share_inv_def opens_ok_def by blast
      with old [OF 1(1)] old [OF 1(2)] show ?thesis by simp
    next
      case 2
      with old [of b k] l have "b < r" "live st b" by (simp_all add: recs)
      with fit [of b] 2 show ?thesis by simp
    next
      case 3
      with old [of a k] l have "a < r" "live st a" by (simp_all add: recs)
      with fit [of a] 3 show ?thesis by (simp add: compatible_sym)
    qed
  qed
  moreover have "ids_ok ?st" using inv by (simp add: share_inv_def idx_ok_def ids_ok_def)
  ultimately show ?thesis by (simp add: share_inv_def)
qed

lemma share_conflict_mono:
  assumes "acc AND NOT a = 0" and "den AND NOT d = 0"
  shows "share_conflict acc den x \<Longrightarrow> share_conflict a d x"
proof -
  have "u AND y \<noteq> 0 \<Longrightarrow> v AND y \<noteq> 0" if "u AND NOT v = 0" for u v y :: u32
  proof -
    have "u = (u AND v) OR (u AND NOT v)" by (simp only: bit.conj_disj_distrib [symmetric] bit.disj_cancel_right) simp
    then have "u = u AND v" by (simp add: that)
    then show "u AND y \<noteq> 0 \<Longrightarrow> v AND y \<noteq> 0" by (metis and.assoc and_zero_eq)
  qed
  from this [OF assms(1)] this [OF assms(2)] show "share_conflict acc den x \<Longrightarrow> share_conflict a d x"
    by (auto simp: share_conflict_def)
qed

lemma ids_nonzero:
  assumes "share_inv st" and "r \<in> set (file_opens st k)"
  shows "cl_clientid (client_of st r) \<noteq> 0"
  using assms unfolding share_inv_def opens_ok_def idx_ok_def ids_ok_def by metis

lemma epoch_ok_default: "epoch_ok default_config"
  by (simp add: epoch_ok_def default_config_def)

lemmas shrinks_inv' = shrinks_inv [OF _ _ epoch_ok_default]

lemma share_cnt: "share_inv st \<Longrightarrow> share_inv (upd_cnt f st)"
  using shrinks_inv' [OF _ shrinks_upd_cnt [OF shrinks_refl]] .

lemma share_keyD: "share_inv st \<Longrightarrow> a \<in> set (file_opens st k) \<Longrightarrow> state_key (sm_srecs st a) = k"
  by (simp add: share_inv_def opens_ok_def)

lemma share_compatD:
  assumes "share_inv st" and "a \<in> set (file_opens st k)" and "b \<in> set (file_opens st k)" and "a \<noteq> b"
    and "live st a" and "live st b"
  shows "compatible (sm_srecs st a) (sm_srecs st b)"
  using assms(1) [unfolded share_inv_def opens_ok_def] assms(2-) by simp

lemma share_merge:
  assumes inv: "share_inv st" and scan: "scan_opens st c args None (file_opens st k) = (Some r, False, 0)"
  shows "share_inv (open_merge args r st)"
proof -
  have ids: "\<forall>x\<in>set (file_opens st k). cl_clientid (client_of st x) \<noteq> 0" using ids_nonzero [OF inv] by blast
  from scan_mine [OF scan ids] have r: "r \<in> set (file_opens st k)" "live st r" "sr_client (sm_srecs st r) = c"
      "sr_owner (sm_srecs st r) = oa_owner args" by auto
  have key: "state_key (sm_srecs st r) = k" by (rule share_keyD [OF inv r(1)])
  let ?a = "sr_access (sm_srecs st r) OR oa_access args" and ?d = "sr_deny (sm_srecs st r) OR oa_deny args"
  have "share_inv (upd_state r (\<lambda>x. x\<lparr>sr_access := ?a, sr_deny := ?d, sr_seqid := sr_seqid (sm_srecs st r) + 1\<rparr>) st)"
  proof (rule share_modes [OF inv], unfold key)
    fix b assume b: "b \<in> set (file_opens st k)" "b \<noteq> r" "live st b"
    then have "compatible (sm_srecs st r) (sm_srecs st b)" by (intro share_compatD [OF inv r(1)] r) auto
    with scan_clear [OF scan ids b(1,3)] r(3,4)
    show "\<not> share_conflict ?a ?d (sm_srecs st b)" by (auto simp: compatible_def share_conflict_or)
  qed
  then show ?thesis
    unfolding open_merge_def by (intro share_cnt) (simp add: upd_state_def)
qed

lemma share_publish:
  assumes inv: "share_inv st" and c: "c < sm_next_cref st"
    and scan: "scan_opens st c args None (file_opens st k) = (None, False, 0)"
    and k: "k = FileKey (oa_fsid args) (oa_oid args)" and fl: "fl_opens fl = file_opens st k"
  shows "share_inv (snd (open_publish cfg args c h fl st))"
proof -
  have ids: "\<forall>x\<in>set (file_opens st k). cl_clientid (client_of st x) \<noteq> 0" using ids_nonzero [OF inv] by blast
  let ?x = "new_state\<lparr>sr_other := fst (new_other cfg kOpen st), sr_client := c, sr_fsid := oa_fsid args, sr_oid := oa_oid args,
    sr_owner := oa_owner args, sr_access := oa_access args, sr_deny := oa_deny args, sr_bopen := h\<rparr>"
  have "share_inv (st\<lparr>sm_next_state := sm_next_state st + 1, sm_next_sref := Suc (sm_next_sref st),
      sm_srecs := (sm_srecs st)(sm_next_sref st := ?x),
      sm_files := (sm_files st)(k \<mapsto> fl\<lparr>fl_opens := fl_opens fl @ [sm_next_sref st]\<rparr>)\<rparr>)"
  proof (rule share_new [OF inv refl])
    fix b assume b: "b \<in> set (file_opens st k)" "live st b"
    with scan_mine [OF scan ids] have o: "\<not> (sr_client (sm_srecs st b) = c \<and> sr_owner (sm_srecs st b) = oa_owner args)"
      by auto
    with scan_clear [OF scan ids b] show "compatible ?x (sm_srecs st b)" by (auto simp: compatible_def)
  qed (simp_all add: c k fl)
  then show ?thesis
    unfolding open_publish_def new_other_def Let_def k by (auto intro: share_cnt)
qed

lemma share_arbitrate:
  assumes inv: "share_inv st" and c: "c < sm_next_cref st"
  shows "share_inv (snd (open_arbitrate cfg args c h st))"
proof -
  let ?k = "FileKey (oa_fsid args) (oa_oid args)"
  define fl where "fl = (case sm_files st ?k of None \<Rightarrow> empty_file | Some f \<Rightarrow> f)"
  define st0 where "st0 = st\<lparr>sm_files := (sm_files st)(?k \<mapsto> fl)\<rparr>"
  have fl_opens: "fl_opens fl = file_opens st ?k"
    by (simp add: fl_def file_opens_def empty_file_def split: option.splits)
  have "shrinks default_config st st0" unfolding st0_def by (intro shrinks_files shrinks_refl) (simp add: fl_opens)
  then have inv0: "share_inv st0" using shrinks_inv' [OF inv] by blast
  have opens0: "fl_opens fl = file_opens st0 ?k" by (simp add: st0_def)
  have c0: "c < sm_next_cref st0" using c by (simp add: st0_def)
  have "shrinks default_config st0 (st0\<lparr>sm_files := (sm_files st0)(?k := None)\<rparr>)" by (intro shrinks_files shrinks_refl)
  then have del: "share_inv (st0\<lparr>sm_files := (sm_files st0)(?k := None)\<rparr>)"
    using shrinks_inv' [OF inv0] by blast
  show ?thesis
    using share_merge [OF inv0, of c args ?k] share_publish [OF inv0 c0, of args ?k fl cfg h] inv0 del opens0
    unfolding open_arbitrate_def Let_def fl_def [symmetric] st0_def [symmetric]
    by (cases "scan_opens st0 c args None (fl_opens fl)") (auto simp: split_beta share_cnt split: option.splits)
qed

lemma share_downgrade:
  assumes inv: "share_inv st"
  shows "share_inv (snd (open_downgrade cfg sid i acc den ex st))"
proof (cases "downgrade_check cfg sid i acc den ex st")
  case (Inr r)
  let ?x = "sm_srecs st r"
  from Inr have sub: "acc AND NOT (sr_access ?x) = 0" "den AND NOT (sr_deny ?x) = 0"
    by (auto simp: downgrade_check_def Let_def split: sum.splits if_splits)
  have "share_inv (upd_state r (\<lambda>x. x\<lparr>sr_access := acc, sr_deny := den, sr_seqid := sr_seqid ?x + 1\<rparr>) st)"
  proof (rule share_modes [OF inv])
    fix b assume "b \<in> set (file_opens st (state_key ?x))" "b \<noteq> r" "live st r" "live st b" "r \<in> set (file_opens st (state_key ?x))"
    then have "compatible ?x (sm_srecs st b)" by (intro share_compatD [OF inv]) auto
    then have "\<not> share_conflict (sr_access ?x) (sr_deny ?x) (sm_srecs st b)" by (simp add: compatible_def)
    then show "\<not> share_conflict acc den (sm_srecs st b)"
      using share_conflict_mono [OF sub] by blast
  qed
  with Inr show ?thesis
    by (simp add: open_downgrade_def downgrade_apply_def upd_state_def Let_def)
qed (simp add: open_downgrade_def inv)

section \<open>The invariant of the manager\<close>

definition mgr_share_ok :: "Config \<Rightarrow> StateMgr \<Rightarrow> bool" where
  "mgr_share_ok cfg st \<longleftrightarrow> idx_ok st \<and> (epoch_ok cfg \<longrightarrow> share_inv st)"

lemma shrinks_ok: "mgr_share_ok cfg st \<Longrightarrow> shrinks cfg st st' \<Longrightarrow> mgr_share_ok cfg st'"
  using shrinks_inv unfolding mgr_share_ok_def shrinks_def by blast

lemmas shrinks_steps =
  shrinks_core shrinks_renew shrinks_exchange shrinks_confirm shrinks_expire_claim shrinks_destroy shrinks_unlink
  shrinks_recall shrinks_insert shrinks_register shrinks_publish_deleg shrinks_lock_publish shrinks_scan

lemma idx_arbitrate: "idx_ok st \<Longrightarrow> idx_ok (snd (open_arbitrate cfg args c h st))"
  by (auto simp: idx_ok_def open_arbitrate_def open_merge_def open_publish_def new_other_def upd_cnt_def upd_state_def
      Let_def split_beta split: option.splits)

lemma idx_downgrade: "idx_ok st \<Longrightarrow> idx_ok (snd (open_downgrade cfg sid i acc den ex st))"
  by (auto simp: idx_ok_def open_downgrade_def downgrade_apply_def upd_state_def Let_def split: sum.splits)

interpretation share: mgr_invariant cfg "mgr_share_ok cfg" for cfg
proof (unfold_locales, goal_cases)
  case 1
  show ?case
    by (simp add: mgr_share_ok_def share_inv_def opens_ok_def file_opens_def idx_ok_def ids_ok_def init_mgr_def)
next
  case (3 st i c)
  then show ?case by (auto simp: mgr_share_ok_def idx_ok_def find_client_def split: if_splits)
next
  case (10 st c args h)
  then show ?case using share_arbitrate idx_arbitrate by (auto simp: mgr_share_ok_def)
next
  case (16 st r)
  show ?case
    by (rule shrinks_ok [OF 16]) (auto simp: same_open_def intro!: shrinks_upd_state shrinks_refl)
next
  case (17 st sid i acc den ex)
  then show ?case using share_downgrade idx_downgrade by (auto simp: mgr_share_ok_def)
qed (erule shrinks_ok; rule shrinks_steps [OF shrinks_refl]; assumption?)+

section \<open>Properties\<close>



end
