(* ===== verification/StateTable.thy ===== *)
theory StateTable
  imports StateShare
begin

text \<open>
  The stateid half of the manager: the records, the stateid table and the file index.  The locale
  \<open>sid_invariant\<close> is the contract of an invariant that depends on that half only; it extends to
  \<open>mgr_invariant\<close> because the client operations leave the half alone.  Two interpretations: the
  stateid table points to open records that their files list, and stateids are never reused.
\<close>

section \<open>Steps that leave the stateids alone\<close>

definition same_sids :: "StateMgr \<Rightarrow> StateMgr \<Rightarrow> bool" where
  "same_sids st st' \<longleftrightarrow>
     sm_srecs st' = sm_srecs st \<and> sm_next_sref st' = sm_next_sref st \<and> sm_states st' = sm_states st \<and>
     sm_files st' = sm_files st \<and> sm_next_state st' = sm_next_state st"

named_theorems sids_intros \<open>steps that leave the stateids alone\<close>

lemma same_sids_refl [sids_intros]: "same_sids st st"
  by (simp add: same_sids_def)

lemma same_sids_core: "same_sids s st \<Longrightarrow> same_core st st' \<Longrightarrow> same_sids s st'"
  by (simp add: same_sids_def same_core_def)

lemma same_sids_upd [sids_intros]:
  "same_sids s st \<Longrightarrow> same_sids s (upd_client c f st)"
  "same_sids s st \<Longrightarrow> same_sids s (upd_cnt g st)"
  "same_sids s st \<Longrightarrow> same_sids s (st\<lparr>sm_by_id := v1\<rparr>)"
  "same_sids s st \<Longrightarrow> same_sids s (st\<lparr>sm_by_owner := v2\<rparr>)"
  "same_sids s st \<Longrightarrow> same_sids s (st\<lparr>sm_lease_heap := v3\<rparr>)"
  "same_sids s st \<Longrightarrow> same_sids s (st\<lparr>sm_client_idx := v4\<rparr>)"
  "same_sids s st \<Longrightarrow> same_sids s (st\<lparr>sm_next_client := v5, sm_next_cref := v6, sm_clients := v7\<rparr>)"
  by (simp_all add: same_sids_def)

lemmas same_sids_cores [sids_intros] =
  same_sids_core [OF _ same_core_unpersist [OF same_core_refl]]
  same_sids_core [OF _ same_core_forget [OF same_core_refl]]
  same_core_records [OF same_core_refl, THEN same_sids_core [rotated]]

lemma same_sids_client_steps [sids_intros]:
  "same_sids s st \<Longrightarrow> same_sids s (arm_lease_check c d st)"
  "same_sids s st \<Longrightarrow> same_sids s (renew cfg c st)"
  "same_sids s st \<Longrightarrow> same_sids s (clear_owner_slot c st)"
  "same_sids s st \<Longrightarrow> same_sids s (remove_client i st)"
  "same_sids s st \<Longrightarrow> same_sids s (end_courtesy c st)"
  "same_sids s st \<Longrightarrow> same_sids s (set_slot ow sl st)"
  "same_sids s st \<Longrightarrow> same_sids s (erase_slot ow st)"
  "same_sids s st \<Longrightarrow> same_sids s (index_client c st)"
  unfolding arm_lease_check_def renew_def clear_owner_slot_def remove_client_def unindex_client_def end_courtesy_def
    set_slot_def erase_slot_def index_client_def Let_def
  by (auto simp: same_sids_def split: option.splits)

lemma same_sids_ops:
  "same_sids st (snd (exchange_id cfg ow ver princ upd st))"
  "same_sids st (snd (confirm_client c st))"
  "same_sids st (snd (expire_claim cfg i st))"
  "same_sids st (snd (destroy_clientid cfg i st))"
  "same_sids st (snd (register_state cfg c r st))"
proof -
  have reg: "same_sids s t \<Longrightarrow> same_sids s (snd (register_client cfg ow ver princ t))" for s t ver princ
    unfolding register_client_def Let_def by (auto intro!: sids_intros)
  have drop: "same_sids s t \<Longrightarrow> same_sids s (drop_unconfirmed ow t)" for s t
    unfolding drop_unconfirmed_def by (auto split: option.splits intro!: sids_intros)
  show "same_sids st (snd (exchange_id cfg ow ver princ upd st))"
    unfolding exchange_id_def exchange_update_def exchange_confirmed_def Let_def split_beta
    by (auto split: option.splits intro!: sids_intros reg drop)
  show "same_sids st (snd (confirm_client c st))"
    unfolding confirm_client_def Let_def split_beta by (auto split: option.splits intro!: sids_intros)
  show "same_sids st (snd (expire_claim cfg i st))"
    unfolding expire_claim_def Let_def by (auto split: option.splits intro!: sids_intros)
  show "same_sids st (snd (destroy_clientid cfg i st))"
    unfolding destroy_clientid_def by (auto split: option.splits intro!: sids_intros)
  show "same_sids st (snd (register_state cfg c r st))"
    unfolding register_state_def track_state_locked_def Let_def split_beta by (auto intro!: sids_intros)
qed

lemma same_sids_scan: "same_sids st (snd (scan_due cfg st))"
proof -
  have locked: "same_sids s t \<Longrightarrow> same_sids s (scan_locked cfg now c t)" for s t now c
    unfolding scan_locked_def Let_def by (auto intro!: sids_intros)
  have step: "same_sids s (snd a) \<Longrightarrow> same_sids s (snd (scan_client cfg now c a))" for s now c a
    by (auto simp: scan_client_def Let_def split: prod.splits intro!: sids_intros locked)
  have loop: "same_sids s (snd a) \<Longrightarrow> same_sids s (snd (fold (scan_client cfg now) due a))" for s now due a
    by (induction due arbitrary: a) (simp_all add: step)
  have pop: "same_sids s t \<Longrightarrow> same_sids s (snd (pop_due now heap t))" for s t now heap
    by (induction now heap t rule: pop_due.induct)
       (auto simp: Let_def split_beta split: option.splits intro!: sids_intros)
  show ?thesis unfolding scan_due_def Let_def split_beta by (auto intro!: loop pop sids_intros)
qed

section \<open>The contract\<close>

locale sid_invariant =
  fixes cfg :: Config and J :: "StateMgr \<Rightarrow> bool"
  assumes start: "J (init_mgr t)"
    and alone: "J st \<Longrightarrow> same_sids st st' \<Longrightarrow> J st'"
    and unlink: "J st \<Longrightarrow> J (snd (unlink_state cfg r fc ho st))"
    and arbitrate: "J st \<Longrightarrow> J (snd (open_arbitrate cfg args c h st))"
    and recall: "J st \<Longrightarrow> J (start_recall cfg r st)"
    and insert: "J st \<Longrightarrow> minted st r \<Longrightarrow> J (insert_state r st)"
    and deleg: "J st \<Longrightarrow> J (snd (publish_deleg cfg c fsid oid fh st))"
    and lock_pub: "J st \<Longrightarrow> J (snd (snd (lock_publish cfg la c lo ow p l st)))"
    and modes: "J st \<Longrightarrow> J (upd_state r (\<lambda>x. x\<lparr>sr_access := acc x, sr_deny := den x, sr_seqid := sq x\<rparr>) st)"
begin

lemma same_core_alone: "J st \<Longrightarrow> same_core st st' \<Longrightarrow> J st'"
  using alone same_sids_core [OF same_sids_refl] by blast

lemma bump: "J st \<Longrightarrow> J (upd_state r (\<lambda>x. x\<lparr>sr_seqid := sr_seqid x + 1\<rparr>) st)"
  using modes [where acc = sr_access and den = sr_deny and sq = "\<lambda>x. sr_seqid x + 1"] by simp

lemma downgrade: "J st \<Longrightarrow> J (snd (open_downgrade cfg sid i acc den ex st))"
  using modes [where acc = "\<lambda>_. acc" and den = "\<lambda>_. den" and sq = "\<lambda>x. sr_seqid x + 1"]
  by (auto simp: open_downgrade_def downgrade_apply_def Let_def split: sum.splits)

end

sublocale sid_invariant \<subseteq> sids: mgr_invariant cfg "\<lambda>st. idx_ok st \<and> J st"
proof (unfold_locales, goal_cases)
  case 1
  then show ?case using share.init [of cfg] start by (simp add: mgr_share_ok_def)
next
  case (2 st st')
  then show ?case using same_core_alone shrinks_core [OF shrinks_refl, of st st' cfg] by (auto simp: shrinks_def)
next
  case (3 st i c)
  then show ?case by (auto simp: idx_ok_def find_client_def split: if_splits)
next
  case (4 st c)
  then show ?case
    using alone [OF _ same_sids_client_steps(2) [OF same_sids_refl]] shrinks_renew [OF shrinks_refl, of cfg st c]
    by (auto simp: shrinks_def)
next
  case (5 st ow ver princ upd)
  then show ?case
    using alone [OF _ same_sids_ops(1)] shrinks_exchange [OF shrinks_refl, of cfg st ow ver princ upd]
    by (auto simp: shrinks_def)
next
  case (6 st c)
  then show ?case
    using alone [OF _ same_sids_ops(2)] shrinks_confirm [OF shrinks_refl, of cfg st c] by (auto simp: shrinks_def)
next
  case (7 st i)
  then show ?case
    using alone [OF _ same_sids_ops(3)] shrinks_expire_claim [OF shrinks_refl, of cfg st i] by (auto simp: shrinks_def)
next
  case (8 st i)
  then show ?case
    using alone [OF _ same_sids_ops(4)] shrinks_destroy [OF shrinks_refl, of cfg st i] by (auto simp: shrinks_def)
next
  case (9 st r fc ho)
  then show ?case using unlink shrinks_unlink [OF shrinks_refl, of cfg st r fc ho] by (auto simp: shrinks_def)
next
  case (10 st c args h)
  then show ?case using arbitrate idx_arbitrate by auto
next
  case (11 st r)
  then show ?case using recall shrinks_recall [OF shrinks_refl, of cfg st r] by (auto simp: shrinks_def)
next
  case (12 st r)
  then show ?case using insert shrinks_insert [OF shrinks_refl, of cfg st r] by (auto simp: shrinks_def)
next
  case (13 st c r)
  then show ?case
    using alone [OF _ same_sids_ops(5)] shrinks_register [OF shrinks_refl, of cfg st c r] by (auto simp: shrinks_def)
next
  case (14 st c fsid oid fh)
  then show ?case
    using deleg shrinks_publish_deleg [OF shrinks_refl, of cfg st c fsid oid fh] by (auto simp: shrinks_def)
next
  case (15 st c la lo ow p l)
  then show ?case
    using lock_pub shrinks_lock_publish [OF shrinks_refl, of cfg st la c lo ow p l] by (auto simp: shrinks_def)
next
  case (16 st r)
  then show ?case using bump by (auto simp: idx_ok_def upd_state_def)
next
  case (17 st sid i acc den ex)
  then show ?case using downgrade idx_downgrade by auto
next
  case (18 st)
  then show ?case using alone [OF _ same_sids_scan] shrinks_scan [OF shrinks_refl, of cfg st] by (auto simp: shrinks_def)
qed

section \<open>The stateid table\<close>

text \<open>Every entry points to a record with that id, not closed, that its file lists under its type.\<close>

definition sids_ok :: "StateMgr \<Rightarrow> bool" where
  "sids_ok st \<longleftrightarrow>
     (\<forall>(i, r)\<in>set (sm_states st). r < sm_next_sref st \<and> sr_other (sm_srecs st r) = i \<and> \<not> sr_closed (sm_srecs st r) \<and>
        in_file st r)"

definition same_ident :: "StateRec \<Rightarrow> StateRec \<Rightarrow> bool" where
  "same_ident a b \<longleftrightarrow> sr_other b = sr_other a \<and> sr_type b = sr_type a \<and> sr_fsid b = sr_fsid a \<and> sr_oid b = sr_oid a \<and>
     sr_closed b = sr_closed a"

lemma sids_okI [intro?]:
  assumes "sids_ok st" and "set (sm_states st') \<subseteq> set (sm_states st)"
    and "\<And>i r. (i, r) \<in> set (sm_states st') \<Longrightarrow> r < sm_next_sref st \<Longrightarrow> \<not> sr_closed (sm_srecs st r) \<Longrightarrow> sr_other (sm_srecs st r) = i \<Longrightarrow>
      r < sm_next_sref st' \<and> same_ident (sm_srecs st r) (sm_srecs st' r) \<and> (in_file st r \<longrightarrow> in_file st' r)"
  shows "sids_ok st'"
  using assms unfolding sids_ok_def same_ident_def by fastforce

lemma tab_upd_state: "sids_ok st \<Longrightarrow> (\<And>x. same_ident x (f x)) \<Longrightarrow> sids_ok (upd_state r f st)"
  by (erule sids_okI) (auto simp: in_file_def same_ident_def split: option.splits)

lemma tab_alone: "sids_ok st \<Longrightarrow> same_sids st st' \<Longrightarrow> sids_ok st'"
  by (erule sids_okI) (auto simp: same_sids_def same_ident_def in_file_def split: option.splits)

lemma tab_files:
  "sids_ok st \<Longrightarrow> (\<And>r. in_file st r \<Longrightarrow> in_file (st\<lparr>sm_files := v\<rparr>) r) \<Longrightarrow> sids_ok (st\<lparr>sm_files := v\<rparr>)"
  by (erule sids_okI) (auto simp: same_ident_def)

text \<open>A file entry may grow; it may go when it is unused.\<close>

lemma in_file_grow:
  assumes "\<And>f'. sm_files st k = Some f' \<Longrightarrow>
    set (fl_opens f') \<subseteq> set (fl_opens f) \<and> set (fl_locks f') \<subseteq> set (fl_locks f) \<and> set (fl_delegs f') \<subseteq> set (fl_delegs f)"
  shows "in_file st r \<Longrightarrow> in_file (st\<lparr>sm_files := (sm_files st)(k \<mapsto> f)\<rparr>) r"
  using assms by (cases "sr_type (sm_srecs st r)") (auto simp: in_file_def split: option.splits)

lemma in_file_unused:
  assumes "\<And>f'. sm_files st k = Some f' \<Longrightarrow> file_unused f'"
  shows "in_file st r \<Longrightarrow> in_file (st\<lparr>sm_files := (sm_files st)(k := None)\<rparr>) r"
  using assms by (cases "sr_type (sm_srecs st r)") (auto simp: in_file_def file_unused_def split: option.splits)

text \<open>A fresh record and the file entry that lists it.\<close>

lemma tab_publish:
  assumes t: "sids_ok st" and f: "\<And>f'. sm_files st k = Some f' \<Longrightarrow>
    set (fl_opens f') \<subseteq> set (fl_opens f) \<and> set (fl_locks f') \<subseteq> set (fl_locks f) \<and> set (fl_delegs f') \<subseteq> set (fl_delegs f)"
  shows "sids_ok (st\<lparr>sm_next_state := n, sm_next_sref := Suc (sm_next_sref st), sm_srecs := (sm_srecs st)(sm_next_sref st := x),
    sm_files := (sm_files st)(k \<mapsto> f)\<rparr>)" (is "sids_ok ?t")
  using t
proof (rule sids_okI)
  fix i r assume "(i, r) \<in> set (sm_states ?t)" and r: "r < sm_next_sref st"
  have "in_file ?t r = in_file (st\<lparr>sm_files := (sm_files st)(k \<mapsto> f)\<rparr>) r"
    using r by (simp add: in_file_def split: option.splits)
  then show "r < sm_next_sref ?t \<and> same_ident (sm_srecs st r) (sm_srecs ?t r) \<and> (in_file st r \<longrightarrow> in_file ?t r)"
    using r in_file_grow [OF f] by (auto simp: same_ident_def)
qed simp

lemma tab_cnt [simp]: "sids_ok (upd_cnt f st) = sids_ok st"
  by (auto intro: tab_alone [of st] tab_alone [of "upd_cnt f st"] simp: same_sids_def)

lemma tab_arbitrate: "sids_ok st \<Longrightarrow> sids_ok (snd (open_arbitrate cfg args c h st))"
proof -
  assume t: "sids_ok st"
  let ?k = "FileKey (oa_fsid args) (oa_oid args)"
  define fl where "fl = (case sm_files st ?k of None \<Rightarrow> empty_file | Some f \<Rightarrow> f)"
  define st0 where "st0 = st\<lparr>sm_files := (sm_files st)(?k \<mapsto> fl)\<rparr>"
  have t0: "sids_ok st0"
    unfolding st0_def by (rule tab_files [OF t]) (rule in_file_grow; simp add: fl_def)
  have fl0: "sm_files st0 ?k = Some fl" by (simp add: st0_def)
  have del: "sids_ok (st0\<lparr>sm_files := (sm_files st0)(?k := None)\<rparr>)" if "file_unused fl"
    using that fl0 by (intro tab_files [OF t0] in_file_unused) auto
  have new: "sids_ok (snd (open_publish cfg args c h fl st0))"
    unfolding open_publish_def new_other_def Let_def
    by (auto simp: split_beta fl0 intro!: tab_publish [OF t0])
  have merge: "sids_ok (open_merge args r st0)" for r
    unfolding open_merge_def by (auto simp: same_ident_def intro!: tab_upd_state t0)
  show ?thesis
    using t0 del new merge
    unfolding open_arbitrate_def Let_def fl_def [symmetric] st0_def [symmetric]
    by (cases "scan_opens st0 c args None (fl_opens fl)") (auto simp: split_beta split: option.splits)
qed

lemma tab_claim:
  assumes "sids_ok st" and "unlink_claim r st = Some (h, st1)"
  shows "sids_ok st1" and "r \<notin> snd ` set (sm_states st1)"
proof -
  let ?t = "upd_state r (\<lambda>x. x\<lparr>sr_closed := True, sr_bopen := None\<rparr>)
    (st\<lparr>sm_states := AList.delete (sr_other (sm_srecs st r)) (sm_states st)\<rparr>)"
  have gone: "r \<notin> snd ` set (sm_states ?t)"
    using assms(1) by (auto simp: sids_ok_def AList.delete_eq)
  have "sids_ok ?t"
    using assms(1)
  proof (rule sids_okI)
    fix i x assume "(i, x) \<in> set (sm_states ?t)" "x < sm_next_sref st"
    moreover from this gone have "x \<noteq> r" by force
    ultimately show "x < sm_next_sref ?t \<and> same_ident (sm_srecs st x) (sm_srecs ?t x) \<and> (in_file st x \<longrightarrow> in_file ?t x)"
      by (simp add: same_ident_def in_file_def split: option.splits)
  qed (auto simp: AList.delete_eq)
  moreover have "same_sids ?t st1"
    using assms(2) by (auto simp: unlink_claim_def Let_def same_sids_def split: if_splits)
  ultimately show "sids_ok st1" "r \<notin> snd ` set (sm_states st1)"
    using gone by (auto intro: tab_alone simp: same_sids_def)
qed

lemma unlink_file_states [simp]: "sm_states (snd (unlink_file r st)) = sm_states st"
  by (auto simp: unlink_file_def Let_def split_beta split: option.splits)

lemma tab_unlink_file:
  assumes t: "sids_ok st" and r: "r \<notin> snd ` set (sm_states st)"
  shows "sids_ok (snd (unlink_file r st))"
  using t
proof (rule sids_okI)
  fix i x assume x: "(i, x) \<in> set (sm_states (snd (unlink_file r st)))" "x < sm_next_sref st"
  with r have "x \<noteq> r" by force
  then have "in_file st x \<Longrightarrow> in_file (snd (unlink_file r st)) x"
    by (cases "sr_type (sm_srecs st r)"; cases "sr_type (sm_srecs st x)")
       (auto simp: unlink_file_def in_file_def file_unused_def removeAll_empty Let_def split: option.splits if_splits)
  with x show "x < sm_next_sref (snd (unlink_file r st)) \<and> same_ident (sm_srecs st x) (sm_srecs (snd (unlink_file r st)) x) \<and>
      (in_file st x \<longrightarrow> in_file (snd (unlink_file r st)) x)"
    by (auto simp: unlink_file_def same_ident_def Let_def split_beta split: option.splits)
qed simp

lemma same_sids_unlink_tail:
  "same_sids st (unlink_ranges cfg r ho st)"
  "same_sids st (unlink_client cfg r fc ho st)"
proof -
  note * = same_sids_core [OF _ same_core_unlink_native [OF same_core_refl]]
    same_sids_core [OF _ same_core_waiters(2) [OF same_core_refl]]
  have locks: "same_sids s t \<Longrightarrow> same_sids s (t\<lparr>sm_locks := l\<rparr>)" for s t l
    by (simp add: same_sids_def)
  show "same_sids st (unlink_ranges cfg r ho st)"
    by (auto simp: unlink_ranges_def Let_def split: StateType.splits intro!: sids_intros * locks)
  show "same_sids st (unlink_client cfg r fc ho st)"
    by (auto simp: unlink_client_def untrack_state_locked_def Let_def split_beta split: option.splits if_splits intro!: sids_intros)
qed

lemma tab_leaf: "sids_ok st \<Longrightarrow> sids_ok (snd (unlink_leaf cfg r fc ho st))"
  by (auto simp: unlink_leaf_def Let_def split_beta split: option.splits
      intro!: tab_alone [OF _ same_sids_unlink_tail(1)] tab_alone [OF _ same_sids_unlink_tail(2)] tab_unlink_file
      dest: tab_claim)

lemma tab_fold: "sids_ok st \<Longrightarrow> (\<And>x s. sids_ok s \<Longrightarrow> sids_ok (f x s)) \<Longrightarrow> sids_ok (fold f xs st)"
  by (induction xs arbitrary: st) auto

lemma tab_unlink: "sids_ok st \<Longrightarrow> sids_ok (snd (unlink_state cfg r fc ho st))"
  by (auto simp: unlink_state_def Let_def split_beta split: option.splits
      intro!: tab_alone [OF _ same_sids_unlink_tail(2)] tab_fold tab_leaf tab_alone [OF _ same_sids_unlink_tail(1)] tab_unlink_file
      dest: tab_claim)

lemma set_update: "set (AList.update k v al) \<subseteq> insert (k, v) (set al)"
  by (induction al) auto

lemma tab_insert: "sids_ok st \<Longrightarrow> minted st r \<Longrightarrow> sids_ok (insert_state r st)"
proof -
  assume t: "sids_ok st" and m: "minted st r"
  have "in_file (insert_state r st) x = in_file st x" for x
    by (simp add: in_file_def insert_state_def split: option.splits)
  with t m show ?thesis
    unfolding sids_ok_def using set_update [of "sr_other (sm_srecs st r)" r "sm_states st"]
    by (auto simp: minted_def insert_state_def)
qed

lemma tab_deleg: "sids_ok st \<Longrightarrow> sids_ok (snd (publish_deleg cfg c fsid oid fh st))"
  unfolding publish_deleg_def new_deleg_def new_other_def Let_def
  by (auto intro!: tab_publish)

lemma tab_lock: "sids_ok st \<Longrightarrow> sids_ok (snd (snd (lock_publish cfg la c lo ow p l st)))"
proof -
  assume t: "sids_ok st"
  let ?k = "FileKey (la_fsid la) (la_oid la)"
  define fl where "fl = (case sm_files st ?k of None \<Rightarrow> empty_file | Some f \<Rightarrow> f)"
  define st0 where "st0 = st\<lparr>sm_files := (sm_files st)(?k \<mapsto> fl)\<rparr>"
  have t0: "sids_ok st0"
    unfolding st0_def by (rule tab_files [OF t]) (rule in_file_grow; simp add: fl_def)
  have fl0: "sm_files st0 ?k = Some fl" by (simp add: st0_def)
  have mint: "sids_ok (snd (lock_mint cfg la c lo ow p fl st0))"
    unfolding lock_mint_def new_other_def Let_def by (auto simp: fl0 intro!: tab_publish [OF t0])
  have bump: "sids_ok (upd_state r (\<lambda>x. x\<lparr>sr_seqid := sr_seqid x + 1\<rparr>) s)" if "sids_ok s" for r s
    using that by (rule tab_upd_state) (simp add: same_ident_def)
  show ?thesis
    unfolding lock_publish_def Let_def fl_def [symmetric] st0_def [symmetric]
    using t0 mint by (auto simp: split_beta intro!: bump split: option.splits)
qed

lemma tab_recall: "sids_ok st \<Longrightarrow> sids_ok (start_recall cfg r st)"
proof -
  assume t: "sids_ok st"
  let ?t = "upd_state r (\<lambda>x. x\<lparr>sr_recalled := True, sr_recall_deadline := now_coarse st + uint (cfg_lease_seconds cfg)\<rparr>) st"
  have "sids_ok ?t" using t by (rule tab_upd_state) (simp add: same_ident_def)
  moreover have "\<not> sr_recalled (sm_srecs st r) \<Longrightarrow> same_sids ?t (start_recall cfg r st)"
    by (simp add: start_recall_def Let_def same_sids_def)
  ultimately show ?thesis using t tab_alone by (cases "sr_recalled (sm_srecs st r)") (auto simp: start_recall_def)
qed

interpretation stab: sid_invariant cfg sids_ok for cfg
proof (unfold_locales, goal_cases)
  case 1
  show ?case by (simp add: sids_ok_def init_mgr_def)
next
  case (2 st st')
  then show ?case by (rule tab_alone)
next
  case 9
  then show ?case by (rule tab_upd_state) (simp add: same_ident_def)
qed (erule tab_unlink tab_arbitrate tab_recall tab_insert tab_deleg tab_lock; assumption?)+

section \<open>Stateids are never reused\<close>

definition sid_bytes :: "Config \<Rightarrow> StateType \<Rightarrow> u64 \<Rightarrow> StateOther" where
  "sid_bytes cfg ty n = le_bytes 4 (ucast (cfg_boot_epoch cfg) :: u32) @ [type_byte ty] @ take 7 (le_bytes 8 n)"

text \<open>The counter runs with the allocation of records; each record carries the number it was minted with.\<close>

definition minted_in_order :: "Config \<Rightarrow> StateMgr \<Rightarrow> bool" where
  "minted_in_order cfg st \<longleftrightarrow>
     sm_next_state st = of_nat (Suc (sm_next_sref st)) \<and>
     (\<forall>r < sm_next_sref st. sr_other (sm_srecs st r) = sid_bytes cfg (sr_type (sm_srecs st r)) (of_nat (Suc r)))"

definition same_names :: "StateMgr \<Rightarrow> StateMgr \<Rightarrow> bool" where
  "same_names st st' \<longleftrightarrow> sm_next_sref st' = sm_next_sref st \<and> sm_next_state st' = sm_next_state st \<and>
     (\<forall>r. sr_other (sm_srecs st' r) = sr_other (sm_srecs st r) \<and> sr_type (sm_srecs st' r) = sr_type (sm_srecs st r))"

lemma same_names_trans: "same_names a b \<Longrightarrow> same_names b c \<Longrightarrow> same_names a c"
  by (simp add: same_names_def)

lemma same_names_sids: "same_sids st st' \<Longrightarrow> same_names st st'"
  by (simp add: same_sids_def same_names_def)

lemma order_names: "minted_in_order cfg st \<Longrightarrow> same_names st st' \<Longrightarrow> minted_in_order cfg st'"
  by (simp add: minted_in_order_def same_names_def)

lemma order_publish:
  assumes "minted_in_order cfg st" and "sr_other x = sid_bytes cfg (sr_type x) (sm_next_state st)"
  shows "minted_in_order cfg (st\<lparr>sm_next_state := sm_next_state st + 1, sm_next_sref := Suc (sm_next_sref st),
    sm_srecs := (sm_srecs st)(sm_next_sref st := x), sm_files := v\<rparr>)"
  using assms by (auto simp: minted_in_order_def less_Suc_eq)

lemma order_publish_plain:
  assumes "minted_in_order cfg st" and "sr_other x = sid_bytes cfg (sr_type x) (sm_next_state st)"
  shows "minted_in_order cfg (st\<lparr>sm_next_state := sm_next_state st + 1, sm_next_sref := Suc (sm_next_sref st),
    sm_srecs := (sm_srecs st)(sm_next_sref st := x)\<rparr>)"
  using order_publish [OF assms, of "sm_files st"] by simp

lemma order_simps [simp]:
  "minted_in_order cfg (upd_cnt f st) = minted_in_order cfg st"
  "minted_in_order cfg (st\<lparr>sm_files := v\<rparr>) = minted_in_order cfg st"
  "minted_in_order cfg (st\<lparr>sm_states := w\<rparr>) = minted_in_order cfg st"
  by (simp_all add: minted_in_order_def)

lemma order_upd_state:
  "minted_in_order cfg st \<Longrightarrow> (\<And>x. sr_other (f x) = sr_other x) \<Longrightarrow> (\<And>x. sr_type (f x) = sr_type x) \<Longrightarrow>
   minted_in_order cfg (upd_state r f st)"
  by (simp add: minted_in_order_def)

lemma names_claim: "unlink_claim r st = Some (h, st1) \<Longrightarrow> same_names st st1"
  by (auto simp: unlink_claim_def Let_def same_names_def split: if_splits)

lemma names_file: "same_names st (snd (unlink_file r st))"
  by (auto simp: unlink_file_def Let_def split_beta same_names_def split: option.splits)

lemmas names_tail = same_names_sids [OF same_sids_unlink_tail(1)] same_names_sids [OF same_sids_unlink_tail(2)]

lemma order_leaf: "minted_in_order cfg' st \<Longrightarrow> minted_in_order cfg' (snd (unlink_leaf cfg r fc ho st))"
  by (auto simp: unlink_leaf_def Let_def split_beta split: option.splits
      intro: order_names [OF order_names [OF order_names [OF order_names]], OF _ names_claim names_file names_tail])

lemma order_unlink: "minted_in_order cfg' st \<Longrightarrow> minted_in_order cfg' (snd (unlink_state cfg r fc ho st))"
proof -
  assume m: "minted_in_order cfg' st"
  have loop: "minted_in_order cfg' s \<Longrightarrow> minted_in_order cfg' (fold (\<lambda>l s. snd (unlink_leaf cfg l fc ho s)) ls s)" for ls s
    by (induction ls arbitrary: s) (simp_all add: order_leaf)
  show ?thesis
    using m by (auto simp: unlink_state_def Let_def split_beta split: option.splits
      intro!: order_names [OF _ names_tail(2)] loop order_names [OF _ names_tail(1)] order_names [OF _ names_file]
      dest: order_names names_claim)
qed

interpretation sorder: sid_invariant cfg "minted_in_order cfg" for cfg
proof (unfold_locales, goal_cases)
  case (1 t)
  show ?case by (simp add: minted_in_order_def init_mgr_def)
next
  case (2 st st')
  then show ?case using order_names same_names_sids by blast
next
  case (3 st r fc ho)
  then show ?case by (rule order_unlink)
next
  case (4 st args c h)
  then show ?case
    unfolding open_arbitrate_def open_merge_def open_publish_def new_other_def Let_def split_beta
    by (auto simp: new_state_def sid_bytes_def split: option.splits intro!: order_upd_state order_publish [where st = "st\<lparr>sm_files := _\<rparr>", simplified])
next
  case (5 st r)
  then show ?case by (auto simp: start_recall_def minted_in_order_def Let_def)
next
  case (6 st r)
  then show ?case by (simp add: insert_state_def)
next
  case (7 st c fsid oid fh)
  then show ?case
    unfolding publish_deleg_def new_deleg_def new_other_def Let_def
    by (auto simp: new_state_def sid_bytes_def intro!: order_publish_plain)
next
  case (8 st la c lo ow p l)
  then show ?case
    unfolding lock_publish_def lock_mint_def new_other_def Let_def
    by (auto simp: new_state_def sid_bytes_def split: option.splits
        intro!: order_upd_state order_publish [where st = "st\<lparr>sm_files := _\<rparr>", simplified])
next
  case (9 st r)
  then show ?case by (rule order_upd_state) simp_all
qed

lemma low56_eq:
  assumes "take 7 (le_bytes 8 v) = take 7 (le_bytes 8 (w :: u64))"
  shows "take_bit 56 v = take_bit 56 w"
proof (rule bit_word_eqI)
  fix i assume "i < LENGTH(64)"
  show "bit (take_bit 56 v) i = bit (take_bit 56 w) i"
  proof (cases "i < 56")
    case True
    then have j: "i div 8 < 7" by simp
    have "take 7 (le_bytes 8 v) ! (i div 8) = take 7 (le_bytes 8 w) ! (i div 8)" using assms by simp
    with j have "(ucast (drop_bit (8 * (i div 8)) v) :: u8) = ucast (drop_bit (8 * (i div 8)) w)"
      by (simp add: nth_le_bytes)
    then have "bit (ucast (drop_bit (8 * (i div 8)) v) :: u8) (i mod 8) = bit (ucast (drop_bit (8 * (i div 8)) w) :: u8) (i mod 8)"
      by simp
    with True show ?thesis by (simp add: bit_simps)
  qed (simp add: bit_simps)
qed

lemma sid_bytes_inj:
  assumes "sid_bytes cfg ty (of_nat m) = sid_bytes cfg ty' (of_nat n)" and "m < 2 ^ 56" and "n < 2 ^ 56"
  shows "m = n"
proof -
  from assms(1) have "take_bit 56 (of_nat m :: u64) = take_bit 56 (of_nat n)"
    by (intro low56_eq) (simp add: sid_bytes_def)
  with assms(2,3) have "(of_nat m :: u64) = of_nat n" by (simp add: take_bit_of_nat take_bit_nat_eq_self)
  then have "unat (of_nat m :: u64) = unat (of_nat n :: u64)" by simp
  with assms(2,3) show ?thesis by (simp add: unsigned_of_nat take_bit_nat_eq_self)
qed

section \<open>Properties\<close>



end
