(* ===== verification/StateClose.thy ===== *)
theory StateClose
  imports StateTable
begin

text \<open>
  What the open states promise to the rest of the gateway: an IO admitted by a stateid respects the
  deny modes of the other opens, CLOSE makes a stateid unusable and gives up the byte ranges locked
  through it, and the reclaim chain of a client leaves none of its states and sessions behind.
\<close>

section \<open>IO\<close>

text \<open>For a single access bit: what the access covers, a compatible deny does not.\<close>

lemma single_bit_deny:
  assumes "need = push_bit k (1 :: u32)" and "a AND need \<noteq> 0" and "a AND d = 0"
  shows "d AND need = 0"
proof -
  have a: "bit a k" using assms(1,2) by (simp add: bit_iff_and_push_bit_not_eq_0)
  have "\<not> bit d k"
  proof
    assume "bit d k"
    with a have "bit (a AND d) k" by (simp add: bit_and_iff)
    with assms(3) show False by simp
  qed
  then show ?thesis using assms(1) by (simp add: bit_iff_and_push_bit_not_eq_0)
qed

lemma io_need_bit: "need = kShareRead \<or> need = kShareWrite \<Longrightarrow> \<exists>k. need = push_bit k (1 :: u32)"
  by (auto intro: exI [of _ 0] exI [of _ 1])

lemma in_grace_tables:
  "in_grace fsid st = (g, st1) \<Longrightarrow>
     sm_files st1 = sm_files st \<and> sm_srecs st1 = sm_srecs st \<and>
     (\<forall>c. cl_expired (sm_clients st1 c) = cl_expired (sm_clients st c))"
  using same_core_grace(1) [OF same_core_refl, of st fsid] by (simp add: same_core_def same_client_def)

lemma check_io_open:
  assumes "check_io cfg sid i fsid oid need st = (io, st')" and "io_status io = S_Ok" and "\<not> is_special sid"
  shows "\<exists>r. io_rec io = Some r \<and> map_of (sm_states st) (sid_other sid) = Some r \<and> \<not> cl_expired (client_of st r) \<and>
    state_key (sm_srecs st r) = FileKey fsid oid \<and> sr_access (sm_srecs st (anchor_open st r)) AND need \<noteq> 0"
  using assms by (auto simp: check_io_def io_fail_def Let_def split: option.splits if_splits)

lemma check_io_anonymous:
  assumes "check_io cfg sid i fsid oid need st = (io, st')" and "io_status io = S_Ok" and "is_special sid" and "\<not> is_all_one sid"
    and "b \<in> set (file_opens st (FileKey fsid oid))" and "live st b"
  shows "sr_deny (sm_srecs st b) AND need = 0"
proof -
  obtain g st1 where g: "(if need = kShareWrite then in_grace fsid st else (False, st)) = (g, st1)" by fastforce
  then have same: "sm_files st1 = sm_files st" "sm_srecs st1 = sm_srecs st"
      "\<And>c. cl_expired (sm_clients st1 c) = cl_expired (sm_clients st c)"
    using in_grace_tables [of fsid st] by (auto split: if_splits)
  have l: "live st1 x = live st x" for x by (simp add: live_def same)
  show ?thesis
    using assms(1-4) assms(5,6)
    by (auto simp: check_io_def check_io_special_def g io_fail_def same l list_ex_iff file_opens_def Let_def
        split: option.splits if_splits)
qed

lemma stateid_open_live:
  assumes "sids_ok st" and "map_of (sm_states st) i = Some r" and "sr_type (sm_srecs st r) = kOpen"
    and "\<not> cl_expired (client_of st r)"
  shows "r \<in> set (file_opens st (state_key (sm_srecs st r))) \<and> live st r"
  using assms map_of_SomeD [OF assms(2)]
  by (auto simp: sids_ok_def in_file_def file_opens_def live_def split: option.splits)



section \<open>The file index lists open records only\<close>

definition file_list :: "StateType \<Rightarrow> FileStateRec \<Rightarrow> sref list" where
  "file_list ty f = (case ty of kOpen \<Rightarrow> fl_opens f | kLock \<Rightarrow> fl_locks f | kDeleg \<Rightarrow> fl_delegs f)"

lemma file_list_simps [simp]:
  "file_list kOpen f = fl_opens f" "file_list kLock f = fl_locks f" "file_list kDeleg f = fl_delegs f"
  by (simp_all add: file_list_def)

definition listed :: "StateMgr \<Rightarrow> FileKey \<Rightarrow> StateType \<Rightarrow> sref \<Rightarrow> bool" where
  "listed st k ty r \<longleftrightarrow> (case sm_files st k of None \<Rightarrow> False | Some f \<Rightarrow> r \<in> set (file_list ty f))"

text \<open>Listed records exist, are listed where they belong, and are not closed (but for one that is being unlinked).\<close>

definition files_ok_but :: "sref option \<Rightarrow> StateMgr \<Rightarrow> bool" where
  "files_ok_but x st \<longleftrightarrow>
     (\<forall>k ty r. listed st k ty r \<longrightarrow> r < sm_next_sref st \<and> sr_type (sm_srecs st r) = ty \<and> state_key (sm_srecs st r) = k \<and>
        (sr_closed (sm_srecs st r) \<longrightarrow> x = Some r))"

abbreviation files_ok :: "StateMgr \<Rightarrow> bool" where
  "files_ok \<equiv> files_ok_but None"

lemma files_okI:
  assumes "files_ok_but x st" and "sm_next_sref st \<le> sm_next_sref st'"
    and "\<And>k ty r. listed st' k ty r \<Longrightarrow> listed st k ty r"
    and "\<And>k ty r. listed st' k ty r \<Longrightarrow> r < sm_next_sref st \<Longrightarrow> same_ident (sm_srecs st r) (sm_srecs st' r)"
  shows "files_ok_but x st'"
  unfolding files_ok_but_def
proof (intro allI impI)
  fix k ty r assume l: "listed st' k ty r"
  from assms(1) assms(3) [OF l] have r: "r < sm_next_sref st" "sr_type (sm_srecs st r) = ty" "state_key (sm_srecs st r) = k"
      "sr_closed (sm_srecs st r) \<longrightarrow> x = Some r"
    unfolding files_ok_but_def by blast+
  with assms(4) [OF l r(1)] assms(2)
  show "r < sm_next_sref st' \<and> sr_type (sm_srecs st' r) = ty \<and> state_key (sm_srecs st' r) = k \<and> (sr_closed (sm_srecs st' r) \<longrightarrow> x = Some r)"
    by (auto simp: same_ident_def)
qed

lemma files_alone: "files_ok_but x st \<Longrightarrow> same_sids st st' \<Longrightarrow> files_ok_but x st'"
  by (erule files_okI) (auto simp: same_sids_def listed_def same_ident_def)

lemma files_upd_state: "files_ok_but x st \<Longrightarrow> (\<And>y. same_ident y (f y)) \<Longrightarrow> files_ok_but x (upd_state r f st)"
  by (erule files_okI) (auto simp: listed_def same_ident_def)

lemma listed_upd [simp]:
  "listed (st\<lparr>sm_files := (sm_files st)(j \<mapsto> f)\<rparr>) k ty r = (if k = j then r \<in> set (file_list ty f) else listed st k ty r)"
  "listed (st\<lparr>sm_files := (sm_files st)(j := None)\<rparr>) k ty r = (k \<noteq> j \<and> listed st k ty r)"
  by (simp_all add: listed_def)

lemma files_set:
  "files_ok_but x st \<Longrightarrow> (\<And>ty r. r \<in> set (file_list ty f) \<Longrightarrow> listed st k ty r) \<Longrightarrow>
     files_ok_but x (st\<lparr>sm_files := (sm_files st)(k \<mapsto> f)\<rparr>)"
  "files_ok_but x st \<Longrightarrow> files_ok_but x (st\<lparr>sm_files := (sm_files st)(k := None)\<rparr>)"
  by (erule files_okI; auto simp: same_ident_def split: if_splits)+

lemma files_publish:
  assumes ok: "files_ok st" and x: "state_key x = k" "\<not> sr_closed x"
    and f: "\<And>ty r. r \<in> set (file_list ty f) \<Longrightarrow> listed st k ty r \<or> r = sm_next_sref st \<and> ty = sr_type x"
  shows "files_ok (st\<lparr>sm_next_state := n, sm_next_sref := Suc (sm_next_sref st), sm_srecs := (sm_srecs st)(sm_next_sref st := x),
    sm_files := (sm_files st)(k \<mapsto> f)\<rparr>)" (is "files_ok ?t")
  unfolding files_ok_but_def
proof (intro allI impI)
  fix j ty r assume l: "listed ?t j ty r"
  then have "listed st j ty r \<or> r = sm_next_sref st \<and> ty = sr_type x \<and> j = k"
    using f by (auto simp: listed_def split: if_splits)
  with ok x show "r < sm_next_sref ?t \<and> sr_type (sm_srecs ?t r) = ty \<and> state_key (sm_srecs ?t r) = j \<and>
      (sr_closed (sm_srecs ?t r) \<longrightarrow> None = Some r)"
    unfolding files_ok_but_def by fastforce
qed

lemma file_entry_listed:
  "r \<in> set (file_list ty (case sm_files st k of None \<Rightarrow> empty_file | Some f \<Rightarrow> f)) \<Longrightarrow> listed st k ty r"
  by (cases ty) (auto simp: listed_def empty_file_def split: option.splits)

lemma files_arbitrate: "files_ok st \<Longrightarrow> files_ok (snd (open_arbitrate cfg args c h st))"
proof -
  assume t: "files_ok st"
  let ?k = "FileKey (oa_fsid args) (oa_oid args)"
  define fl where "fl = (case sm_files st ?k of None \<Rightarrow> empty_file | Some f \<Rightarrow> f)"
  define st0 where "st0 = st\<lparr>sm_files := (sm_files st)(?k \<mapsto> fl)\<rparr>"
  have t0: "files_ok st0"
    unfolding st0_def fl_def using t file_entry_listed by (intro files_set) auto
  have in0: "r \<in> set (file_list ty fl) \<Longrightarrow> listed st0 ?k ty r" for r ty by (simp add: st0_def)
  have del: "files_ok (st0\<lparr>sm_files := (sm_files st0)(?k := None)\<rparr>)" using t0 by (rule files_set)
  have cnt: "files_ok (upd_cnt g s)" if "files_ok s" for g s
    using that by (rule files_alone) (simp add: same_sids_def)
  have "files_ok (st0\<lparr>sm_next_state := n, sm_next_sref := Suc (sm_next_sref st0), sm_srecs := (sm_srecs st0)(sm_next_sref st0 := x),
      sm_files := (sm_files st0)(?k \<mapsto> fl\<lparr>fl_opens := fl_opens fl @ [sm_next_sref st0]\<rparr>)\<rparr>)"
    if "state_key x = ?k" "\<not> sr_closed x" "sr_type x = kOpen" for n x
  proof (rule files_publish [OF t0 that(1,2)])
    fix ty r assume r: "r \<in> set (file_list ty (fl\<lparr>fl_opens := fl_opens fl @ [sm_next_sref st0]\<rparr>))"
    show "listed st0 ?k ty r \<or> r = sm_next_sref st0 \<and> ty = sr_type x"
      using r in0 [of r ty] that(3) by (cases ty) auto
  qed
  then have new: "files_ok (snd (open_publish cfg args c h fl st0))"
    unfolding open_publish_def new_other_def Let_def by (auto simp: new_state_def intro!: cnt)
  have merge: "files_ok (open_merge args r st0)" for r
    unfolding open_merge_def by (auto simp: same_ident_def intro!: cnt files_upd_state t0)
  show ?thesis
    using t0 del new merge
    unfolding open_arbitrate_def Let_def fl_def [symmetric] st0_def [symmetric]
    by (cases "scan_opens st0 c args None (fl_opens fl)") (auto simp: split_beta intro!: cnt split: option.splits)
qed

lemma files_claim: "files_ok st \<Longrightarrow> unlink_claim r st = Some (h, st1) \<Longrightarrow> files_ok_but (Some r) st1"
proof -
  assume t: "files_ok st" and c: "unlink_claim r st = Some (h, st1)"
  from c have st1: "sm_files st1 = sm_files st" "sm_next_sref st1 = sm_next_sref st"
      "sm_srecs st1 = (sm_srecs st)(r := (sm_srecs st r)\<lparr>sr_closed := True, sr_bopen := None\<rparr>)"
    by (auto simp: unlink_claim_def Let_def split: if_splits)
  have "listed st1 = listed st" by (simp add: listed_def st1 fun_eq_iff)
  with t show ?thesis by (simp add: files_ok_but_def st1)
qed

lemma files_unlink_file: "files_ok_but (Some r) st \<Longrightarrow> files_ok (snd (unlink_file r st))"
proof -
  assume t: "files_ok_but (Some r) st"
  let ?s = "snd (unlink_file r st)"
  have same: "sm_next_sref ?s = sm_next_sref st" "sm_srecs ?s = sm_srecs st"
    by (auto simp: unlink_file_def Let_def split_beta split: option.splits)
  have "listed st k ty x \<and> (k = state_key (sm_srecs st r) \<and> ty = sr_type (sm_srecs st r) \<longrightarrow> x \<noteq> r)" if "listed ?s k ty x" for k ty x
    using that
    by (cases "sr_type (sm_srecs st r)"; cases ty)
       (auto simp: unlink_file_def listed_def Let_def split: option.splits if_splits)
  then show ?thesis
    using t unfolding files_ok_but_def same by blast
qed

lemma files_leaf: "files_ok st \<Longrightarrow> files_ok (snd (unlink_leaf cfg r fc ho st))"
  by (auto simp: unlink_leaf_def Let_def split_beta split: option.splits
      intro!: files_alone [OF _ same_sids_unlink_tail(1)] files_alone [OF _ same_sids_unlink_tail(2)] files_unlink_file
      dest: files_claim)

lemma files_fold: "files_ok st \<Longrightarrow> (\<And>x s. files_ok s \<Longrightarrow> files_ok (f x s)) \<Longrightarrow> files_ok (fold f xs st)"
  by (induction xs arbitrary: st) auto

lemma files_unlink: "files_ok st \<Longrightarrow> files_ok (snd (unlink_state cfg r fc ho st))"
  by (auto simp: unlink_state_def Let_def split_beta split: option.splits
      intro!: files_alone [OF _ same_sids_unlink_tail(2)] files_fold files_leaf files_alone [OF _ same_sids_unlink_tail(1)]
        files_unlink_file
      dest: files_claim)

lemma files_deleg: "files_ok st \<Longrightarrow> files_ok (snd (publish_deleg cfg c fsid oid fh st))"
proof -
  assume t: "files_ok st"
  let ?k = "FileKey fsid oid"
  define fl where "fl = (case sm_files st ?k of None \<Rightarrow> empty_file | Some f \<Rightarrow> f)"
  have pub: "files_ok (st\<lparr>sm_next_state := n, sm_next_sref := Suc (sm_next_sref st), sm_srecs := (sm_srecs st)(sm_next_sref st := x),
      sm_files := (sm_files st)(?k \<mapsto> fl')\<rparr>)"
    if "state_key x = ?k" "\<not> sr_closed x" "sr_type x = kDeleg"
      and fl': "fl' = fl \<or> fl' = fl\<lparr>fl_delegs := fl_delegs fl @ [sm_next_sref st]\<rparr>" for n x fl'
  proof (rule files_publish [OF t that(1,2)])
    fix ty r assume r: "r \<in> set (file_list ty fl')"
    show "listed st ?k ty r \<or> r = sm_next_sref st \<and> ty = sr_type x"
      using r fl' file_entry_listed [of r ty st ?k] that(3) unfolding fl_def [symmetric] by (cases ty) auto
  qed
  show ?thesis
    unfolding publish_deleg_def new_deleg_def new_other_def Let_def
    by (auto simp: new_state_def fl_def [symmetric] intro!: pub)
qed

lemma files_lock: "files_ok st \<Longrightarrow> files_ok (snd (snd (lock_publish cfg la c lo ow p l st)))"
proof -
  assume t: "files_ok st"
  let ?k = "FileKey (la_fsid la) (la_oid la)"
  define fl where "fl = (case sm_files st ?k of None \<Rightarrow> empty_file | Some f \<Rightarrow> f)"
  define st0 where "st0 = st\<lparr>sm_files := (sm_files st)(?k \<mapsto> fl)\<rparr>"
  have t0: "files_ok st0"
    unfolding st0_def fl_def using t file_entry_listed by (intro files_set) auto
  have in0: "r \<in> set (file_list ty fl) \<Longrightarrow> listed st0 ?k ty r" for r ty by (simp add: st0_def)
  have cnt: "files_ok (upd_cnt g s)" if "files_ok s" for g s
    using that by (rule files_alone) (simp add: same_sids_def)
  have "files_ok (st0\<lparr>sm_next_state := n, sm_next_sref := Suc (sm_next_sref st0), sm_srecs := (sm_srecs st0)(sm_next_sref st0 := x),
      sm_files := (sm_files st0)(?k \<mapsto> fl\<lparr>fl_locks := fl_locks fl @ [sm_next_sref st0]\<rparr>)\<rparr>)"
    if "state_key x = ?k" "\<not> sr_closed x" "sr_type x = kLock" for n x
  proof (rule files_publish [OF t0 that(1,2)])
    fix ty r assume r: "r \<in> set (file_list ty (fl\<lparr>fl_locks := fl_locks fl @ [sm_next_sref st0]\<rparr>))"
    show "listed st0 ?k ty r \<or> r = sm_next_sref st0 \<and> ty = sr_type x"
      using r in0 [of r ty] that(3) by (cases ty) auto
  qed
  then have mint: "files_ok (snd (lock_mint cfg la c lo ow p fl st0))"
    unfolding lock_mint_def new_other_def Let_def by (auto simp: new_state_def intro!: cnt)
  have bump: "files_ok (upd_state r (\<lambda>x. x\<lparr>sr_seqid := sr_seqid x + 1\<rparr>) s)" if "files_ok s" for r s
    using that by (rule files_upd_state) (simp add: same_ident_def)
  show ?thesis
    unfolding lock_publish_def Let_def fl_def [symmetric] st0_def [symmetric]
    using t0 mint by (auto simp: split_beta intro!: bump split: option.splits)
qed

lemma files_recall: "files_ok st \<Longrightarrow> files_ok (start_recall cfg r st)"
  by (auto simp: start_recall_def files_ok_but_def listed_def Let_def split: option.splits)

interpretation sfiles: sid_invariant cfg files_ok for cfg
proof (unfold_locales, goal_cases)
  case 1
  show ?case by (simp add: files_ok_but_def listed_def init_mgr_def)
next
  case (2 st st')
  then show ?case by (rule files_alone)
next
  case (6 st r)
  from 6(1) show ?case by (auto simp: insert_state_def files_ok_but_def listed_def split: option.splits)
next
  case 9
  then show ?case by (rule files_upd_state) (simp add: same_ident_def)
qed (erule files_unlink files_arbitrate files_recall files_deleg files_lock; assumption?)+

section \<open>What unlinking leaves behind\<close>

lemma claim_state:
  assumes "unlink_claim r st = Some (h, st1)"
  shows "sm_states st1 = AList.delete (sr_other (sm_srecs st r)) (sm_states st)" and "sm_locks st1 = sm_locks st"
    and "sm_srecs st1 = (sm_srecs st)(r := (sm_srecs st r)\<lparr>sr_closed := True, sr_bopen := None\<rparr>)" and "sm_files st1 = sm_files st"
  using assms by (auto simp: unlink_claim_def Let_def upd_cnt_def upd_state_def split: if_splits)

lemma unlink_file_same [simp]:
  "sm_srecs (snd (unlink_file r st)) = sm_srecs st" "sm_locks (snd (unlink_file r st)) = sm_locks st"
  by (auto simp: unlink_file_def Let_def split_beta upd_cnt_def split: option.splits)

lemma unlink_tail_same [simp]:
  "sm_srecs (unlink_ranges cfg r ho st) = sm_srecs st" "sm_states (unlink_ranges cfg r ho st) = sm_states st"
  "sm_srecs (unlink_client cfg r fc ho st) = sm_srecs st" "sm_states (unlink_client cfg r fc ho st) = sm_states st"
  using same_sids_unlink_tail [of st] by (simp_all add: same_sids_def)

lemma native_locks [simp]: "sm_locks (unlink_native cfg r ho st) = sm_locks st" "sm_locks (notify_lock_waiters k st) = sm_locks st"
  by (auto simp: unlink_native_def native_do_def notify_lock_waiters_def upd_cnt_def Let_def split: sum.splits option.splits prod.splits)

lemma unlink_client_locks [simp]: "sm_locks (unlink_client cfg r fc ho st) = sm_locks st"
  by (auto simp: unlink_client_def untrack_state_locked_def unpersist_fs_client_def unlink_client_record_def upd_client_def
      Let_def split_beta split: option.splits)

lemma unlink_ranges_locks:
  "sm_locks (unlink_ranges cfg r ho st) =
     (if sr_type (sm_srecs st r) = kLock
      then snd (release_owner (sm_locks st) (state_key (sm_srecs st r)) (sr_lowner (sm_srecs st r))) else sm_locks st)"
  by (cases "sr_type (sm_srecs st r)") (simp_all add: unlink_ranges_def upd_cnt_def upd_client_def Let_def)

lemma leaf_srecs: "y \<noteq> r \<Longrightarrow> sm_srecs (snd (unlink_leaf cfg r fc ho st)) y = sm_srecs st y"
  by (auto simp: unlink_leaf_def Let_def split_beta claim_state(3) split: option.splits)

lemma leaf_states: "set (sm_states (snd (unlink_leaf cfg r fc ho st))) \<subseteq> set (sm_states st)"
  by (auto simp: unlink_leaf_def Let_def split_beta claim_state(1) AList.delete_eq split: option.splits)

lemma leaf_locks:
  "sm_locks (snd (unlink_leaf cfg r fc ho st)) =
     (if \<not> sr_closed (sm_srecs st r) \<and> sr_type (sm_srecs st r) = kLock
      then snd (release_owner (sm_locks st) (state_key (sm_srecs st r)) (sr_lowner (sm_srecs st r))) else sm_locks st)"
proof (cases "unlink_claim r st")
  case None
  then have "sr_closed (sm_srecs st r)" by (simp add: unlink_claim_def Let_def split: if_splits)
  with None show ?thesis by (simp add: unlink_leaf_def)
next
  case (Some a)
  then obtain h st1 where a: "unlink_claim r st = Some (h, st1)" by (cases a) auto
  then have "\<not> sr_closed (sm_srecs st r)" by (auto simp: unlink_claim_def Let_def split: if_splits)
  with a show ?thesis
    by (simp add: unlink_leaf_def Let_def split_beta unlink_ranges_locks claim_state(2,3) [OF a])
qed

lemma count_release_mono: "count_owner t k ow = 0 \<Longrightarrow> count_owner (snd (release_owner t j ow')) k ow = 0"
  by (auto simp: count_owner_segments segments_release filter_empty_conv)

lemma leaves_release:
  assumes "l \<in> set ls" and "\<not> sr_closed (sm_srecs st l)" and "sr_type (sm_srecs st l) = kLock"
  shows "count_owner (sm_locks (fold (\<lambda>l s. snd (unlink_leaf cfg l fc ho s)) ls st)) (state_key (sm_srecs st l)) (sr_lowner (sm_srecs st l)) = 0"
proof -
  let ?z = "\<lambda>s k ow. count_owner (sm_locks s) k ow = 0"
  have keep: "?z s k ow \<Longrightarrow> ?z (fold (\<lambda>l s. snd (unlink_leaf cfg l fc ho s)) xs s) k ow" for xs s k ow
    by (induction xs arbitrary: s) (simp_all add: leaf_locks count_release_mono)
  show ?thesis
    using assms
  proof (induction ls arbitrary: st)
    case (Cons x xs)
    show ?case
    proof (cases "l = x")
      case True
      with Cons.prems have "?z (snd (unlink_leaf cfg x fc ho st)) (state_key (sm_srecs st l)) (sr_lowner (sm_srecs st l))"
        by (simp add: leaf_locks count_owner_released)
      from keep [OF this, of xs] show ?thesis by simp
    next
      case False
      with Cons.prems Cons.IH [of "snd (unlink_leaf cfg x fc ho st)"] show ?thesis by (simp add: leaf_srecs)
    qed
  qed simp
qed

lemma leaves_states: "set (sm_states (fold (\<lambda>l s. snd (unlink_leaf cfg l fc ho s)) ls st)) \<subseteq> set (sm_states st)"
proof (induction ls arbitrary: st)
  case (Cons x xs)
  then show ?case using leaf_states [of cfg x fc ho st] by fastforce
qed simp

lemma unlink_states:
  assumes "\<not> sr_closed (sm_srecs st r)"
  shows "set (sm_states (snd (unlink_state cfg r fc ho st))) \<subseteq> set (sm_states st) - {e. fst e = sr_other (sm_srecs st r)}"
proof -
  obtain h st1 where c: "unlink_claim r st = Some (h, st1)" using assms by (auto simp: unlink_claim_def Let_def)
  have "set (sm_states (snd (unlink_state cfg r fc ho st))) \<subseteq> set (sm_states st1)"
    using c leaves_states [of cfg fc ho _ "unlink_ranges cfg r ho (snd (unlink_file r st1))"]
    by (auto simp: unlink_state_def Let_def split_beta)
  also have "\<dots> \<subseteq> set (sm_states st) - {e. fst e = sr_other (sm_srecs st r)}"
    by (auto simp: claim_state(1) [OF c] AList.delete_eq)
  finally show ?thesis .
qed

text \<open>The lock states derived from an open.\<close>

definition dependents :: "StateMgr \<Rightarrow> sref \<Rightarrow> sref set" where
  "dependents st r = {l. listed st (state_key (sm_srecs st r)) kLock l \<and> sr_parent_open (sm_srecs st l) = Some r}"

lemma unlink_open_locks:
  assumes ok: "files_ok st" and op: "\<not> sr_closed (sm_srecs st r)" "sr_type (sm_srecs st r) = kOpen" and l: "l \<in> dependents st r"
  shows "count_owner (sm_locks (snd (unlink_state cfg r fc ho st))) (state_key (sm_srecs st r)) (sr_lowner (sm_srecs st l)) = 0"
proof -
  obtain h st1 where c: "unlink_claim r st = Some (h, st1)" using op(1) by (auto simp: unlink_claim_def Let_def)
  let ?s = "unlink_ranges cfg r ho (snd (unlink_file r st1))"
  from l ok have lk: "\<not> sr_closed (sm_srecs st l)" "sr_type (sm_srecs st l) = kLock" "state_key (sm_srecs st l) = state_key (sm_srecs st r)"
    unfolding dependents_def files_ok_but_def by auto
  with op(2) have "l \<noteq> r" by auto
  then have same: "sm_srecs ?s l = sm_srecs st l" by (simp add: claim_state(3) [OF c])
  have "l \<in> set (fst (unlink_file r st1))"
    using l op(2) \<open>l \<noteq> r\<close>
    by (auto simp: dependents_def listed_def unlink_file_def Let_def claim_state(3,4) [OF c] split: option.splits)
  from leaves_release [OF this, of ?s cfg fc ho] lk same c show ?thesis
    by (simp add: unlink_state_def Let_def split_beta)
qed

section \<open>CLOSE\<close>


definition demo_sid :: Stateid where
  "demo_sid = \<lparr>sid_seqid = 0, sid_other = [1, 0, 0, 0, 1, 2, 0, 0, 0, 0, 0, 0]\<rparr>"

definition demo_closed :: StateMgr where
  "demo_closed = snd (close_state default_config demo_sid 0x100000001 (Some (1, [5])) demo6)"


section \<open>The reclaim chain\<close>

text \<open>Unlinking touches neither the client tables nor the sessions.\<close>

definition same_clients :: "StateMgr \<Rightarrow> StateMgr \<Rightarrow> bool" where
  "same_clients st st' \<longleftrightarrow> sm_client_idx st' = sm_client_idx st \<and> sm_by_id st' = sm_by_id st \<and> sm_sessions st' = sm_sessions st"

lemma same_clients_trans: "same_clients a b \<Longrightarrow> same_clients b c \<Longrightarrow> same_clients a c"
  by (simp add: same_clients_def)

lemma clients_native: "same_clients st (unlink_native cfg r ho st)"
  by (auto simp: same_clients_def unlink_native_def native_do_def upd_cnt_def Let_def split: sum.splits prod.splits)

lemma clients_parts:
  "unlink_claim r st = Some (h, st1) \<Longrightarrow> same_clients st st1"
  "same_clients st (snd (unlink_file r st))"
  "same_clients st (unlink_client cfg r fc ho st)"
  by (auto simp: same_clients_def unlink_claim_def unlink_file_def unlink_client_def untrack_state_locked_def
      unpersist_fs_client_def unlink_client_record_def upd_state_def Let_def split_beta split: if_splits option.splits)

lemma clients_ranges: "same_clients st (unlink_ranges cfg r ho st)"
  using clients_native [of "st\<lparr>sm_locks := l\<rparr>" cfg r ho for l]
  by (cases "sr_type (sm_srecs st r)")
     (auto simp: same_clients_def unlink_ranges_def notify_lock_waiters_def Let_def split: option.splits)

lemma clients_leaf: "same_clients st (snd (unlink_leaf cfg r fc ho st))"
  by (auto simp: unlink_leaf_def Let_def split_beta split: option.splits
      intro: same_clients_trans [OF clients_parts(1) same_clients_trans [OF clients_parts(2) same_clients_trans [OF clients_ranges clients_parts(3)]]])
     (simp add: same_clients_def)

lemma clients_unlink: "same_clients st (snd (unlink_state cfg r fc ho st))"
proof -
  have loop: "same_clients s (fold (\<lambda>l s. snd (unlink_leaf cfg l fc ho s)) ls s)" for ls s
  proof (induction ls arbitrary: s)
    case (Cons l ls)
    then show ?case by (auto intro: same_clients_trans [OF clients_leaf])
  qed (simp add: same_clients_def)
  show ?thesis
    by (auto simp: unlink_state_def Let_def split_beta split: option.splits
        intro: same_clients_trans [OF clients_parts(1) same_clients_trans [OF clients_parts(2)
          same_clients_trans [OF clients_ranges same_clients_trans [OF loop clients_parts(3)]]]])
       (simp add: same_clients_def)
qed

lemma unlink_other_states:
  assumes "sids_ok st"
  shows "sids_ok (snd (unlink_other cfg i (rel, st)))"
    and "set (sm_states (snd (unlink_other cfg i (rel, st)))) \<subseteq> set (sm_states st) - {e. fst e = i}"
    and "same_clients st (snd (unlink_other cfg i (rel, st)))"
proof -
  have "set (sm_states (snd (unlink_other cfg i (rel, st)))) \<subseteq> set (sm_states st) - {e. fst e = i} \<and>
      sids_ok (snd (unlink_other cfg i (rel, st))) \<and> same_clients st (snd (unlink_other cfg i (rel, st)))"
  proof (cases "map_of (sm_states st) i")
    case None
    then have "i \<notin> fst ` set (sm_states st)" by (simp add: map_of_eq_None_iff)
    moreover have "unlink_other cfg i (rel, st) = (rel, st)" using None by (simp add: unlink_other_def)
    ultimately show ?thesis using assms by (auto simp: same_clients_def)
  next
    case (Some r)
    with assms have "sr_other (sm_srecs st r) = i" "\<not> sr_closed (sm_srecs st r)"
      unfolding sids_ok_def by (auto dest!: map_of_SomeD)
    with Some assms show ?thesis
      using unlink_states [of st r cfg False False] tab_unlink [OF assms] clients_unlink
      by (auto simp: unlink_other_def Let_def split_beta)
  qed
  then show "sids_ok (snd (unlink_other cfg i (rel, st)))"
    "set (sm_states (snd (unlink_other cfg i (rel, st)))) \<subseteq> set (sm_states st) - {e. fst e = i}"
    "same_clients st (snd (unlink_other cfg i (rel, st)))" by simp_all
qed

lemma unlink_others_gone:
  assumes "sids_ok (snd a)"
  shows "set (sm_states (snd (fold (unlink_other cfg) ids a))) \<subseteq> set (sm_states (snd a)) - {e. fst e \<in> set ids} \<and>
    same_clients (snd a) (snd (fold (unlink_other cfg) ids a))"
  using assms
proof (induction ids arbitrary: a)
  case (Cons i ids)
  obtain rel st where a: "a = (rel, st)" by fastforce
  note step = unlink_other_states [OF Cons.prems [unfolded a snd_conv], of cfg i rel]
  from Cons.IH [OF step(1)] step(2,3) show ?case
    unfolding a by (auto intro: same_clients_trans)
qed (simp add: same_clients_def)

lemma drop_sessions:
  "sm_sessions (fold drop_session ids st) = (\<lambda>s. if s \<in> set ids then None else sm_sessions st s)"
  by (induction ids arbitrary: st) (auto simp: drop_session_def fun_eq_iff split: option.splits)

lemma sessions_tail:
  "sm_sessions (fold drop_handle rel st) = sm_sessions st" "sm_sessions (count_reason why st) = sm_sessions st"
  "sm_sessions (forget_lock_owners i st) = sm_sessions st" "sm_sessions (unpersist_client cfg c st) = sm_sessions st"
proof -
  show "sm_sessions (fold drop_handle rel st) = sm_sessions st"
    by (induction rel arbitrary: st) (simp_all add: drop_handle_def split: option.splits)
  have "sm_sessions (fold (\<lambda>(f, n). unpersist_fs_client f ow) xs s) = sm_sessions s" for ow and xs :: "(u32 \<times> u32) list" and s :: StateMgr
    by (induction xs arbitrary: s) (simp_all add: unpersist_fs_client_def unlink_client_record_def split_beta)
  then show "sm_sessions (unpersist_client cfg c st) = sm_sessions st"
    by (simp add: unpersist_client_def unlink_client_record_def Let_def)
  show "sm_sessions (count_reason why st) = sm_sessions st" by (cases why) simp_all
  show "sm_sessions (forget_lock_owners i st) = sm_sessions st" by (simp add: forget_lock_owners_def)
qed



end
