(* ===== verification/StateSession.thy ===== *)
theory StateSession
  imports StateDemo
begin

text \<open>
  The slot table of a session: a request is executed at most once, its retransmission waits for it
  or gets the cached reply, and slots do not influence each other.  The grace period as a gate of
  OPEN and LOCK.
\<close>

section \<open>Slots\<close>

definition slot_at :: "StateMgr \<Rightarrow> SessionId \<Rightarrow> u32 \<Rightarrow> Slot option" where
  "slot_at st i n =
     (case sm_sessions st i of
        None \<Rightarrow> None
      | Some s \<Rightarrow> if n < se_slot_count s \<and> unat n < length (se_slots s) then Some (se_slots s ! unat n) else None)"

text \<open>Sessions have as many slots as they announce.\<close>

definition slots_ok :: "StateMgr \<Rightarrow> SessionId \<Rightarrow> bool" where
  "slots_ok st i \<longleftrightarrow> (case sm_sessions st i of None \<Rightarrow> True | Some s \<Rightarrow> length (se_slots s) = unat (se_slot_count s))"

lemma renew_sessions [simp]: "sm_sessions (renew cfg c st) = sm_sessions st" "sm_sessions (arm_lease_check c d st) = sm_sessions st"
  by (simp_all add: renew_def arm_lease_check_def Let_def)

lemma renew_expired [simp]: "cl_expired (sm_clients (renew cfg c st) k) = cl_expired (sm_clients st k)"
  by (simp add: renew_def arm_lease_check_def Let_def)

lemma upd_session_sessions [simp]:
  "sm_sessions (upd_session i f st) j = (if j = i then map_option f (sm_sessions st i) else sm_sessions st j)"
  "sm_clients (upd_session i f st) = sm_clients st"
  by (simp_all add: upd_session_def)

lemma upd_slot_sessions [simp]:
  "sm_sessions (upd_slot i n f st) j =
     (if j = i then map_option (\<lambda>s. s\<lparr>se_slots := (se_slots s)[n := f (se_slots s ! n)]\<rparr>) (sm_sessions st i) else sm_sessions st j)"
  "sm_clients (upd_slot i n f st) = sm_clients st"
  by (simp_all add: upd_slot_def)

text \<open>What an accepted new request says about the slot before and after.\<close>

lemma sequence_accepted:
  assumes "sequence_step cfg i n q hi conn st = (SeqDone out, st')" and "sq_status out = S_Ok" and "\<not> sq_replay out"
    and "slots_ok st i"
  shows "\<exists>s slot. sm_sessions st i = Some s \<and> \<not> cl_expired (sm_clients st (se_client s)) \<and> n < se_slot_count s \<and> hi < se_slot_count s \<and>
    slot_at st i n = Some slot \<and> \<not> sl_in_flight slot \<and> q = sl_seqid slot + 1 \<and>
    slot_at st' i n = Some (slot\<lparr>sl_in_flight := True\<rparr>) \<and>
    sm_sessions st' i = Some (s\<lparr>se_bound_conns := insert conn (se_bound_conns s), se_slots := (se_slots s)[unat n := slot\<lparr>sl_in_flight := True\<rparr>]\<rparr>) \<and>
    \<not> cl_expired (sm_clients st' (se_client s))"
  using assms
  by (auto simp: sequence_step_def seq_fail_def slot_at_def slots_ok_def Let_def word_less_nat_alt word_le_nat_alt not_le
      split: option.splits if_splits)

lemma slot_complete:
  assumes "sm_sessions st i = Some s" and "n < se_slot_count s" and "length (se_slots s) = unat (se_slot_count s)"
  shows "sm_sessions (sequence_complete i n q cache reply st) i =
    Some (s\<lparr>se_slots := (se_slots s)[unat n := \<lparr>sl_seqid = q, sl_in_flight = False, sl_cached = cache, sl_reply = (if cache then reply else [])\<rparr>]\<rparr>)"
    and "sm_clients (sequence_complete i n q cache reply st) = sm_clients st"
  using assms by (simp_all add: sequence_complete_def)

text \<open>A step on a slot whose state is known.\<close>

lemma sequence_on_slot:
  assumes "sm_sessions st i = Some s" and "\<not> cl_expired (sm_clients st (se_client s))" and "n < se_slot_count s" and "hi < se_slot_count s"
  shows "fst (sequence_step cfg i n q hi conn st) =
    (let slot = se_slots s ! unat n
     in if sl_in_flight slot then (if q = sl_seqid slot + 1 then SeqWait else SeqDone (seq_fail S_SeqMisordered))
        else if q = sl_seqid slot + 1 then fst (sequence_step cfg i n q hi conn st)
        else if q = sl_seqid slot \<and> sl_seqid slot \<noteq> 0
        then SeqDone ((if sl_cached slot then (seq_fail S_Ok)\<lparr>sq_replay_bytes := sl_reply slot\<rparr> else seq_fail S_RetryUncachedRep)\<lparr>sq_replay := True\<rparr>)
        else SeqDone (seq_fail S_SeqMisordered))"
  using assms by (simp add: sequence_step_def Let_def not_le [symmetric])

lemma word_neq_succ [simp]: "(q :: u32) \<noteq> q + 1"
  by (simp add: eq_commute [of q])


text \<open>C12: the sequence number 0 is not treated as one.  It follows 2^32 - 1 on a slot, the request is executed, but its
  retransmission is answered SEQ_MISORDERED even though its reply is cached.\<close>

theorem slot_wrap_loses_replay:
  assumes "sequence_step cfg i n 0 hi conn st = (SeqDone out, st')" and "sq_status out = S_Ok" and "\<not> sq_replay out"
    and "slots_ok st i"
  shows "fst (sequence_step cfg i n 0 hi conn2 (sequence_complete i n 0 True reply st')) = SeqDone (seq_fail S_SeqMisordered)"
proof -
  from sequence_accepted [OF assms] obtain s slot where s: "sm_sessions st i = Some s" "n < se_slot_count s" "hi < se_slot_count s"
      "sm_sessions st' i = Some (s\<lparr>se_bound_conns := insert conn (se_bound_conns s), se_slots := (se_slots s)[unat n := slot\<lparr>sl_in_flight := True\<rparr>]\<rparr>)"
      "\<not> cl_expired (sm_clients st' (se_client s))" by blast
  have len: "length (se_slots s) = unat (se_slot_count s)" using assms(4) s(1) by (simp add: slots_ok_def)
  with s(2) have n: "unat n < length (se_slots s)" by (simp add: word_less_nat_alt)
  show ?thesis
    using s n len
    by (subst sequence_on_slot [OF slot_complete(1) [OF s(4)]]) (simp_all add: slot_complete(2) [OF s(4)] Let_def)
qed

text \<open>slots are independent: a step, a completion or an abort on another slot, of this or of another session, leaves a slot
  as it is.\<close>

theorem slots_independent:
  assumes "(j, m) \<noteq> (i, n)"
  shows "slot_at (snd (sequence_step cfg j m q hi conn st)) i n = slot_at st i n \<and>
    slot_at (sequence_complete j m q cache reply st) i n = slot_at st i n \<and>
    slot_at (sequence_abort j m st) i n = slot_at st i n"
proof -
  have upd: "slot_at (upd_slot j (unat m) f s) i n = slot_at s i n" for f s
    using assms by (auto simp: slot_at_def nth_list_update word_unat_eq_iff split: option.splits)
  have other: "slot_at (upd_cnt g s) i n = slot_at s i n" "slot_at (renew cfg c s) i n = slot_at s i n"
    "slot_at (upd_session j (\<lambda>s. s\<lparr>se_bound_conns := b s\<rparr>) s) i n = slot_at s i n" for g c s b
    by (auto simp: slot_at_def split: option.splits)
  show ?thesis
    by (auto simp: sequence_step_def sequence_complete_def sequence_abort_def upd other Let_def split: option.splits)
qed

section \<open>A session of the run\<close>

definition demo_session :: SessionId where "demo_session = make_session_id 0x100000001 1 42"
definition demo_slots :: "u32 \<Rightarrow> StateMgr" where "demo_slots q = sequence_complete demo_session 0 q True [1] demo2"

lemma demo_session_slots:
  "sm_sessions demo2 demo_session = Some (new_session default_config 0 demo_session default_attrs default_attrs 7 None 0 demo_cred)"
  by (simp add: demo2_def create_session_def find_client_def demo1_client demo1_tables demo1_locks confirm_client_def add_session_def
      bury_orphans_def new_session_def renew_def Let_def set_slot_def demo_session_def)

lemma demo_slot_count: "ca_max_requests (negotiate_fore default_config default_attrs) = 32"
  by code_simp

lemma demo_slots_facts:
  "sm_sessions (demo_slots q) demo_session =
     Some ((new_session default_config 0 demo_session default_attrs default_attrs 7 None 0 demo_cred)\<lparr>
       se_slots := (replicate 32 new_slot)[0 := \<lparr>sl_seqid = q, sl_in_flight = False, sl_cached = True, sl_reply = [1]\<rparr>]\<rparr>)"
  "sm_clients (demo_slots q) = sm_clients demo2"
  using slot_complete [OF demo_session_slots, of 0 q True "[1]"]
  by (simp_all add: demo_slots_def new_session_def Let_def demo_slot_count)

lemma demo_slots_ok: "slots_ok (demo_slots q) demo_session"
  by (simp add: slots_ok_def demo_slots_facts new_session_def Let_def demo_slot_count)

lemma demo_accepts:
  "\<exists>out. sequence_step default_config demo_session 0 (q + 1) 0 7 (demo_slots q) =
     (SeqDone out, snd (sequence_step default_config demo_session 0 (q + 1) 0 7 (demo_slots q))) \<and> sq_status out = S_Ok \<and> \<not> sq_replay out"
  by (simp add: sequence_step_def demo_slots_facts demo2_facts new_session_def Let_def demo_slot_count)


theorem slot_wrap_loses_replay_witness:
  "fst (sequence_step default_config demo_session 0 0 0 9
      (sequence_complete demo_session 0 0 True [5] (snd (sequence_step default_config demo_session 0 0 0 7 (demo_slots (- 1)))))) =
   SeqDone (seq_fail S_SeqMisordered)"
proof -
  obtain out where "sequence_step default_config demo_session 0 0 0 7 (demo_slots (- 1)) =
     (SeqDone out, snd (sequence_step default_config demo_session 0 0 0 7 (demo_slots (- 1))))" "sq_status out = S_Ok" "\<not> sq_replay out"
    using demo_accepts [of "- 1"] by auto
  from slot_wrap_loses_replay [OF this demo_slots_ok] show ?thesis .
qed

theorem slots_independent_witness:
  "slot_at (snd (sequence_step default_config demo_session 3 1 5 9 (demo_slots 7))) demo_session 0 =
     Some \<lparr>sl_seqid = 7, sl_in_flight = False, sl_cached = True, sl_reply = [1]\<rparr>"
  using slots_independent [of demo_session 3 demo_session 0 default_config 1 5 9 "demo_slots 7"]
  by (simp add: slot_at_def demo_slots_facts new_session_def Let_def demo_slot_count)

section \<open>The grace period\<close>

lemma in_grace_frame [simp]:
  "sm_clients (snd (in_grace f st)) = sm_clients st" "sm_files (snd (in_grace f st)) = sm_files st"
  "sm_states (snd (in_grace f st)) = sm_states st" "sm_client_idx (snd (in_grace f st)) = sm_client_idx st"
  "sm_srecs (snd (in_grace f st)) = sm_srecs st"
  by (simp_all add: in_grace_def Let_def)

lemma open_gate_ok:
  assumes "open_gate cfg args c st = (S_Ok, st1)"
  shows "if oa_reclaim args
    then fst (in_grace (oa_fsid args) st) \<and> in_stable_list st1 (oa_fsid args) (cl_owner_id (sm_clients st c)) \<and> \<not> cl_reclaim_complete (sm_clients st c)
    else \<not> fst (in_grace (oa_fsid args) st) \<and> cl_reclaim_complete (sm_clients st c)"
  using assms by (auto simp: open_gate_def Let_def split: prod.splits if_splits)

lemma lock_gate_ok:
  assumes "lock_gate args c st = (S_Ok, st1)"
  shows "if la_reclaim args
    then fst (in_grace (la_fsid args) st) \<and> in_stable_list st1 (la_fsid args) (cl_owner_id (sm_clients st c)) \<and> \<not> cl_reclaim_complete (sm_clients st c)
    else \<not> fst (in_grace (la_fsid args) st) \<and> cl_reclaim_complete (sm_clients st c)"
  using assms by (auto simp: lock_gate_def Let_def split: prod.splits if_splits)

text \<open>C13: the grace period gates new state.  An OPEN that succeeds is either a reclaim, inside the grace period of its export, of a
  client on the stable list that has not ended its reclaim phase, or an ordinary one, outside it, of a client that has; every other
  OPEN fails with the status of the gate.\<close>

theorem grace_gates_open:
  assumes "or_status (fst (open_op cfg args h st)) = S_Ok"
  shows "\<exists>c. find_client cfg st (oa_clientid args) = Some c \<and>
    cl_confirmed (sm_clients st c) \<and> \<not> cl_expired (sm_clients st c) \<and>
    (if oa_reclaim args
     then fst (in_grace (oa_fsid args) st) \<and>
       in_stable_list (snd (in_grace (oa_fsid args) st)) (oa_fsid args) (cl_owner_id (sm_clients st c)) \<and> \<not> cl_reclaim_complete (sm_clients st c)
     else \<not> fst (in_grace (oa_fsid args) st) \<and> cl_reclaim_complete (sm_clients st c))"
proof -
  obtain c where c: "find_client cfg st (oa_clientid args) = Some c" "cl_confirmed (sm_clients st c)" "\<not> cl_expired (sm_clients st c)"
    using assms by (auto simp: open_op_def open_fail_def split: option.splits if_splits)
  obtain g st1 where g: "open_gate cfg args c st = (g, st1)" by force
  have "g = S_Ok" using assms c g by (auto simp: open_op_def open_fail_def split: if_splits)
  moreover have "st1 = snd (in_grace (oa_fsid args) st)" using g by (auto simp: open_gate_def Let_def split: prod.splits if_splits)
  ultimately show ?thesis using c open_gate_ok [of cfg args c st st1] g by auto
qed

theorem grace_gates_open_witness:
  "cl_reclaim_complete (sm_clients demo3 0) \<and> \<not> fst (in_grace 1 demo3)"
proof -
  have "or_status (fst (open_op default_config (demo_args [3] 1 2) None demo3)) = S_Ok"
  proof -
    have "may_open default_config demo3 0x100000001 0" by (simp add: may_open_def find_client_def demo3_facts)
    moreover have "fst (open_arbitrate default_config (demo_args [3] 1 2) 0 None demo3) = ArbNew 0"
      by (simp add: open_arbitrate_def demo3_facts empty_file_def open_publish_def new_other_def Let_def)
    ultimately show ?thesis by (subst open_new) (auto simp: demo_open_defs demo3_facts)
  qed
  from grace_gates_open [OF this] show ?thesis by (simp add: find_client_def demo3_facts split: if_splits)
qed

text \<open>The windows are over once, for each of them, nobody is pending or the deadline has come.\<close>

definition windows_over :: "StateMgr \<Rightarrow> bool" where
  "windows_over st \<longleftrightarrow> \<not> sm_grace_any st \<or> list_all (\<lambda>(i, w). gw_pending w = {} \<or> gw_deadline w \<le> sm_now st) (sm_grace st)"

lemma window_live_over: "gw_pending w = {} \<or> gw_deadline w \<le> now \<Longrightarrow> \<not> fst (window_live now w)"
  by (auto simp: window_live_def)

lemma windows_over_no_grace:
  assumes "windows_over st"
  shows "\<not> fst (in_grace f st)"
proof (cases "sm_grace_any st")
  case True
  then have "\<not> fst (window_live (sm_now st) w)" if "(i, w) \<in> set (sm_grace st)" for i w
    using assms that window_live_over by (auto simp: windows_over_def list_all_iff)
  then show ?thesis using True by (fastforce simp: in_grace_def Let_def list_ex_iff)
qed (simp add: in_grace_def)

lemma issued_sid:
  assumes "other = le_bytes 4 (ucast (cfg_boot_epoch cfg) :: u32) @ [type_byte ty] @ take 7 (le_bytes 8 n)"
  shows "\<not> foreign_epoch cfg \<lparr>sid_seqid = 1, sid_other = other\<rparr>" and "\<not> is_special \<lparr>sid_seqid = 1, sid_other = other\<rparr>"
  using assms by (simp_all add: foreign_epoch_def epoch_of_def le_word_le_bytes is_special_def is_all_zero_def is_all_one_def del: le_bytes.simps)

lemma arbitrate_new_file:
  assumes "sm_files st (FileKey (oa_fsid args) (oa_oid args)) = None"
  shows "fst (open_arbitrate cfg args c h st) = ArbNew (sm_next_sref st)"
    and "sm_srecs (snd (open_arbitrate cfg args c h st)) (sm_next_sref st) =
      new_state\<lparr>sr_other := fst (new_other cfg kOpen st), sr_client := c, sr_fsid := oa_fsid args, sr_oid := oa_oid args,
        sr_owner := oa_owner args, sr_access := oa_access args, sr_deny := oa_deny args, sr_bopen := h\<rparr>"
    and "sm_clients (snd (open_arbitrate cfg args c h st)) = sm_clients st"
  using assms by (simp_all add: open_arbitrate_def empty_file_def open_publish_def new_other_def Let_def)



end
