(* ===== verification/Xdr.thy ===== *)
theory Xdr
  imports Prelude "HOL-Library.Sublist"
begin

text \<open>
  The XDR decoder of \<^verbatim>\<open>src/src/xdr/xdr.hpp\<close> over the buffer chains of
  \<^verbatim>\<open>src/src/runtime/buffer.hpp\<close>.  A decoder either walks a flat span or the segments of
  a received chain, where a field may span segments.  Decoding is shown not to depend on the
  segmentation, which makes the flat decoder the specification of the other.
\<close>

section \<open>Byte order\<close>

definition bswap32 :: "u32 \<Rightarrow> u32" where
  "bswap32 v = le_word (rev (le_bytes 4 v))"

definition bswap64 :: "u64 \<Rightarrow> u64" where
  "bswap64 v = le_word (rev (le_bytes 8 v))"

definition to_be32 :: "u32 \<Rightarrow> u32" where "to_be32 v = bswap32 v"
definition to_be64 :: "u64 \<Rightarrow> u64" where "to_be64 v = bswap64 v"
definition from_be32 :: "u32 \<Rightarrow> u32" where "from_be32 v = to_be32 v"
definition from_be64 :: "u64 \<Rightarrow> u64" where "from_be64 v = to_be64 v"

definition pad4 :: "u32 \<Rightarrow> u32" where
  "pad4 n = (4 - (n AND 3)) AND 3"

section \<open>Buffer chains\<close>

text \<open>
  A buffer has an identity (the address of its memory), a capacity and contents.  Addresses
  allocated by an encoder and addresses of buffers handed in from outside differ.
\<close>

datatype buf_id = Own nat | Ext nat

record Buf =
  bf_id :: buf_id
  bf_cap :: nat
  bf_data :: "nat \<Rightarrow> u8"

record Seg =
  sg_buf :: Buf
  sg_off :: nat
  sg_len :: nat

record BufferChain =
  bc_segs :: "Seg list"
  bc_size :: nat

definition empty_chain :: BufferChain where
  "empty_chain = \<lparr>bc_segs = [], bc_size = 0\<rparr>"

definition chain_append :: "Buf \<Rightarrow> nat \<Rightarrow> nat \<Rightarrow> BufferChain \<Rightarrow> BufferChain" where
  "chain_append b off len c =
     (if len = 0 then c
      else c\<lparr>bc_size := bc_size c + len, bc_segs := bc_segs c @ [\<lparr>sg_buf = b, sg_off = off, sg_len = len\<rparr>]\<rparr>)"

definition append_chain :: "BufferChain \<Rightarrow> BufferChain \<Rightarrow> BufferChain" where
  "append_chain c o' = foldl (\<lambda>c s. c\<lparr>bc_size := bc_size c + sg_len s, bc_segs := bc_segs c @ [s]\<rparr>) c (bc_segs o')"

definition pop_back :: "BufferChain \<Rightarrow> Seg \<times> BufferChain" where
  "pop_back c = (let s = last (bc_segs c) in (s, c\<lparr>bc_segs := butlast (bc_segs c), bc_size := bc_size c - sg_len s\<rparr>))"

definition buf_bytes :: "Buf \<Rightarrow> nat \<Rightarrow> nat \<Rightarrow> bytes" where
  "buf_bytes b off n = map (bf_data b) [off..<off + n]"

definition seg_bytes :: "Seg \<Rightarrow> bytes" where
  "seg_bytes s = buf_bytes (sg_buf s) (sg_off s) (sg_len s)"

definition to_bytes :: "BufferChain \<Rightarrow> bytes" where
  "to_bytes c = concat (map seg_bytes (bc_segs c))"

text \<open>The iovecs after the first \<^verbatim>\<open>skip\<close> bytes.\<close>

fun iovecs :: "Seg list \<Rightarrow> nat \<Rightarrow> bytes list" where
  "iovecs [] skip = []"
| "iovecs (s # ss) skip =
     (if skip \<ge> sg_len s then iovecs ss (skip - sg_len s)
      else buf_bytes (sg_buf s) (sg_off s + skip) (sg_len s - skip) # iovecs ss 0)"

definition to_iovecs :: "BufferChain \<Rightarrow> nat \<Rightarrow> bytes list" where
  "to_iovecs c skip = iovecs (bc_segs c) skip"

section \<open>The decoder\<close>

text \<open>
  The views a decoder returns are values: the memory under them is not written while they live.
  After an error the decoder is abandoned, so only a success has a state.
\<close>

record XdrDec =
  xd_chain :: "Seg list option"
  xd_flat :: bytes
  xd_seg :: nat
  xd_off :: nat
  xd_remaining :: nat

type_synonym 'a decoder = "XdrDec \<Rightarrow> ('a \<times> XdrDec) res"

definition dec_of_chain :: "BufferChain \<Rightarrow> XdrDec" where
  "dec_of_chain c = \<lparr>xd_chain = Some (bc_segs c), xd_flat = [], xd_seg = 0, xd_off = 0, xd_remaining = bc_size c\<rparr>"

definition dec_of_flat :: "bytes \<Rightarrow> XdrDec" where
  "dec_of_flat bs = \<lparr>xd_chain = None, xd_flat = bs, xd_seg = 0, xd_off = 0, xd_remaining = length bs\<rparr>"

definition at_end :: "XdrDec \<Rightarrow> bool" where
  "at_end d \<longleftrightarrow> xd_remaining d = 0"

definition dec_return :: "'a \<Rightarrow> 'a decoder" where "dec_return v d = Inr (v, d)"
definition dec_fail :: "errno \<Rightarrow> 'a decoder" where "dec_fail e d = Inl e"

definition dec_bind :: "'a decoder \<Rightarrow> ('a \<Rightarrow> 'b decoder) \<Rightarrow> 'b decoder" where
  "dec_bind m f d = (case m d of Inl e \<Rightarrow> Inl e | Inr (v, d') \<Rightarrow> f v d')"

text \<open>Finished segments are skipped; the list holds the segments from index \<^verbatim>\<open>i\<close> on.\<close>

fun skip_done :: "Seg list \<Rightarrow> nat \<Rightarrow> nat \<Rightarrow> nat \<times> nat" where
  "skip_done [] i off = (i, off)"
| "skip_done (s # ss) i off = (if off = sg_len s then skip_done ss (i + 1) 0 else (i, off))"

text \<open>The gathering loop for a field that spans segments.\<close>

function gather :: "Seg list \<Rightarrow> nat \<Rightarrow> nat \<Rightarrow> nat \<Rightarrow> bytes \<times> nat \<times> nat" where
  "gather ss i off need =
     (if need = 0 then ([], i, off)
      else case ss of
             [] \<Rightarrow> ([], i, off)
           | s # rest \<Rightarrow>
               let avail = sg_len s - off
               in if avail = 0 then gather rest (i + 1) 0 need
                  else let k = min avail need;
                           (p, j, off') = gather ss i (off + k) (need - k)
                       in (buf_bytes (sg_buf s) (sg_off s + off) k @ p, j, off'))"
  by pat_completeness auto
termination
  by (relation "measure (\<lambda>(ss, i, off, need). length ss + need)") auto

declare gather.simps [simp del]

definition dec_take :: "nat \<Rightarrow> bytes decoder" where
  "dec_take n d =
     (if n > xd_remaining d then Inl kGarbage
      else if n = 0 then Inr ([], d)
      else case xd_chain d of
             None \<Rightarrow> Inr (take n (drop (xd_off d) (xd_flat d)),
                          d\<lparr>xd_off := xd_off d + n, xd_remaining := xd_remaining d - n\<rparr>)
           | Some segs \<Rightarrow>
               let (i, off) = skip_done (drop (xd_seg d) segs) (xd_seg d) (xd_off d); s = segs ! i
               in if sg_len s - off \<ge> n
                  then Inr (buf_bytes (sg_buf s) (sg_off s + off) n,
                            d\<lparr>xd_seg := i, xd_off := off + n, xd_remaining := xd_remaining d - n\<rparr>)
                  else let (p, j, off') = gather (drop i segs) i off n
                       in Inr (p, d\<lparr>xd_seg := j, xd_off := off', xd_remaining := xd_remaining d - n\<rparr>))"

definition dec_skip :: "nat \<Rightarrow> unit decoder" where
  "dec_skip n = (if n = 0 then dec_return () else dec_bind (dec_take n) (\<lambda>_. dec_return ()))"

definition dec_u32 :: "u32 decoder" where
  "dec_u32 = dec_bind (dec_take 4) (\<lambda>p. dec_return (from_be32 (le_word p)))"

definition dec_u64 :: "u64 decoder" where
  "dec_u64 = dec_bind (dec_take 8) (\<lambda>p. dec_return (from_be64 (le_word p)))"

definition dec_boolean :: "bool decoder" where
  "dec_boolean = dec_bind dec_u32 (\<lambda>v. if v > 1 then dec_fail kGarbage else dec_return (v = 1))"

definition dec_opaque_fixed :: "u32 \<Rightarrow> bytes decoder" where
  "dec_opaque_fixed n = dec_bind (dec_take (unat n)) (\<lambda>p. dec_bind (dec_skip (unat (pad4 n))) (\<lambda>_. dec_return p))"

definition dec_opaque :: "u32 \<Rightarrow> bytes decoder" where
  "dec_opaque mx = dec_bind dec_u32 (\<lambda>len. if len > mx then dec_fail kGarbage else dec_opaque_fixed len)"

definition dec_string :: "u32 \<Rightarrow> bytes decoder" where
  "dec_string mx = dec_bind (dec_opaque mx) dec_return"

text \<open>A variable-length field as views, one per contiguous piece.\<close>

function spans :: "Seg list \<Rightarrow> nat \<Rightarrow> nat \<Rightarrow> nat \<Rightarrow> bytes list \<times> nat \<times> nat" where
  "spans ss i off need =
     (if need = 0 then ([], i, off)
      else case ss of
             [] \<Rightarrow> ([], i, off)
           | s # rest \<Rightarrow>
               if off = sg_len s then spans rest (i + 1) 0 need
               else let k = min need (sg_len s - off);
                        (ps, j, off') = (if k = 0 then ([], i, off) else spans ss i (off + k) (need - k))
                    in (buf_bytes (sg_buf s) (sg_off s + off) k # ps, j, off'))"
  by pat_completeness auto
termination
  by (relation "measure (\<lambda>(ss, i, off, need). length ss + need)") auto

declare spans.simps [simp del]

definition take_spans :: "nat \<Rightarrow> bytes list decoder" where
  "take_spans len d =
     (if len = 0 then Inr ([], d)
      else case xd_chain d of
             None \<Rightarrow> Inr ([take len (drop (xd_off d) (xd_flat d))],
                          d\<lparr>xd_off := xd_off d + len, xd_remaining := xd_remaining d - len\<rparr>)
           | Some segs \<Rightarrow>
               let (ps, j, off') = spans (drop (xd_seg d) segs) (xd_seg d) (xd_off d) len
               in Inr (ps, d\<lparr>xd_seg := j, xd_off := off', xd_remaining := xd_remaining d - len\<rparr>))"

definition dec_opaque_spans :: "u32 \<Rightarrow> (u32 \<times> bytes list) decoder" where
  "dec_opaque_spans mx = dec_bind dec_u32 (\<lambda>len d.
     if len > mx then Inl kGarbage
     else if unat len > xd_remaining d then Inl kGarbage
     else dec_bind (take_spans (unat len)) (\<lambda>ps. dec_bind (dec_skip (unat (pad4 len))) (\<lambda>_. dec_return (len, ps))) d)"

section \<open>The bytes ahead\<close>

lemma length_buf_bytes [simp]: "length (buf_bytes b off n) = n"
  by (simp add: buf_bytes_def)

lemma buf_bytes_0 [simp]: "buf_bytes b off 0 = []"
  by (simp add: buf_bytes_def)

lemma take_buf_bytes [simp]: "take k (buf_bytes b off n) = buf_bytes b off (min k n)"
  by (simp add: buf_bytes_def take_map min_def)

lemma drop_buf_bytes [simp]: "drop k (buf_bytes b off n) = buf_bytes b (off + k) (n - k)"
  by (cases "k \<le> n") (simp_all add: buf_bytes_def drop_map)

lemma buf_bytes_add: "buf_bytes b off (m + n) = buf_bytes b off m @ buf_bytes b (off + m) n"
  unfolding buf_bytes_def by (metis add.assoc le_add1 map_append upt_add_eq_append)

lemma length_seg_bytes [simp]: "length (seg_bytes s) = sg_len s"
  by (simp add: seg_bytes_def)

text \<open>The bytes from an offset in the first of some segments on, and the offsets the cursor takes.\<close>

definition rest_bytes :: "Seg list \<Rightarrow> nat \<Rightarrow> bytes" where
  "rest_bytes ss off = drop off (concat (map seg_bytes ss))"

definition cursor_ok :: "Seg list \<Rightarrow> nat \<Rightarrow> bool" where
  "cursor_ok ss off \<longleftrightarrow> (case ss of [] \<Rightarrow> off = 0 | s # _ \<Rightarrow> off \<le> sg_len s)"

definition dec_bytes :: "XdrDec \<Rightarrow> bytes" where
  "dec_bytes d =
     (case xd_chain d of
        None \<Rightarrow> drop (xd_off d) (xd_flat d)
      | Some segs \<Rightarrow> rest_bytes (drop (xd_seg d) segs) (xd_off d))"

definition dec_ok :: "XdrDec \<Rightarrow> bool" where
  "dec_ok d \<longleftrightarrow> xd_remaining d = length (dec_bytes d) \<and>
     (case xd_chain d of
        None \<Rightarrow> xd_off d \<le> length (xd_flat d)
      | Some segs \<Rightarrow> xd_seg d \<le> length segs \<and> cursor_ok (drop (xd_seg d) segs) (xd_off d))"

lemma rest_Nil [simp]: "rest_bytes [] off = []"
  by (simp add: rest_bytes_def)

lemma cursor_simps [simp]: "cursor_ok [] off \<longleftrightarrow> off = 0" "cursor_ok (s # ss) off \<longleftrightarrow> off \<le> sg_len s"
  by (simp_all add: cursor_ok_def)

lemma cursor_0 [simp]: "cursor_ok ss 0"
  by (cases ss) simp_all

lemma rest_Cons: "off \<le> sg_len s \<Longrightarrow> rest_bytes (s # ss) off = buf_bytes (sg_buf s) (sg_off s + off) (sg_len s - off) @ rest_bytes ss 0"
  by (simp add: rest_bytes_def seg_bytes_def)

lemma rest_step:
  assumes "off + k \<le> sg_len s"
  shows "rest_bytes (s # ss) off = buf_bytes (sg_buf s) (sg_off s + off) k @ rest_bytes (s # ss) (off + k)"
proof -
  have "buf_bytes (sg_buf s) (sg_off s + off) (sg_len s - off) =
    buf_bytes (sg_buf s) (sg_off s + off) k @ buf_bytes (sg_buf s) (sg_off s + off + k) (sg_len s - (off + k))"
    using assms buf_bytes_add [of "sg_buf s" "sg_off s + off" k "sg_len s - (off + k)"] by simp
  with assms show ?thesis by (simp add: rest_Cons add.assoc)
qed

lemma skip_done_rest:
  assumes "skip_done ss i off = (j, off')" and "cursor_ok ss off"
  shows "\<exists>k\<le>length ss. j = i + k \<and> cursor_ok (drop k ss) off' \<and> rest_bytes (drop k ss) off' = rest_bytes ss off \<and>
    (\<forall>s rest. drop k ss = s # rest \<longrightarrow> off' < sg_len s)"
  using assms
proof (induction ss i off rule: skip_done.induct)
  case (2 s ss i off)
  show ?case
  proof (cases "off = sg_len s")
    case True
    with 2 obtain k where "k \<le> length ss" "j = i + 1 + k" "cursor_ok (drop k ss) off'" "rest_bytes (drop k ss) off' = rest_bytes ss 0"
      "\<forall>s rest. drop k ss = s # rest \<longrightarrow> off' < sg_len s" by auto
    with True show ?thesis by (intro exI [of _ "Suc k"]) (auto simp: rest_Cons)
  next
    case False
    with 2 show ?thesis by (intro exI [of _ 0]) auto
  qed
qed auto

text \<open>Where a cursor that moved over \<^verbatim>\<open>n\<close> bytes stands.\<close>

definition moved :: "Seg list \<Rightarrow> nat \<Rightarrow> nat \<Rightarrow> nat \<Rightarrow> nat \<Rightarrow> nat \<Rightarrow> bool" where
  "moved ss i off n j off' \<longleftrightarrow>
     (\<exists>k\<le>length ss. j = i + k \<and> cursor_ok (drop k ss) off' \<and> rest_bytes (drop k ss) off' = drop n (rest_bytes ss off))"

lemma moved_refl: "cursor_ok ss off \<Longrightarrow> moved ss i off 0 i off"
  by (auto simp: moved_def intro!: exI [of _ 0])

lemma moved_next: "moved ss (i + 1) 0 n j off' \<Longrightarrow> sg_len s = off \<Longrightarrow> moved (s # ss) i off n j off'"
  unfolding moved_def by (elim exE conjE, rule_tac x = "Suc k" in exI) (auto simp: rest_Cons)

lemma moved_in: "moved (s # ss) i (off + k) n j off' \<Longrightarrow> off + k \<le> sg_len s \<Longrightarrow> moved (s # ss) i off (k + n) j off'"
  unfolding moved_def by (auto simp: rest_step [of off k s ss])

lemma gather_simps:
  "gather ss i off 0 = ([], i, off)"
  "need \<noteq> 0 \<Longrightarrow> gather (s # ss) i (sg_len s) need = gather ss (i + 1) 0 need"
  "need \<noteq> 0 \<Longrightarrow> off < sg_len s \<Longrightarrow> k = min (sg_len s - off) need \<Longrightarrow> gather (s # ss) i off need =
     (let (p, j, off') = gather (s # ss) i (off + k) (need - k) in (buf_bytes (sg_buf s) (sg_off s + off) k @ p, j, off'))"
  by (subst gather.simps, simp add: Let_def)+

lemma spans_simps:
  "spans ss i off 0 = ([], i, off)"
  "need \<noteq> 0 \<Longrightarrow> spans (s # ss) i (sg_len s) need = spans ss (i + 1) 0 need"
  "need \<noteq> 0 \<Longrightarrow> off < sg_len s \<Longrightarrow> k = min need (sg_len s - off) \<Longrightarrow> spans (s # ss) i off need =
     (let (ps, j, off') = spans (s # ss) i (off + k) (need - k) in (buf_bytes (sg_buf s) (sg_off s + off) k # ps, j, off'))"
  by (subst spans.simps, simp add: Let_def)+

lemma gather_rest:
  assumes "gather ss i off need = (p, j, off')" and "cursor_ok ss off" and "need \<le> length (rest_bytes ss off)"
  shows "p = take need (rest_bytes ss off) \<and> moved ss i off need j off'"
  using assms
proof (induction ss i off need arbitrary: p j off' rule: gather.induct)
  case (1 ss i off need)
  show ?case
  proof (cases "need = 0")
    case True
    with 1(3-5) show ?thesis by (auto simp: gather_simps moved_refl)
  next
    case need: False
    with 1(5) obtain s rest where ss: "ss = s # rest" by (cases ss) auto
    with 1(4) have off: "off \<le> sg_len s" by simp
    show ?thesis
    proof (cases "sg_len s = off")
      case True
      then have "gather rest (i + 1) 0 need = (p, j, off')" "need \<le> length (rest_bytes rest 0)"
        using 1(3,5) need ss by (auto simp: gather_simps rest_Cons)
      then have "p = take need (rest_bytes rest 0) \<and> moved rest (i + 1) 0 need j off'"
        using 1(1) [OF need ss refl] True by simp
      with True ss show ?thesis using moved_next [of rest i need j off' s off] by (simp add: rest_Cons)
    next
      case False
      define k where "k = min (sg_len s - off) need"
      obtain q where q: "gather ss i (off + k) (need - k) = (q, j, off')" "p = buf_bytes (sg_buf s) (sg_off s + off) k @ q"
        using 1(3) need ss False off by (auto simp: gather_simps(3) [OF need _ k_def] Let_def split: prod.splits)
      have k: "off + k \<le> sg_len s" "k \<le> need" using off by (auto simp: k_def)
      have "q = take (need - k) (rest_bytes ss (off + k)) \<and> moved ss i (off + k) (need - k) j off'"
        using 1(2) [OF need ss refl _ k_def q(1)] 1(5) False off k rest_step [OF k(1), of rest] ss by simp
      then show ?thesis
        using q(2) rest_step [OF k(1), of rest] moved_in [of s rest i off k "need - k" j off'] k ss by simp
    qed
  qed
qed

lemma spans_rest:
  assumes "spans ss i off need = (ps, j, off')" and "cursor_ok ss off" and "need \<le> length (rest_bytes ss off)"
  shows "concat ps = take need (rest_bytes ss off) \<and> moved ss i off need j off'"
  using assms
proof (induction ss i off need arbitrary: ps j off' rule: spans.induct)
  case (1 ss i off need)
  show ?case
  proof (cases "need = 0")
    case True
    with 1(3-5) show ?thesis by (auto simp: spans_simps moved_refl)
  next
    case need: False
    with 1(5) obtain s rest where ss: "ss = s # rest" by (cases ss) auto
    with 1(4) have off: "off \<le> sg_len s" by simp
    show ?thesis
    proof (cases "off = sg_len s")
      case True
      then have "spans rest (i + 1) 0 need = (ps, j, off')" "need \<le> length (rest_bytes rest 0)"
        using 1(3,5) need ss by (auto simp: spans_simps rest_Cons)
      then have "concat ps = take need (rest_bytes rest 0) \<and> moved rest (i + 1) 0 need j off'"
        using 1(1) [OF need ss True] by simp
      with True ss show ?thesis using moved_next [of rest i need j off' s off] by (simp add: rest_Cons)
    next
      case False
      define k where "k = min need (sg_len s - off)"
      have k: "off + k \<le> sg_len s" "k \<le> need" "k \<noteq> 0" using off False need by (auto simp: k_def)
      obtain qs where q: "spans ss i (off + k) (need - k) = (qs, j, off')" "ps = buf_bytes (sg_buf s) (sg_off s + off) k # qs"
        using 1(3) need ss False off by (auto simp: spans_simps(3) [OF need _ k_def] Let_def split: prod.splits)
      have "concat qs = take (need - k) (rest_bytes ss (off + k)) \<and> moved ss i (off + k) (need - k) j off'"
        using 1(2) [OF need ss False k_def k(3) q(1)] 1(5) k rest_step [OF k(1), of rest] ss by simp
      then show ?thesis
        using q(2) rest_step [OF k(1), of rest] moved_in [of s rest i off k "need - k" j off'] k ss by simp
    qed
  qed
qed

section \<open>Taking bytes\<close>

lemma dec_bytes_chain: "xd_chain d = Some segs \<Longrightarrow> dec_bytes d = rest_bytes (drop (xd_seg d) segs) (xd_off d)"
  by (simp add: dec_bytes_def)

lemma moved_dec:
  assumes "xd_chain d = Some segs" and "dec_ok d" and "moved (drop (xd_seg d) segs) (xd_seg d) (xd_off d) n j off'" and "n \<le> length (dec_bytes d)"
  shows "dec_ok (d\<lparr>xd_seg := j, xd_off := off', xd_remaining := xd_remaining d - n\<rparr>) \<and>
    dec_bytes (d\<lparr>xd_seg := j, xd_off := off', xd_remaining := xd_remaining d - n\<rparr>) = drop n (dec_bytes d)"
proof -
  from assms(3) obtain k where k: "k \<le> length (drop (xd_seg d) segs)" "j = xd_seg d + k" "cursor_ok (drop j segs) off'"
    "rest_bytes (drop j segs) off' = drop n (rest_bytes (drop (xd_seg d) segs) (xd_off d))"
    by (auto simp: moved_def add.commute)
  have "dec_bytes (d\<lparr>xd_seg := j, xd_off := off', xd_remaining := xd_remaining d - n\<rparr>) = drop n (dec_bytes d)"
    using assms(1) k(4) by (simp add: dec_bytes_def)
  with assms k show ?thesis by (auto simp: dec_ok_def)
qed

lemma dec_take_chain:
  assumes "xd_chain d = Some segs" and "dec_ok d" and "n \<le> length (dec_bytes d)" and "n \<noteq> 0"
  shows "\<exists>d'. dec_take n d = Inr (take n (dec_bytes d), d') \<and> dec_ok d' \<and> dec_bytes d' = drop n (dec_bytes d)"
proof -
  let ?ss = "drop (xd_seg d) segs"
  have cur: "cursor_ok ?ss (xd_off d)" "xd_seg d \<le> length segs" "\<not> xd_remaining d < n" using assms by (auto simp: dec_ok_def)
  have rb: "dec_bytes d = rest_bytes ?ss (xd_off d)" using assms(1) by (simp add: dec_bytes_def)
  obtain i off where s: "skip_done ?ss (xd_seg d) (xd_off d) = (i, off)" by force
  from skip_done_rest [OF s cur(1)] obtain k where k: "k \<le> length ?ss" "i = xd_seg d + k" "cursor_ok (drop k ?ss) off"
    "rest_bytes (drop k ?ss) off = dec_bytes d" "\<forall>s rest. drop k ?ss = s # rest \<longrightarrow> off < sg_len s"
    using rb by auto
  have di: "drop k ?ss = drop i segs" using k(2) by (simp add: add.commute)
  with k(4) assms(3,4) obtain t rest where t: "drop i segs = t # rest" by (cases "drop i segs") auto
  then have i: "segs ! i = t" by (metis hd_drop_conv_nth list.sel(1) drop_all list.distinct(1) not_le)
  have mv: "moved ?ss (xd_seg d) (xd_off d) n j off'" if "moved (drop i segs) i off n j off'" for j off'
  proof -
    from that obtain l where "l \<le> length (drop i segs)" "j = i + l" "cursor_ok (drop l (drop i segs)) off'"
      "rest_bytes (drop l (drop i segs)) off' = drop n (rest_bytes (drop i segs) off)" by (auto simp: moved_def)
    then show ?thesis
      using k di rb unfolding moved_def by (intro exI [of _ "k + l"]) (auto simp: add_ac)
  qed
  show ?thesis
  proof (cases "sg_len t - off \<ge> n")
    case True
    then have len: "off + n \<le> sg_len t" using assms(4) by auto
    have "dec_bytes d = buf_bytes (sg_buf t) (sg_off t + off) n @ rest_bytes (t # rest) (off + n)"
      using rest_step [OF len, of rest] t k(4) di by simp
    then have "take n (dec_bytes d) = buf_bytes (sg_buf t) (sg_off t + off) n" by simp
    moreover have "moved (drop i segs) i off n i (off + n)"
      using moved_in [OF moved_refl [of "t # rest" "off + n" i] len] len t by simp
    ultimately show ?thesis
      using True moved_dec [OF assms(1,2) mv assms(3)] s i cur assms(1,4) by (simp add: dec_take_def)
  next
    case False
    obtain p j off' where g: "gather (drop i segs) i off n = (p, j, off')" by (metis prod_cases3)
    from gather_rest [OF g] k di assms(3) have "p = take n (dec_bytes d)" "moved (drop i segs) i off n j off'" by auto
    with False show ?thesis
      using moved_dec [OF assms(1,2) mv assms(3)] s i g cur assms(1,4) by (simp add: dec_take_def)
  qed
qed

lemma dec_take_ok:
  assumes "dec_ok d" and "n \<le> length (dec_bytes d)"
  shows "\<exists>d'. dec_take n d = Inr (take n (dec_bytes d), d') \<and> dec_ok d' \<and> dec_bytes d' = drop n (dec_bytes d)"
proof (cases "xd_chain d")
  case (Some segs)
  then show ?thesis using dec_take_chain [OF Some assms] assms by (cases "n = 0") (auto simp: dec_take_def)
next
  case None
  then show ?thesis using assms by (auto simp: dec_take_def dec_ok_def dec_bytes_def add.commute)
qed

lemma dec_take_short: "dec_ok d \<Longrightarrow> length (dec_bytes d) < n \<Longrightarrow> dec_take n d = Inl kGarbage"
  by (simp add: dec_take_def dec_ok_def)

lemma take_spans_ok:
  assumes "dec_ok d" and "n \<le> length (dec_bytes d)"
  shows "\<exists>ps d'. take_spans n d = Inr (ps, d') \<and> concat ps = take n (dec_bytes d) \<and> dec_ok d' \<and> dec_bytes d' = drop n (dec_bytes d)"
proof (cases "xd_chain d")
  case (Some segs)
  obtain ps j off' where s: "spans (drop (xd_seg d) segs) (xd_seg d) (xd_off d) n = (ps, j, off')" by (metis prod_cases3)
  have "concat ps = take n (dec_bytes d) \<and> moved (drop (xd_seg d) segs) (xd_seg d) (xd_off d) n j off'"
    using spans_rest [OF s] assms Some by (auto simp: dec_ok_def dec_bytes_def)
  with moved_dec [OF Some assms(1) _ assms(2)] s Some show ?thesis
    using assms by (cases "n = 0") (auto simp: take_spans_def)
next
  case None
  then show ?thesis using assms by (auto simp: take_spans_def dec_ok_def dec_bytes_def add.commute)
qed

lemma dec_of_flat_ok [simp]: "dec_ok (dec_of_flat bs)" "dec_bytes (dec_of_flat bs) = bs"
  by (simp_all add: dec_ok_def dec_of_flat_def dec_bytes_def)

lemma dec_of_chain_ok:
  "bc_size c = sum_list (map sg_len (bc_segs c)) \<Longrightarrow> dec_ok (dec_of_chain c)" "dec_bytes (dec_of_chain c) = to_bytes c"
  by (simp_all add: dec_ok_def dec_of_chain_def dec_bytes_def rest_bytes_def to_bytes_def length_concat comp_def)

section \<open>Decoding does not depend on the segmentation\<close>

named_theorems uniform_intros \<open>decoders that only depend on the bytes ahead\<close>
named_theorems parses_intros \<open>what a decoder makes of an encoding\<close>

definition dec_rel :: "XdrDec \<Rightarrow> XdrDec \<Rightarrow> bool" where
  "dec_rel d d' \<longleftrightarrow> dec_ok d \<and> dec_ok d' \<and> dec_bytes d = dec_bytes d'"

text \<open>The same error, or the same value with what is left a suffix of what was there.\<close>

definition agree :: "bytes \<Rightarrow> ('a \<times> XdrDec) res \<Rightarrow> ('a \<times> XdrDec) res \<Rightarrow> bool" where
  "agree bs r r' \<longleftrightarrow>
     (case r of
        Inl e \<Rightarrow> r' = Inl e
      | Inr (v, d) \<Rightarrow> (\<exists>d'. r' = Inr (v, d') \<and> dec_rel d d' \<and> suffix (dec_bytes d) bs))"

definition uniform :: "'a decoder \<Rightarrow> bool" where
  "uniform p \<longleftrightarrow> (\<forall>d d'. dec_rel d d' \<longrightarrow> agree (dec_bytes d) (p d) (p d'))"

lemma uniformI: "(\<And>d d'. dec_rel d d' \<Longrightarrow> agree (dec_bytes d) (p d) (p d')) \<Longrightarrow> uniform p"
  by (simp add: uniform_def)

lemma uniform_return [uniform_intros]: "uniform (dec_return v)"
  by (auto simp: uniform_def agree_def dec_return_def)

lemma uniform_fail [uniform_intros]: "uniform (dec_fail e)"
  by (auto simp: uniform_def agree_def dec_fail_def)

lemma uniform_bind [uniform_intros]:
  assumes "uniform m" and "\<And>v. uniform (f v)"
  shows "uniform (dec_bind m f)"
proof (rule uniformI)
  fix d d' assume rel: "dec_rel d d'"
  have a: "agree (dec_bytes d) (m d) (m d')" using assms(1) rel by (simp add: uniform_def)
  show "agree (dec_bytes d) (dec_bind m f d) (dec_bind m f d')"
  proof (cases "m d")
    case (Inl e)
    with a show ?thesis by (simp add: agree_def dec_bind_def)
  next
    case (Inr r)
    obtain v d1 where r: "r = (v, d1)" by force
    with a Inr obtain d1' where m': "m d' = Inr (v, d1')" and rel': "dec_rel d1 d1'" and suf: "suffix (dec_bytes d1) (dec_bytes d)"
      by (auto simp: agree_def)
    have "agree (dec_bytes d1) (f v d1) (f v d1')" using assms(2) rel' by (simp add: uniform_def)
    with suf Inr r m' show ?thesis by (auto simp: dec_bind_def agree_def intro: suffix_order.trans split: sum.splits)
  qed
qed

lemma uniform_if [uniform_intros]: "(b \<Longrightarrow> uniform p) \<Longrightarrow> (\<not> b \<Longrightarrow> uniform q) \<Longrightarrow> uniform (if b then p else q)"
  by simp

lemma uniform_take [uniform_intros]: "uniform (dec_take n)"
proof (rule uniformI)
  fix d d' assume rel: "dec_rel d d'"
  show "agree (dec_bytes d) (dec_take n d) (dec_take n d')"
  proof (cases "n \<le> length (dec_bytes d)")
    case True
    with rel dec_take_ok [of d n] dec_take_ok [of d' n] show ?thesis
      by (auto simp: dec_rel_def agree_def suffix_drop)
  next
    case False
    with rel show ?thesis by (simp add: dec_rel_def agree_def dec_take_short)
  qed
qed

lemma uniform_remaining: "uniform (\<lambda>d. p (xd_remaining d) d)" if "\<And>n. uniform (p n)"
  using that by (auto simp: uniform_def dec_rel_def dec_ok_def)

lemma uniform_skip [uniform_intros]: "uniform (dec_skip n)"
  unfolding dec_skip_def by (intro uniform_intros)

lemma uniform_u32 [uniform_intros]: "uniform dec_u32"
  unfolding dec_u32_def by (intro uniform_intros)

lemma uniform_u64 [uniform_intros]: "uniform dec_u64"
  unfolding dec_u64_def by (intro uniform_intros)

lemma uniform_boolean [uniform_intros]: "uniform dec_boolean"
  unfolding dec_boolean_def by (intro uniform_intros)

lemma uniform_opaque_fixed [uniform_intros]: "uniform (dec_opaque_fixed n)"
  unfolding dec_opaque_fixed_def by (intro uniform_intros)

lemma uniform_opaque [uniform_intros]: "uniform (dec_opaque mx)"
  unfolding dec_opaque_def by (intro uniform_intros)

lemma uniform_string [uniform_intros]: "uniform (dec_string mx)"
  unfolding dec_string_def by (intro uniform_intros)

section \<open>The wire format\<close>

definition wire_u32 :: "u32 \<Rightarrow> bytes" where "wire_u32 v = rev (le_bytes 4 v)"
definition wire_u64 :: "u64 \<Rightarrow> bytes" where "wire_u64 v = rev (le_bytes 8 v)"
definition wire_bool :: "bool \<Rightarrow> bytes" where "wire_bool b = wire_u32 (if b then 1 else 0)"
definition wire_pad :: "nat \<Rightarrow> bytes" where "wire_pad n = replicate (unat (pad4 (of_nat n))) 0"
definition wire_fixed :: "bytes \<Rightarrow> bytes" where "wire_fixed bs = bs @ wire_pad (length bs)"
definition wire_opaque :: "bytes \<Rightarrow> bytes" where "wire_opaque bs = wire_u32 (of_nat (length bs)) @ wire_fixed bs"

lemma length_wire [simp]: "length (wire_u32 v) = 4" "length (wire_u64 w) = 8" "length (wire_bool b) = 4"
  by (simp_all add: wire_u32_def wire_u64_def wire_bool_def)

lemma length_wire_pad [simp]: "length (wire_pad n) = unat (pad4 (of_nat n))"
  by (simp add: wire_pad_def)

text \<open>A decoder reads \<^verbatim>\<open>v\<close> off an encoding \<^verbatim>\<open>bs\<close> and stops at its end.\<close>

definition parses :: "'a decoder \<Rightarrow> 'a \<Rightarrow> bytes \<Rightarrow> bool" where
  "parses p v bs \<longleftrightarrow>
     (\<forall>d rest. dec_ok d \<longrightarrow> dec_bytes d = bs @ rest \<longrightarrow> (\<exists>d'. p d = Inr (v, d') \<and> dec_ok d' \<and> dec_bytes d' = rest))"

lemma parsesI:
  "(\<And>d rest. dec_ok d \<Longrightarrow> dec_bytes d = bs @ rest \<Longrightarrow> \<exists>d'. p d = Inr (v, d') \<and> dec_ok d' \<and> dec_bytes d' = rest) \<Longrightarrow> parses p v bs"
  by (simp add: parses_def)

lemma parsesD: "parses p v bs \<Longrightarrow> dec_ok d \<Longrightarrow> dec_bytes d = bs @ rest \<Longrightarrow> \<exists>d'. p d = Inr (v, d') \<and> dec_ok d' \<and> dec_bytes d' = rest"
  by (simp add: parses_def)

lemma parses_return [parses_intros]: "parses (dec_return v) v []"
  by (simp add: parses_def dec_return_def)

lemma parses_bind:
  assumes "parses m v bs" and "parses (f v) w cs"
  shows "parses (dec_bind m f) w (bs @ cs)"
proof (rule parsesI)
  fix d rest assume "dec_ok d" "dec_bytes d = (bs @ cs) @ rest"
  then obtain d1 where "m d = Inr (v, d1)" "dec_ok d1" "dec_bytes d1 = cs @ rest"
    using parsesD [OF assms(1), of d "cs @ rest"] by auto
  then show "\<exists>d'. dec_bind m f d = Inr (w, d') \<and> dec_ok d' \<and> dec_bytes d' = rest"
    using parsesD [OF assms(2), of d1 rest] by (auto simp: dec_bind_def)
qed

lemma parses_bind_last: "parses m v bs \<Longrightarrow> parses (f v) w [] \<Longrightarrow> parses (dec_bind m f) w bs"
  using parses_bind [of m v bs f w "[]"] by simp

lemma parses_map: "parses m v bs \<Longrightarrow> parses (dec_bind m (\<lambda>x. dec_return (g x))) (g v) bs"
  by (rule parses_bind_last) (auto intro: parses_return)

lemma parses_take [parses_intros]: "length bs = n \<Longrightarrow> parses (dec_take n) bs bs"
proof (rule parsesI)
  fix d rest assume "length bs = n" "dec_ok d" "dec_bytes d = bs @ rest"
  then show "\<exists>d'. dec_take n d = Inr (bs, d') \<and> dec_ok d' \<and> dec_bytes d' = rest" using dec_take_ok [of d n] by simp
qed

lemma parses_skip [parses_intros]: "length bs = n \<Longrightarrow> parses (dec_skip n) () bs"
  by (auto simp: dec_skip_def intro!: parses_return parses_bind_last [OF parses_take])

lemma from_be32_wire: "from_be32 (le_word (wire_u32 v)) = v"
  using le_bytes_le_word [of "wire_u32 v", where 'a = 32]
  by (simp add: from_be32_def to_be32_def bswap32_def wire_u32_def le_word_le_bytes del: le_bytes.simps)

lemma from_be64_wire: "from_be64 (le_word (wire_u64 v)) = v"
  using le_bytes_le_word [of "wire_u64 v", where 'a = 64]
  by (simp add: from_be64_def to_be64_def bswap64_def wire_u64_def le_word_le_bytes del: le_bytes.simps)

lemma parses_u32 [parses_intros]: "parses dec_u32 v (wire_u32 v)"
  unfolding dec_u32_def
  by (rule parses_bind_last [where v = "wire_u32 v"]) (simp_all add: parses_take from_be32_wire parses_return)

lemma parses_u64 [parses_intros]: "parses dec_u64 v (wire_u64 v)"
  unfolding dec_u64_def
  by (rule parses_bind_last [where v = "wire_u64 v"]) (simp_all add: parses_take from_be64_wire parses_return)

lemma parses_boolean [parses_intros]: "parses dec_boolean b (wire_bool b)"
  unfolding dec_boolean_def wire_bool_def
  by (rule parses_bind_last [OF parses_u32]) (auto intro: parses_return)

lemma parses_opaque_fixed [parses_intros]:
  assumes "length bs = unat n"
  shows "parses (dec_opaque_fixed n) bs (wire_fixed bs)"
proof -
  have "pad4 (of_nat (length bs)) = pad4 n" using assms by simp
  then show ?thesis
    unfolding dec_opaque_fixed_def wire_fixed_def
    by (intro parses_bind [where v = bs] parses_bind_last [where v = "()"] parses_take parses_skip parses_return) (simp_all add: assms)
qed

lemma parses_opaque [parses_intros]:
  assumes "length bs \<le> unat mx"
  shows "parses (dec_opaque mx) bs (wire_opaque bs)"
proof -
  have n: "unat (of_nat (length bs) :: u32) = length bs"
    using assms by (metis le_unat_uoi)
  then have "\<not> mx < of_nat (length bs)" using assms by (simp add: word_less_nat_alt)
  then show ?thesis
    unfolding dec_opaque_def wire_opaque_def
    by (intro parses_bind [OF parses_u32]) (simp add: parses_opaque_fixed n)
qed

lemma parses_string [parses_intros]: "length bs \<le> unat mx \<Longrightarrow> parses (dec_string mx) bs (wire_opaque bs)"
  unfolding dec_string_def by (rule parses_bind_last [OF parses_opaque]) (auto intro: parses_return)

text \<open>The gathered and the zero-copy reading of a variable-length field agree.\<close>

lemma dec_opaque_length:
  assumes "dec_ok d" and "dec_opaque mx d = Inr (bs, d')"
  shows "length bs \<le> unat mx"
proof -
  obtain len d1 where len: "dec_u32 d = Inr (len, d1)" "\<not> len > mx" "dec_opaque_fixed len d1 = Inr (bs, d')"
    using assms(2) by (auto simp: dec_opaque_def dec_bind_def dec_fail_def split: sum.splits if_splits)
  have "agree (dec_bytes d) (dec_u32 d) (dec_u32 d)"
    using uniform_u32 assms(1) by (simp add: uniform_def dec_rel_def)
  with len have ok: "dec_ok d1" by (auto simp: agree_def dec_rel_def)
  have "length bs = unat len"
    using len(3) dec_take_ok [OF ok, of "unat len"] dec_take_short [OF ok, of "unat len"]
    by (cases "unat len \<le> length (dec_bytes d1)") (auto simp: dec_opaque_fixed_def dec_bind_def dec_return_def split: sum.splits)
  with len(2) show ?thesis by (simp add: word_less_nat_alt)
qed

section \<open>Properties of the decoder\<close>

lemma uniform_agree: "uniform p \<Longrightarrow> dec_ok d \<Longrightarrow> dec_ok d' \<Longrightarrow> dec_bytes d = dec_bytes d' \<Longrightarrow> agree (dec_bytes d) (p d) (p d')"
  by (simp add: uniform_def dec_rel_def)

lemma uniform_ok: "uniform p \<Longrightarrow> dec_ok d \<Longrightarrow> p d = Inr (v, d') \<Longrightarrow> dec_ok d' \<and> suffix (dec_bytes d') (dec_bytes d)"
  using uniform_agree [of p d d] by (auto simp: agree_def dec_rel_def)

text \<open>A chain as the record stream builds it.\<close>

definition chain_ok :: "BufferChain \<Rightarrow> bool" where
  "chain_ok c \<longleftrightarrow> bc_size c = sum_list (map sg_len (bc_segs c))"

lemma uniform_agree_flat:
  "uniform p \<Longrightarrow> chain_ok c \<Longrightarrow> agree (to_bytes c) (p (dec_of_chain c)) (p (dec_of_flat (to_bytes c)))"
  using uniform_agree [of p "dec_of_chain c" "dec_of_flat (to_bytes c)"] dec_of_chain_ok [of c] by (simp add: chain_ok_def)


text \<open>Three bytes and two bytes in two buffers.\<close>

definition demo_chain :: BufferChain where
  "demo_chain = chain_append \<lparr>bf_id = Ext 1, bf_cap = 8, bf_data = \<lambda>i. of_nat i\<rparr> 4 2
     (chain_append \<lparr>bf_id = Ext 0, bf_cap = 8, bf_data = \<lambda>i. 0\<rparr> 1 3 empty_chain)"


text \<open>reading a variable-length field as zero-copy views gives the same bytes as gathering it, or fails with the same error; the field
  is never longer than its limit and both readings leave the same bytes ahead.\<close>

theorem opaque_spans_agree:
  assumes "dec_ok d"
  shows "case dec_opaque_spans mx d of
      Inl e \<Rightarrow> dec_opaque mx d = Inl e
    | Inr ((len, ps), d1) \<Rightarrow> \<exists>d2. dec_opaque mx d = Inr (concat ps, d2) \<and> dec_rel d1 d2 \<and> length (concat ps) = unat len \<and> len \<le> mx"
proof (cases "dec_u32 d")
  case (Inl e)
  then show ?thesis by (simp add: dec_opaque_spans_def dec_opaque_def dec_bind_def)
next
  case (Inr r)
  obtain len d1 where r: "dec_u32 d = Inr (len, d1)" using Inr by (cases r) auto
  have ok: "dec_ok d1" using uniform_ok [OF uniform_u32 assms r] by simp
  consider "mx < len" | "\<not> mx < len" "unat len > length (dec_bytes d1)" | "\<not> mx < len" "unat len \<le> length (dec_bytes d1)" by linarith
  then show ?thesis
  proof cases
    case 1
    then show ?thesis using r by (simp add: dec_opaque_spans_def dec_opaque_def dec_bind_def dec_fail_def)
  next
    case 2
    then show ?thesis
      using r ok dec_take_short [OF ok 2(2)]
      by (simp add: dec_opaque_spans_def dec_opaque_def dec_bind_def dec_opaque_fixed_def dec_ok_def)
  next
    case 3
    from take_spans_ok [OF ok 3(2)] obtain ps e1 where ps: "take_spans (unat len) d1 = Inr (ps, e1)" "concat ps = take (unat len) (dec_bytes d1)"
      "dec_ok e1" "dec_bytes e1 = drop (unat len) (dec_bytes d1)" by blast
    from dec_take_ok [OF ok 3(2)] obtain e2 where e2: "dec_take (unat len) d1 = Inr (concat ps, e2)" "dec_ok e2" "dec_bytes e2 = dec_bytes e1"
      using ps by auto
    have skip: "agree (dec_bytes e1) (dec_skip (unat (pad4 len)) e1) (dec_skip (unat (pad4 len)) e2)"
      using uniform_agree [OF uniform_skip ps(3) e2(2)] e2(3) by simp
    have rem: "\<not> xd_remaining d1 < unat len" using ok 3(2) by (simp add: dec_ok_def)
    show ?thesis
      using skip r ps(1,2) e2(1) 3 rem
      by (auto simp: dec_opaque_spans_def dec_opaque_def dec_bind_def dec_opaque_fixed_def dec_return_def agree_def
          split: sum.splits)
  qed
qed

theorem opaque_spans_agree_witness:
  "case dec_opaque_spans 8 (dec_of_flat [0, 0, 0, 2, 7, 9, 0, 0]) of
     Inl e \<Rightarrow> False | Inr ((len, ps), d1) \<Rightarrow> concat ps = [7, 9]"
proof -
  have "case dec_opaque_spans 8 (dec_of_flat [0, 0, 0, 2, 7, 9, 0, 0]) of
      Inl e \<Rightarrow> False | Inr ((len, ps), d1) \<Rightarrow> concat ps = [7, 9]" by code_simp
  with opaque_spans_agree [OF dec_of_flat_ok(1), of 8 "[0, 0, 0, 2, 7, 9, 0, 0]"] show ?thesis by simp
qed

end
