(* ===== verification/Buffer.thy ===== *)
theory Buffer
  imports Prelude "HOL-Library.Multiset"
begin

text \<open>
  The buffer pool of \<^verbatim>\<open>src/src/runtime/buffer.cpp\<close>: reference-counted blocks, the
  locked global free lists with their byte watermark, and the per-thread magazines in front of them;
  and the buffer chain of \<^verbatim>\<open>buffer.hpp\<close>.  Each critical section is one step; the
  reference count is unbounded.  Whether the allocator has memory is an argument.
\<close>

section \<open>Blocks and the pool\<close>

record Block =
  bk_cap :: nat
  bk_refs :: nat
  bk_pooled :: bool

record Magazine =
  mg_head :: "nat \<Rightarrow> nat list"
  mg_count :: "nat \<Rightarrow> nat"

text \<open>Blocks are addresses; a block that was freed is not in \<^verbatim>\<open>bp_blocks\<close>.\<close>

record BufferPool =
  bp_free :: "nat \<Rightarrow> nat list"
  bp_free_bytes :: nat
  bp_mags :: "nat \<Rightarrow> Magazine option"
  bp_max_free :: nat
  bp_blocks :: "nat \<Rightarrow> Block option"
  bp_next :: nat

definition kSmall :: nat where "kSmall = 4 * 1024"

definition kClassCaps :: "nat list" where
  "kClassCaps = [4 * 1024, 64 * 1024, 128 * 1024, 256 * 1024, 1024 * 1024]"

definition kClasses :: nat where "kClasses = 5"
definition kMagazineCap :: nat where "kMagazineCap = 16"

definition new_pool :: "nat \<Rightarrow> BufferPool" where
  "new_pool max_free = \<lparr>bp_free = \<lambda>_. [], bp_free_bytes = 0, bp_mags = \<lambda>_. None, bp_max_free = max_free,
     bp_blocks = \<lambda>_. None, bp_next = 0\<rparr>"

definition cap_of :: "BufferPool \<Rightarrow> nat \<Rightarrow> nat" where
  "cap_of st b = (case bp_blocks st b of None \<Rightarrow> 0 | Some k \<Rightarrow> bk_cap k)"

definition refs_of :: "BufferPool \<Rightarrow> nat \<Rightarrow> nat" where
  "refs_of st b = (case bp_blocks st b of None \<Rightarrow> 0 | Some k \<Rightarrow> bk_refs k)"

definition set_refs :: "nat \<Rightarrow> nat \<Rightarrow> BufferPool \<Rightarrow> BufferPool" where
  "set_refs b n st = st\<lparr>bp_blocks := (bp_blocks st)(b := map_option (\<lambda>k. k\<lparr>bk_refs := n\<rparr>) (bp_blocks st b))\<rparr>"

definition class_for :: "nat \<Rightarrow> nat option" where
  "class_for n = List.find (\<lambda>c. n \<le> kClassCaps ! c) [0..<kClasses]"

definition free_block :: "nat \<Rightarrow> BufferPool \<Rightarrow> BufferPool" where
  "free_block b st = st\<lparr>bp_blocks := (bp_blocks st)(b := None)\<rparr>"

definition new_magazine :: Magazine where
  "new_magazine = \<lparr>mg_head = \<lambda>_. [], mg_count = \<lambda>_. 0\<rparr>"

text \<open>The magazine of the calling thread, registered on first use.\<close>

definition magazine :: "nat \<Rightarrow> BufferPool \<Rightarrow> Magazine \<times> BufferPool" where
  "magazine t st =
     (case bp_mags st t of
        Some m \<Rightarrow> (m, st)
      | None \<Rightarrow> (new_magazine, st\<lparr>bp_mags := (bp_mags st)(t \<mapsto> new_magazine)\<rparr>))"

definition global_take :: "nat \<Rightarrow> BufferPool \<Rightarrow> nat option \<times> BufferPool" where
  "global_take c st =
     (case bp_free st c of
        [] \<Rightarrow> (None, st)
      | b # bs \<Rightarrow> (Some b, st\<lparr>bp_free := (bp_free st)(c := bs), bp_free_bytes := bp_free_bytes st - cap_of st b\<rparr>))"

definition global_put :: "nat \<Rightarrow> nat \<Rightarrow> BufferPool \<Rightarrow> BufferPool" where
  "global_put b c st =
     (if bp_free_bytes st + cap_of st b > bp_max_free st then free_block b st
      else st\<lparr>bp_free := (bp_free st)(c := b # bp_free st c), bp_free_bytes := bp_free_bytes st + cap_of st b\<rparr>)"

definition drop_free_locked :: "BufferPool \<Rightarrow> BufferPool" where
  "drop_free_locked st =
     (fold (\<lambda>c s. fold free_block (bp_free s c) (s\<lparr>bp_free := (bp_free s)(c := [])\<rparr>)) [0..<kClasses] st)\<lparr>bp_free_bytes := 0\<rparr>"

text \<open>
  \<^verbatim>\<open>malloc\<close> of a new block.  The two booleans are its answers to the first and to the
  second try; when both fail \<^verbatim>\<open>bad_alloc\<close> is thrown.
\<close>

definition new_block :: "nat option \<Rightarrow> nat \<Rightarrow> BufferPool \<Rightarrow> nat option \<times> BufferPool" where
  "new_block cls cap st =
     (Some (bp_next st),
      st\<lparr>bp_blocks := (bp_blocks st)(bp_next st \<mapsto> \<lparr>bk_cap = cap, bk_refs = 1, bk_pooled = (cls \<noteq> None)\<rparr>),
         bp_next := bp_next st + 1\<rparr>)"

definition create_block :: "nat option \<Rightarrow> nat \<Rightarrow> bool \<times> bool \<Rightarrow> BufferPool \<Rightarrow> nat option \<times> BufferPool" where
  "create_block cls cap mem st =
     (if fst mem then new_block cls cap st
      else let st1 = drop_free_locked st in if snd mem then new_block cls cap st1 else (None, st1))"

definition take_or_create :: "nat \<Rightarrow> nat option \<Rightarrow> nat \<Rightarrow> bool \<times> bool \<Rightarrow> BufferPool \<Rightarrow> nat option \<times> BufferPool" where
  "take_or_create t cls cap mem st =
     (case cls of
        None \<Rightarrow> create_block cls cap mem st
      | Some c \<Rightarrow>
          let (m, st1) = magazine t st
          in case mg_head m c of
               b # bs \<Rightarrow>
                 (Some b, set_refs b 1 (st1\<lparr>bp_mags := (bp_mags st1)(t \<mapsto>
                    m\<lparr>mg_head := (mg_head m)(c := bs), mg_count := (mg_count m)(c := mg_count m c - 1)\<rparr>)\<rparr>))
             | [] \<Rightarrow>
                 (case global_take c st1 of
                    (Some b, st2) \<Rightarrow> (Some b, set_refs b 1 st2)
                  | (None, st2) \<Rightarrow> create_block cls cap mem st2))"

definition alloc :: "nat \<Rightarrow> nat \<Rightarrow> bool \<times> bool \<Rightarrow> BufferPool \<Rightarrow> nat option \<times> BufferPool" where
  "alloc t n mem st =
     (let cls = class_for n; cap = (case cls of Some c \<Rightarrow> kClassCaps ! c | None \<Rightarrow> n)
      in take_or_create t cls cap mem st)"

definition recycle :: "nat \<Rightarrow> nat \<Rightarrow> BufferPool \<Rightarrow> BufferPool" where
  "recycle t b st =
     (case class_for (cap_of st b) of
        None \<Rightarrow> free_block b st
      | Some c \<Rightarrow>
          if kClassCaps ! c \<noteq> cap_of st b then free_block b st
          else let (m, st1) = magazine t st
               in if mg_count m c < kMagazineCap
                  then st1\<lparr>bp_mags := (bp_mags st1)(t \<mapsto>
                         m\<lparr>mg_head := (mg_head m)(c := b # mg_head m c), mg_count := (mg_count m)(c := mg_count m c + 1)\<rparr>)\<rparr>
                  else global_put b c st1)"

text \<open>Copying a handle, and dropping one.\<close>

definition block_ref :: "nat \<Rightarrow> BufferPool \<Rightarrow> BufferPool" where
  "block_ref b st = set_refs b (refs_of st b + 1) st"

definition block_unref :: "nat \<Rightarrow> nat \<Rightarrow> BufferPool \<Rightarrow> BufferPool" where
  "block_unref t b st =
     (let st1 = set_refs b (refs_of st b - 1) st
      in if refs_of st b \<noteq> 1 then st1
         else case bp_blocks st b of
                Some k \<Rightarrow> if bk_pooled k then recycle t b st1 else free_block b st1
              | None \<Rightarrow> st1)"

text \<open>The magazine of an exiting thread goes back to the free lists.\<close>

definition magazine_thread_exit :: "nat \<Rightarrow> BufferPool \<Rightarrow> BufferPool" where
  "magazine_thread_exit t st =
     (case bp_mags st t of
        None \<Rightarrow> st
      | Some m \<Rightarrow> fold (\<lambda>c s. fold (\<lambda>b s. global_put b c s) (mg_head m c) s) [0..<kClasses]
                    (st\<lparr>bp_mags := (bp_mags st)(t := None)\<rparr>))"

section \<open>Where a block is\<close>

datatype place = InFree nat | InMag nat nat

definition cell :: "BufferPool \<Rightarrow> place \<Rightarrow> nat list" where
  "cell st p =
     (case p of
        InFree c \<Rightarrow> bp_free st c
      | InMag t c \<Rightarrow> (case bp_mags st t of None \<Rightarrow> [] | Some m \<Rightarrow> mg_head m c))"

definition class_of :: "place \<Rightarrow> nat" where
  "class_of p = (case p of InFree c \<Rightarrow> c | InMag t c \<Rightarrow> c)"

definition free_total :: "BufferPool \<Rightarrow> nat" where
  "free_total st = (\<Sum>c<kClasses. kClassCaps ! c * length (bp_free st c))"

text \<open>
  The invariant over the cells \<^verbatim>\<open>C\<close>, the blocks \<^verbatim>\<open>B\<close> and the
  list \<^verbatim>\<open>L\<close> of blocks in flight between two places, with their classes: a cached
  block is allocated, unreferenced, of the class of its list and in one place only; an unreferenced
  block is cached or in flight.
\<close>

definition unused :: "nat \<Rightarrow> Block" where
  "unused c = \<lparr>bk_cap = kClassCaps ! c, bk_refs = 0, bk_pooled = True\<rparr>"

definition placed :: "(place \<Rightarrow> nat list) \<Rightarrow> (nat \<Rightarrow> Block option) \<Rightarrow> nat \<Rightarrow> (nat \<times> nat) list \<Rightarrow> bool" where
  "placed C B nx L \<longleftrightarrow>
     (\<forall>p. distinct (C p)) \<and> distinct (map fst L) \<and>
     (\<forall>p q b. b \<in> set (C p) \<longrightarrow> b \<in> set (C q) \<longrightarrow> p = q) \<and>
     (\<forall>p b. b \<in> set (C p) \<longrightarrow> class_of p < kClasses \<and> B b = Some (unused (class_of p)) \<and> b \<notin> fst ` set L) \<and>
     (\<forall>b c. (b, c) \<in> set L \<longrightarrow> c < kClasses \<and> B b = Some (unused c)) \<and>
     (\<forall>b k. B b = Some k \<longrightarrow> b < nx \<and> (bk_pooled k \<longrightarrow> bk_cap k \<in> set kClassCaps) \<and>
        (bk_refs k = 0 \<longrightarrow> b \<in> fst ` set L \<or> (\<exists>p. b \<in> set (C p))))"

text \<open>The counters agree with the lists and respect their limits.\<close>

definition counts_ok :: "BufferPool \<Rightarrow> bool" where
  "counts_ok st \<longleftrightarrow>
     bp_free_bytes st = free_total st \<and> bp_free_bytes st \<le> bp_max_free st \<and>
     (\<forall>t m c. bp_mags st t = Some m \<longrightarrow> mg_count m c = length (mg_head m c)) \<and>
     (\<forall>t m c. bp_mags st t = Some m \<longrightarrow> length (mg_head m c) \<le> kMagazineCap)"

definition pool_with :: "(nat \<times> nat) list \<Rightarrow> BufferPool \<Rightarrow> bool" where
  "pool_with L st \<longleftrightarrow> placed (cell st) (bp_blocks st) (bp_next st) L \<and> counts_ok st"

section \<open>Steps of the placement\<close>

lemma unused_simps [simp]:
  "bk_refs (unused c) = 0" "bk_cap (unused c) = kClassCaps ! c" "bk_pooled (unused c)"
  by (simp_all add: unused_def)

lemma class_cap: "c < kClasses \<Longrightarrow> kClassCaps ! c \<in> set kClassCaps"
  by (rule nth_mem) (simp add: kClasses_def kClassCaps_def)

lemma placed_push:
  assumes "placed C B nx ((b, c) # L)" and "class_of p = c"
  shows "placed (C(p := b # C p)) B nx L"
  using assms unfolding placed_def by (auto simp: image_iff) metis+

lemma placed_pop:
  assumes pl: "placed C B nx L" and p: "C p = b # bs"
  shows "placed (C(p := bs)) B nx ((b, class_of p) # L)"
proof -
  note P = pl [unfolded placed_def]
  have d: "distinct (C q)" for q using P by blast
  have b: "b \<in> set (C p)" "b \<notin> set bs" using p d [of p] by auto
  have only: "q = p" if "b \<in> set (C q)" for q using P b(1) that by blast
  have sub: "x \<in> set (C q)" if "x \<in> set ((C(p := bs)) q)" for x q using that p by (auto split: if_splits)
  have out: "b \<notin> set ((C(p := bs)) q)" for q using b(2) only by (cases "q = p") auto
  have stay: "x \<in> set ((C(p := bs)) q)" if "x \<in> set (C q)" "x \<noteq> b" for x q using that p by (cases "q = p") auto
  show ?thesis
    unfolding placed_def
  proof (intro conjI allI impI)
    show "distinct ((C(p := bs)) q)" for q using d [of q] d [of p] p by simp
    show "distinct (map fst ((b, class_of p) # L))" using P b(1) by auto
    show "q = r" if "x \<in> set ((C(p := bs)) q)" "x \<in> set ((C(p := bs)) r)" for q r x
      using P sub [OF that(1)] sub [OF that(2)] by blast
    show "class_of q < kClasses" "B x = Some (unused (class_of q))" "x \<notin> fst ` set ((b, class_of p) # L)"
      if "x \<in> set ((C(p := bs)) q)" for q x
      using P sub [OF that] out [of q] that by auto
    show "c < kClasses" "B x = Some (unused c)" if "(x, c) \<in> set ((b, class_of p) # L)" for x c
      using P b(1) that by auto
    show "bk_cap k \<in> set kClassCaps" if "B x = Some k" "bk_pooled k" for x k using P that by blast
    show "x < nx" if "B x = Some k" for x k using P that by blast
    show "x \<in> fst ` set ((b, class_of p) # L) \<or> (\<exists>q. x \<in> set ((C(p := bs)) q))" if "B x = Some k" "bk_refs k = 0" for x k
    proof (cases "x = b")
      case False
      then show ?thesis using P that stay [of x] by (metis image_subset_iff list.set_intros(2) set_subset_Cons subsetD image_mono)
    qed simp
  qed
qed

lemma placed_free:
  assumes "placed C B nx ((b, c) # L)"
  shows "placed C (B(b := None)) nx L"
  using assms unfolding placed_def by (auto simp: image_iff)

lemma placed_use:
  assumes "placed C B nx ((b, c) # L)"
  shows "placed C (B(b \<mapsto> (unused c)\<lparr>bk_refs := Suc n\<rparr>)) nx L"
  using assms class_cap unfolding placed_def by (auto simp: image_iff)

lemma placed_new:
  assumes "placed C B nx L" and "pooled \<Longrightarrow> cap \<in> set kClassCaps"
  shows "placed C (B(nx \<mapsto> \<lparr>bk_cap = cap, bk_refs = Suc n, bk_pooled = pooled\<rparr>)) (Suc nx) L"
proof -
  have "B nx = None" using assms(1) unfolding placed_def by (metis less_irrefl option.exhaust)
  with assms show ?thesis unfolding placed_def by (auto simp: image_iff less_Suc_eq)
qed

lemma placed_drop:
  assumes "placed C B nx L" and "B b = Some k" and "bk_refs k \<noteq> 0" and "bk_pooled k" and "bk_cap k = kClassCaps ! c" and "c < kClasses"
  shows "placed C (B(b \<mapsto> k\<lparr>bk_refs := 0\<rparr>)) nx ((b, c) # L)"
  using assms class_cap [of c] unfolding placed_def by (auto simp: image_iff unused_def)

lemma placed_refs:
  assumes "placed C B nx L" and "B b = Some k" and "bk_refs k \<noteq> 0" and "n \<noteq> 0"
  shows "placed C (B(b \<mapsto> k\<lparr>bk_refs := n\<rparr>)) nx L"
  using assms unfolding placed_def by (auto simp: image_iff)

lemma placed_gone:
  assumes "placed C B nx L" and "B b = Some k" and "bk_refs k \<noteq> 0"
  shows "placed C (B(b := None)) nx L"
  using assms unfolding placed_def by (auto simp: image_iff)

section \<open>The operations keep the invariant\<close>

lemma cell_simps [simp]:
  "cell (st\<lparr>bp_free := (bp_free st)(c := xs)\<rparr>) = (cell st)(InFree c := xs)"
  "cell (st\<lparr>bp_free_bytes := n\<rparr>) = cell st"
  "cell (st\<lparr>bp_blocks := B\<rparr>) = cell st"
  "cell (st\<lparr>bp_next := n\<rparr>) = cell st"
  by (auto simp: cell_def fun_eq_iff split: place.splits)

lemma cell_mag:
  "bp_mags st t = Some m \<Longrightarrow>
     cell (st\<lparr>bp_mags := (bp_mags st)(t \<mapsto> m\<lparr>mg_head := (mg_head m)(c := xs), mg_count := k\<rparr>)\<rparr>) = (cell st)(InMag t c := xs)"
  by (auto simp: cell_def fun_eq_iff split: place.splits)

lemma class_of_simps [simp]: "class_of (InFree c) = c" "class_of (InMag t c) = c"
  by (simp_all add: class_of_def)

lemma free_total_upd:
  assumes "c < kClasses"
  shows "free_total (st\<lparr>bp_free := (bp_free st)(c := xs)\<rparr>) + kClassCaps ! c * length (bp_free st c) =
    free_total st + kClassCaps ! c * length xs"
proof -
  have c: "c \<in> {..<kClasses}" using assms by simp
  have same: "(\<Sum>d\<in>{..<kClasses} - {c}. kClassCaps ! d * length (((bp_free st)(c := xs)) d)) =
      (\<Sum>d\<in>{..<kClasses} - {c}. kClassCaps ! d * length (bp_free st d))"
    by (rule sum.cong) auto
  show ?thesis
    unfolding free_total_def using same by (simp add: sum.remove [OF finite_lessThan c])
qed

lemma free_total_simps [simp]:
  "free_total (st\<lparr>bp_free_bytes := n\<rparr>) = free_total st" "free_total (st\<lparr>bp_blocks := B\<rparr>) = free_total st"
  "free_total (st\<lparr>bp_mags := M\<rparr>) = free_total st" "free_total (st\<lparr>bp_next := n\<rparr>) = free_total st"
  by (simp_all add: free_total_def)

lemma placed_cap: "placed (cell st) (bp_blocks st) nx ((b, c) # L) \<Longrightarrow> cap_of st b = kClassCaps ! c \<and> c < kClasses"
  by (auto simp: placed_def cap_of_def)

lemma placed_cell: "placed C (bp_blocks st) nx L \<Longrightarrow> b \<in> set (C p) \<Longrightarrow> cap_of st b = kClassCaps ! class_of p \<and> class_of p < kClasses"
  by (auto simp: placed_def cap_of_def)

lemma free_block_ok: "pool_with ((b, c) # L) st \<Longrightarrow> pool_with L (free_block b st)"
  by (auto simp: pool_with_def free_block_def counts_ok_def intro: placed_free)

lemma global_put_ok:
  assumes "pool_with ((b, c) # L) st"
  shows "pool_with L (global_put b c st)"
proof (cases "bp_free_bytes st + cap_of st b > bp_max_free st")
  case True
  then show ?thesis using free_block_ok [OF assms] by (simp add: global_put_def)
next
  case False
  have cap: "cap_of st b = kClassCaps ! c" "c < kClasses" using assms placed_cap by (auto simp: pool_with_def)
  have "free_total (st\<lparr>bp_free := (bp_free st)(c := b # bp_free st c)\<rparr>) = free_total st + kClassCaps ! c"
    using free_total_upd [OF cap(2), of st "b # bp_free st c"] by simp
  moreover have "placed ((cell st)(InFree c := b # cell st (InFree c))) (bp_blocks st) (bp_next st) L"
    using assms by (intro placed_push) (auto simp: pool_with_def)
  moreover have "cell st (InFree c) = bp_free st c" by (simp add: cell_def)
  ultimately show ?thesis
    using assms False cap by (simp add: pool_with_def global_put_def counts_ok_def)
qed

lemma magazine_ok:
  assumes "magazine t st = (m, st1)" and "pool_with L st"
  shows "pool_with L st1" and "bp_mags st1 t = Some m" and "bp_blocks st1 = bp_blocks st" and "cell st1 = cell st"
proof -
  have c: "cell st1 = cell st"
    using assms(1) by (auto simp: magazine_def new_magazine_def cell_def fun_eq_iff split: option.splits place.splits if_splits)
  then show "cell st1 = cell st" .
  show "pool_with L st1" "bp_mags st1 t = Some m" "bp_blocks st1 = bp_blocks st"
    using assms c by (auto simp: magazine_def pool_with_def counts_ok_def new_magazine_def split: option.splits if_splits)
qed

lemma mag_push_ok:
  assumes "pool_with ((b, c) # L) st" and "bp_mags st t = Some m" and "mg_count m c < kMagazineCap"
  shows "pool_with L (st\<lparr>bp_mags := (bp_mags st)(t \<mapsto>
    m\<lparr>mg_head := (mg_head m)(c := b # mg_head m c), mg_count := (mg_count m)(c := mg_count m c + 1)\<rparr>)\<rparr>)"
proof -
  have "cell st (InMag t c) = mg_head m c" using assms(2) by (simp add: cell_def)
  then have "placed ((cell st)(InMag t c := b # mg_head m c)) (bp_blocks st) (bp_next st) L"
    using assms placed_push [of "cell st" "bp_blocks st" "bp_next st" b c L "InMag t c"] by (auto simp: pool_with_def)
  then show ?thesis using assms by (auto simp: pool_with_def cell_mag counts_ok_def)
qed

lemma mag_pop_ok:
  assumes "pool_with L st" and "bp_mags st t = Some m" and "mg_head m c = b # bs"
  shows "pool_with ((b, c) # L) (st\<lparr>bp_mags := (bp_mags st)(t \<mapsto>
    m\<lparr>mg_head := (mg_head m)(c := bs), mg_count := (mg_count m)(c := mg_count m c - 1)\<rparr>)\<rparr>)"
proof -
  have "cell st (InMag t c) = b # bs" using assms(2,3) by (simp add: cell_def)
  then have "placed ((cell st)(InMag t c := bs)) (bp_blocks st) (bp_next st) ((b, c) # L)"
    using assms placed_pop [of "cell st" "bp_blocks st" "bp_next st" L "InMag t c" b bs] by (auto simp: pool_with_def)
  moreover have "mg_count m c = length (mg_head m c)" "length (mg_head m c) \<le> kMagazineCap"
    using assms(1,2) unfolding pool_with_def counts_ok_def by blast+
  ultimately show ?thesis using assms by (auto simp: pool_with_def cell_mag counts_ok_def)
qed

lemma global_take_ok:
  assumes "global_take c st = (r, st1)" and "pool_with L st"
  shows "pool_with (case r of None \<Rightarrow> L | Some b \<Rightarrow> (b, c) # L) st1" and "bp_blocks st1 = bp_blocks st"
proof -
  show "bp_blocks st1 = bp_blocks st" using assms by (auto simp: global_take_def split: list.splits)
  show "pool_with (case r of None \<Rightarrow> L | Some b \<Rightarrow> (b, c) # L) st1"
  proof (cases "bp_free st c")
    case Nil
    then show ?thesis using assms by (auto simp: global_take_def)
  next
    case (Cons b bs)
    then have cl: "cell st (InFree c) = b # bs" by (simp add: cell_def)
    have pl: "placed (cell st) (bp_blocks st) (bp_next st) L" using assms(2) by (simp add: pool_with_def)
    have cap: "cap_of st b = kClassCaps ! c" "c < kClasses" using placed_cell [OF pl, of b "InFree c"] cl by auto
    have "free_total (st\<lparr>bp_free := (bp_free st)(c := bs)\<rparr>) + kClassCaps ! c = free_total st"
      using free_total_upd [OF cap(2), of st bs] Cons by simp
    moreover have "placed ((cell st)(InFree c := bs)) (bp_blocks st) (bp_next st) ((b, c) # L)"
      using placed_pop [OF pl cl] by simp
    ultimately show ?thesis
      using assms Cons cap by (auto simp: global_take_def pool_with_def counts_ok_def)
  qed
qed

lemma use_ok:
  assumes "pool_with ((b, c) # L) st"
  shows "pool_with L (set_refs b 1 st)" and "bp_blocks (set_refs b 1 st) = (bp_blocks st)(b \<mapsto> (unused c)\<lparr>bk_refs := 1\<rparr>)"
proof -
  have b: "bp_blocks st b = Some (unused c)" using assms by (auto simp: pool_with_def placed_def)
  then show *: "bp_blocks (set_refs b 1 st) = (bp_blocks st)(b \<mapsto> (unused c)\<lparr>bk_refs := 1\<rparr>)" by (simp add: set_refs_def)
  have "placed (cell st) ((bp_blocks st)(b \<mapsto> (unused c)\<lparr>bk_refs := Suc 0\<rparr>)) (bp_next st) L"
    using assms by (intro placed_use) (simp add: pool_with_def)
  then show "pool_with L (set_refs b 1 st)" using assms b by (simp add: pool_with_def set_refs_def counts_ok_def)
qed

lemma fold_free_block:
  "fold free_block bs st = st\<lparr>bp_blocks := \<lambda>b. if b \<in> set bs then None else bp_blocks st b\<rparr>"
  by (induction bs arbitrary: st) (auto simp: free_block_def fun_eq_iff)

lemma drop_free_eq:
  "drop_free_locked st = st\<lparr>bp_free := \<lambda>c. if c < kClasses then [] else bp_free st c,
     bp_blocks := \<lambda>b. if (\<exists>c<kClasses. b \<in> set (bp_free st c)) then None else bp_blocks st b, bp_free_bytes := 0\<rparr>"
proof -
  define F where "F c s = fold free_block (bp_free s c) (s\<lparr>bp_free := (bp_free s)(c := [])\<rparr>)" for c s
  have "fold F [0..<n] st =
    st\<lparr>bp_free := \<lambda>c. if c < n then [] else bp_free st c,
       bp_blocks := \<lambda>b. if (\<exists>c<n. b \<in> set (bp_free st c)) then None else bp_blocks st b\<rparr>" for n
  proof (induction n)
    case (Suc n)
    have F: "F c s = s\<lparr>bp_free := (bp_free s)(c := []), bp_blocks := \<lambda>b. if b \<in> set (bp_free s c) then None else bp_blocks s b\<rparr>" for c s
      by (simp add: F_def fold_free_block cong: if_cong)
    have "fold F [0..<Suc n] st = F n (fold F [0..<n] st)" by simp
    also have "\<dots> = st\<lparr>bp_free := \<lambda>c. if c < Suc n then [] else bp_free st c,
       bp_blocks := \<lambda>b. if (\<exists>c<Suc n. b \<in> set (bp_free st c)) then None else bp_blocks st b\<rparr>"
      unfolding Suc.IH F by (rule BufferPool.equality) (auto simp: fun_eq_iff less_Suc_eq)
    finally show ?case .
  qed simp
  then show ?thesis by (simp add: drop_free_locked_def F_def [abs_def])
qed

lemma placedD:
  assumes "placed C B nx L"
  shows "distinct (C p)" and "distinct (map fst L)"
    and "b \<in> set (C p) \<Longrightarrow> b \<in> set (C q) \<Longrightarrow> p = q"
    and "b \<in> set (C p) \<Longrightarrow> class_of p < kClasses" and "b \<in> set (C p) \<Longrightarrow> B b = Some (unused (class_of p))"
    and "b \<in> set (C p) \<Longrightarrow> b \<notin> fst ` set L"
    and "(b, c) \<in> set L \<Longrightarrow> c < kClasses" and "(b, c) \<in> set L \<Longrightarrow> B b = Some (unused c)"
    and "B b = Some k \<Longrightarrow> b < nx" and "B b = Some k \<Longrightarrow> bk_pooled k \<Longrightarrow> bk_cap k \<in> set kClassCaps"
    and "B b = Some k \<Longrightarrow> bk_refs k = 0 \<Longrightarrow> b \<in> fst ` set L \<or> (\<exists>p. b \<in> set (C p))"
  using assms unfolding placed_def by blast+

lemma placed_empty:
  assumes "placed C B nx L"
  shows "placed (\<lambda>p. if S p then [] else C p) (\<lambda>b. if (\<exists>p. S p \<and> b \<in> set (C p)) then None else B b) nx L"
proof -
  note P = placedD [OF assms]
  have kept: "\<not> (\<exists>q. S q \<and> b \<in> set (C q))" if "b \<in> set (C p)" "\<not> S p" for b p
    using P(3) [OF that(1)] that(2) by blast
  have fl: "\<not> (\<exists>q. S q \<and> b \<in> set (C q))" if "(b, c) \<in> set L" for b c
    using P(6) [of b] that by (force simp: image_iff)
  show ?thesis
    unfolding placed_def
  proof (intro conjI allI impI)
    show "distinct (if S p then [] else C p)" for p using P(1) by simp
    show "distinct (map fst L)" by (rule P(2))
    show "p = q" if "b \<in> set (if S p then [] else C p)" "b \<in> set (if S q then [] else C q)" for p q b
      using P(3) [of b p q] that by (simp split: if_splits)
    fix p b assume "b \<in> set (if S p then [] else C p)"
    then have b: "b \<in> set (C p)" "\<not> S p" by (simp_all split: if_splits)
    show "class_of p < kClasses" "(if \<exists>p. S p \<and> b \<in> set (C p) then None else B b) = Some (unused (class_of p))" "b \<notin> fst ` set L"
      using P(4) [OF b(1)] P(5) [OF b(1)] P(6) [OF b(1)] kept [OF b] by simp_all
  next
    fix b c assume "(b, c) \<in> set L"
    then show "c < kClasses" "(if \<exists>p. S p \<and> b \<in> set (C p) then None else B b) = Some (unused c)"
      using P(7,8) fl by simp_all
  next
    fix b k assume "(if \<exists>p. S p \<and> b \<in> set (C p) then None else B b) = Some k"
    then have b: "\<not> (\<exists>p. S p \<and> b \<in> set (C p))" "B b = Some k" by (simp_all split: if_splits)
    show "b < nx" by (rule P(9) [OF b(2)])
    show "bk_cap k \<in> set kClassCaps" if "bk_pooled k" by (rule P(10) [OF b(2) that])
    show "b \<in> fst ` set L \<or> (\<exists>p. b \<in> set (if S p then [] else C p))" if "bk_refs k = 0"
      using P(11) [OF b(2) that] b(1) by auto
  qed
qed

lemma drop_free_ok:
  assumes "pool_with L st"
  shows "pool_with L (drop_free_locked st)"
proof -
  define S where "S p = (case p of InFree c \<Rightarrow> c < kClasses | InMag t c \<Rightarrow> False)" for p
  have "cell (drop_free_locked st) = (\<lambda>p. if S p then [] else cell st p)"
    by (auto simp: drop_free_eq cell_def S_def fun_eq_iff split: place.splits)
  moreover have "(\<exists>p. S p \<and> b \<in> set (cell st p)) \<longleftrightarrow> (\<exists>c<kClasses. b \<in> set (bp_free st c))" for b
  proof
    assume "\<exists>p. S p \<and> b \<in> set (cell st p)"
    then obtain p where "S p" "b \<in> set (cell st p)" by blast
    then show "\<exists>c<kClasses. b \<in> set (bp_free st c)" by (cases p) (auto simp: S_def cell_def)
  next
    assume "\<exists>c<kClasses. b \<in> set (bp_free st c)"
    then obtain c where "c < kClasses" "b \<in> set (bp_free st c)" by blast
    then show "\<exists>p. S p \<and> b \<in> set (cell st p)" by (intro exI [of _ "InFree c"]) (simp add: S_def cell_def)
  qed
  ultimately show ?thesis
    using placed_empty [of "cell st" "bp_blocks st" "bp_next st" L S] assms
    by (auto simp: pool_with_def drop_free_eq counts_ok_def free_total_def)
qed

lemma drop_free_keeps:
  assumes "pool_with L st" and "refs_of st b \<noteq> 0"
  shows "bp_blocks (drop_free_locked st) b = bp_blocks st b"
proof -
  have "b \<notin> set (bp_free st c)" for c
    using assms placedD(5) [of "cell st" "bp_blocks st" "bp_next st" L b "InFree c"]
    by (auto simp: pool_with_def refs_of_def cell_def)
  then show ?thesis by (simp add: drop_free_eq)
qed

text \<open>What an allocation answers: a block nobody references, large enough; the blocks in use stay as they are.\<close>

definition served :: "nat \<Rightarrow> nat option \<Rightarrow> BufferPool \<Rightarrow> BufferPool \<Rightarrow> bool" where
  "served n r st st' \<longleftrightarrow>
     (\<forall>b. r = Some b \<longrightarrow> refs_of st b = 0 \<and> refs_of st' b = 1 \<and> n \<le> cap_of st' b) \<and>
     (\<forall>b. refs_of st b \<noteq> 0 \<longrightarrow> bp_blocks st' b = bp_blocks st b)"

lemma new_block_ok:
  assumes "pool_with [] st" and "cls \<noteq> None \<Longrightarrow> cap \<in> set kClassCaps" and "n \<le> cap"
  shows "pool_with [] (snd (new_block cls cap st)) \<and> served n (fst (new_block cls cap st)) st (snd (new_block cls cap st))"
proof -
  have nx: "bp_blocks st (bp_next st) = None"
    using assms(1) unfolding pool_with_def placed_def by (metis less_irrefl option.exhaust)
  have "pool_with [] (snd (new_block cls cap st))"
    using assms(1) placed_new [of "cell st" "bp_blocks st" "bp_next st" "[]" "cls \<noteq> None" cap 0] assms(2)
    by (auto simp: pool_with_def new_block_def counts_ok_def)
  moreover have "served n (fst (new_block cls cap st)) st (snd (new_block cls cap st))"
    using nx assms(3) by (auto simp: served_def new_block_def refs_of_def cap_of_def)
  ultimately show ?thesis by simp
qed

lemma create_block_ok:
  assumes "pool_with [] st" and "cls \<noteq> None \<Longrightarrow> cap \<in> set kClassCaps" and "n \<le> cap"
  shows "pool_with [] (snd (create_block cls cap mem st)) \<and> served n (fst (create_block cls cap mem st)) st (snd (create_block cls cap mem st))"
proof (cases "fst mem")
  case True
  then show ?thesis using new_block_ok [OF assms] by (simp add: create_block_def)
next
  case False
  note ok = drop_free_ok [OF assms(1)]
  have keep: "bp_blocks (drop_free_locked st) b = bp_blocks st b" if "refs_of st b \<noteq> 0" for b
    using drop_free_keeps [OF assms(1) that] .
  have "refs_of st b = 0" if "refs_of (drop_free_locked st) b = 0" for b
    using keep [of b] that by (metis refs_of_def)
  moreover have "refs_of (drop_free_locked st) b \<noteq> 0" if "refs_of st b \<noteq> 0" for b
    using keep [OF that] that by (simp add: refs_of_def)
  ultimately show ?thesis
    using False ok new_block_ok [OF ok assms(2,3)] keep by (simp add: create_block_def Let_def served_def)
qed

lemma class_for_Some: "class_for n = Some c \<Longrightarrow> c < kClasses \<and> n \<le> kClassCaps ! c"
  by (auto simp: class_for_def find_Some_iff)

lemma class_for_cap: "cap \<in> set kClassCaps \<Longrightarrow> \<exists>c. class_for cap = Some c \<and> kClassCaps ! c = cap"
  by (auto simp: class_for_def kClassCaps_def kClasses_def upt_conv_Cons)

lemma class_caps: "distinct kClassCaps" "length kClassCaps = kClasses"
  by (simp_all add: kClassCaps_def kClasses_def)

lemma refs_of_with: "pool_with ((b, c) # L) st \<Longrightarrow> refs_of st b = 0"
  by (auto simp: pool_with_def placed_def refs_of_def)

text \<open>A cached block taken into use.\<close>

lemma served_cached:
  assumes "pool_with [(b, c)] st1" and "bp_blocks st1 = bp_blocks st" and "n \<le> kClassCaps ! c"
  shows "pool_with [] (set_refs b 1 st1) \<and> served n (Some b) st (set_refs b 1 st1)"
  using use_ok [OF assms(1)] refs_of_with [OF assms(1)] assms(2,3)
  by (auto simp: served_def refs_of_def cap_of_def)

lemma take_or_create_ok:
  assumes "pool_with [] st" and "case cls of None \<Rightarrow> n \<le> cap | Some c \<Rightarrow> c < kClasses \<and> n \<le> kClassCaps ! c \<and> cap = kClassCaps ! c"
    and "take_or_create t cls cap mem st = (r, st')"
  shows "pool_with [] st' \<and> served n r st st'"
proof (cases cls)
  case None
  then show ?thesis using assms create_block_ok [OF assms(1), of None cap n mem] by (simp add: take_or_create_def)
next
  case (Some c)
  obtain m st1 where m: "magazine t st = (m, st1)" by force
  note mok = magazine_ok [OF m assms(1)]
  have cap: "cap = kClassCaps ! c" "n \<le> kClassCaps ! c" "c < kClasses" using assms(2) Some by auto
  show ?thesis
  proof (cases "mg_head m c")
    case (Cons b bs)
    from mag_pop_ok [OF mok(1,2) Cons] served_cached [of b c _ st n] show ?thesis
      using assms(3) Some m Cons cap mok(3) by (auto simp: take_or_create_def)
  next
    case Nil
    obtain g st2 where g: "global_take c st1 = (g, st2)" by force
    note gok = global_take_ok [OF g mok(1)]
    show ?thesis
    proof (cases g)
      case None
      with gok have "pool_with [] st2" "bp_blocks st2 = bp_blocks st" using mok(3) by simp_all
      then show ?thesis
        using create_block_ok [of st2 cls cap n mem] assms(3) Some m Nil g None cap class_cap [of c]
        by (auto simp: take_or_create_def served_def refs_of_def)
    next
      case (Some b)
      with gok have "pool_with [(b, c)] st2" "bp_blocks st2 = bp_blocks st" using mok(3) by simp_all
      then show ?thesis
        using served_cached [of b c st2 st n] assms(3) \<open>cls = Some c\<close> m Nil g Some cap by (auto simp: take_or_create_def)
    qed
  qed
qed

lemma alloc_ok:
  assumes "pool_with [] st" and "alloc t n mem st = (r, st')"
  shows "pool_with [] st' \<and> served n r st st'"
proof (rule take_or_create_ok [OF assms(1)])
  show "take_or_create t (class_for n) (case class_for n of Some c \<Rightarrow> kClassCaps ! c | None \<Rightarrow> n) mem st = (r, st')"
    using assms(2) by (simp add: alloc_def Let_def)
qed (auto dest: class_for_Some split: option.splits)

lemma recycle_ok:
  assumes "pool_with [(b, c)] st"
  shows "pool_with [] (recycle t b st)"
proof -
  have cap: "cap_of st b = kClassCaps ! c" "c < kClasses" using assms placed_cap by (auto simp: pool_with_def)
  obtain d where d: "class_for (cap_of st b) = Some d" "kClassCaps ! d = cap_of st b"
    using class_for_cap [of "cap_of st b"] class_cap [OF cap(2)] cap(1) by metis
  have "d < kClasses" using class_for_Some d(1) by blast
  with d cap have dc: "d = c" using nth_eq_iff_index_eq [OF class_caps(1), of d c] class_caps(2) by simp
  obtain m st1 where m: "magazine t st = (m, st1)" by force
  note mok = magazine_ok [OF m assms]
  show ?thesis
    using d dc m mag_push_ok [OF mok(1,2)] global_put_ok [OF mok(1)] by (simp add: recycle_def)
qed

lemma block_ref_ok:
  assumes "pool_with [] st" and "refs_of st b \<noteq> 0"
  shows "pool_with [] (block_ref b st)"
proof -
  obtain k where k: "bp_blocks st b = Some k" "bk_refs k \<noteq> 0" using assms(2) by (auto simp: refs_of_def split: option.splits)
  have pl: "placed (cell st) (bp_blocks st) (bp_next st) []" using assms(1) by (simp add: pool_with_def)
  show ?thesis
    using assms(1) placed_refs [OF pl k, of "Suc (bk_refs k)"] k
    by (simp add: pool_with_def block_ref_def set_refs_def refs_of_def counts_ok_def)
qed

lemma block_unref_ok:
  assumes "pool_with [] st" and "refs_of st b \<noteq> 0"
  shows "pool_with [] (block_unref t b st)"
proof -
  obtain k where k: "bp_blocks st b = Some k" "bk_refs k \<noteq> 0" using assms(2) by (auto simp: refs_of_def split: option.splits)
  have pl: "placed (cell st) (bp_blocks st) (bp_next st) []" using assms(1) by (simp add: pool_with_def)
  consider "bk_refs k \<noteq> 1" | "bk_refs k = 1" "bk_pooled k" | "bk_refs k = 1" "\<not> bk_pooled k" by blast
  then show ?thesis
  proof cases
    case 1
    then show ?thesis
      using assms(1) placed_refs [OF pl k, of "bk_refs k - 1"] k
      by (simp add: pool_with_def block_unref_def set_refs_def refs_of_def counts_ok_def Let_def)
  next
    case 2
    obtain c where c: "c < kClasses" "kClassCaps ! c = bk_cap k"
      using placedD(10) [OF pl k(1) 2(2)] by (metis class_for_Some class_for_cap)
    have "pool_with [(b, c)] (set_refs b 0 st)"
      using assms(1) placed_drop [OF pl k 2(2) c(2) [symmetric] c(1)] k by (simp add: pool_with_def set_refs_def counts_ok_def)
    then show ?thesis using recycle_ok 2 k by (simp add: block_unref_def refs_of_def Let_def)
  next
    case 3
    then show ?thesis
      using assms(1) placed_gone [OF pl k] k by (simp add: pool_with_def block_unref_def set_refs_def refs_of_def counts_ok_def free_block_def Let_def)
  qed
qed

section \<open>Thread exit\<close>

lemma placed_perm: "placed C B nx L \<Longrightarrow> mset L = mset L' \<Longrightarrow> placed C B nx L'"
proof -
  assume "mset L = mset L'"
  then have "set L = set L'" and "mset (map fst L) = mset (map fst L')" by (auto dest: mset_eq_setD)
  moreover from this(2) have "distinct (map fst L) = distinct (map fst L')" by (rule mset_eq_imp_distinct_iff)
  ultimately show "placed C B nx L \<Longrightarrow> placed C B nx L'" unfolding placed_def by simp
qed

lemma placed_flush:
  "placed C B nx L \<Longrightarrow> placed (C(p := [])) B nx (map (\<lambda>b. (b, class_of p)) (C p) @ L)"
proof (induction "C p" arbitrary: C L)
  case Nil
  then show ?case by (metis append_Nil fun_upd_triv list.simps(8))
next
  case (Cons b bs)
  from placed_pop [OF Cons.prems Cons.hyps(2) [symmetric]]
  have "placed (C(p := bs)) B nx ((b, class_of p) # L)" .
  from Cons.hyps(1) [OF _ this] have "placed (C(p := [])) B nx (map (\<lambda>b. (b, class_of p)) bs @ (b, class_of p) # L)" by simp
  then show ?case by (rule placed_perm) (simp add: Cons.hyps(2) [symmetric])
qed

lemma placed_flush_all:
  assumes "placed C B nx L" and "distinct ps"
  shows "placed (\<lambda>p. if p \<in> set ps then [] else C p) B nx (concat (map (\<lambda>p. map (\<lambda>b. (b, class_of p)) (C p)) ps) @ L)"
  using assms
proof (induction ps)
  case (Cons p ps)
  then have "placed (\<lambda>q. if q \<in> set ps then [] else C q) B nx (concat (map (\<lambda>p. map (\<lambda>b. (b, class_of p)) (C p)) ps) @ L)" by simp
  from placed_flush [OF this, of p]
  have "placed ((\<lambda>q. if q \<in> set ps then [] else C q)(p := [])) B nx
      (map (\<lambda>b. (b, class_of p)) (C p) @ concat (map (\<lambda>p. map (\<lambda>b. (b, class_of p)) (C p)) ps) @ L)"
    using Cons.prems(2) by simp
  moreover have "(\<lambda>q. if q \<in> set ps then [] else C q)(p := []) = (\<lambda>q. if q \<in> set (p # ps) then [] else C q)" by auto
  ultimately show ?case by simp
qed simp

lemma put_all_ok:
  "pool_with (map (\<lambda>b. (b, c)) bs @ L) s \<Longrightarrow> pool_with L (fold (\<lambda>b s. global_put b c s) bs s)"
  by (induction bs arbitrary: s) (auto dest: global_put_ok)

lemma put_classes_ok:
  "pool_with (concat (map (\<lambda>c. map (\<lambda>b. (b, c)) (h c)) cs)) s \<Longrightarrow>
   pool_with [] (fold (\<lambda>c s. fold (\<lambda>b s. global_put b c s) (h c) s) cs s)"
  by (induction cs arbitrary: s) (auto dest: put_all_ok)

lemma thread_exit_ok:
  assumes "pool_with [] st"
  shows "pool_with [] (magazine_thread_exit t st)"
proof (cases "bp_mags st t")
  case None
  then show ?thesis using assms by (simp add: magazine_thread_exit_def)
next
  case (Some m)
  have pl: "placed (cell st) (bp_blocks st) (bp_next st) []" using assms by (simp add: pool_with_def)
  have none: "mg_head m c = []" if "\<not> c < kClasses" for c
    using placedD(4) [OF pl, of _ "InMag t c"] that Some by (cases "mg_head m c") (auto simp: cell_def)
  have cells: "cell (st\<lparr>bp_mags := (bp_mags st)(t := None)\<rparr>) = (\<lambda>p. if p \<in> set (map (InMag t) [0..<kClasses]) then [] else cell st p)"
    using Some none by (auto simp: cell_def fun_eq_iff image_iff split: place.splits)
  have fl: "concat (map (\<lambda>p. map (\<lambda>b. (b, class_of p)) (cell st p)) (map (InMag t) [0..<kClasses])) =
      concat (map (\<lambda>c. map (\<lambda>b. (b, c)) (mg_head m c)) [0..<kClasses])"
    using Some by (simp add: cell_def comp_def)
  have "distinct (map (InMag t) [0..<kClasses])" by (simp add: distinct_map inj_on_def)
  from placed_flush_all [OF pl this] have
    "pool_with (concat (map (\<lambda>c. map (\<lambda>b. (b, c)) (mg_head m c)) [0..<kClasses])) (st\<lparr>bp_mags := (bp_mags st)(t := None)\<rparr>)"
    using assms unfolding fl by (auto simp: pool_with_def cells counts_ok_def)
  from put_classes_ok [OF this] Some show ?thesis by (simp add: magazine_thread_exit_def)
qed

section \<open>Every run of the pool\<close>

inductive pool_reach :: "nat \<Rightarrow> BufferPool \<Rightarrow> bool" for mx where
  start: "pool_reach mx (new_pool mx)"
| alloc: "pool_reach mx st \<Longrightarrow> pool_reach mx (snd (alloc t n mem st))"
| copy: "pool_reach mx st \<Longrightarrow> refs_of st b \<noteq> 0 \<Longrightarrow> pool_reach mx (block_ref b st)"
| unref: "pool_reach mx st \<Longrightarrow> refs_of st b \<noteq> 0 \<Longrightarrow> pool_reach mx (block_unref t b st)"
| exit: "pool_reach mx st \<Longrightarrow> pool_reach mx (magazine_thread_exit t st)"

lemma new_pool_ok: "pool_with [] (new_pool mx)"
  by (auto simp: pool_with_def placed_def counts_ok_def new_pool_def cell_def free_total_def split: place.splits)

lemma pool_reach_ok: "pool_reach mx st \<Longrightarrow> pool_with [] st"
  by (induction rule: pool_reach.induct)
    (auto intro: new_pool_ok block_ref_ok block_unref_ok thread_exit_ok dest: alloc_ok [OF _ prod.collapse [symmetric]])

lemma pool_max_simps [simp]:
  "bp_max_free (global_put b c st) = bp_max_free st" "bp_max_free (free_block b st) = bp_max_free st"
  "bp_max_free (set_refs b n st) = bp_max_free st" "bp_max_free (snd (magazine t st)) = bp_max_free st"
  "bp_max_free (snd (global_take c st)) = bp_max_free st" "bp_max_free (drop_free_locked st) = bp_max_free st"
  "bp_max_free (snd (new_block cls cap st)) = bp_max_free st" "bp_max_free (block_ref b st) = bp_max_free st"
  by (simp_all add: global_put_def free_block_def set_refs_def magazine_def global_take_def drop_free_eq new_block_def block_ref_def
      split: option.splits list.splits)

lemma pool_max_ops [simp]:
  "bp_max_free (snd (alloc t n mem st)) = bp_max_free st" "bp_max_free (block_unref t b st) = bp_max_free st"
  "bp_max_free (magazine_thread_exit t st) = bp_max_free st"
proof -
  have mg: "bp_max_free st1 = bp_max_free s" if "magazine t s = (m, st1)" for m st1 s using pool_max_simps(4) [of t s] that by simp
  have gt: "bp_max_free st1 = bp_max_free s" if "global_take c s = (m, st1)" for c m st1 s using pool_max_simps(5) [of c s] that by simp
  show "bp_max_free (snd (alloc t n mem st)) = bp_max_free st"
    by (auto simp: alloc_def take_or_create_def create_block_def Let_def dest!: mg gt split: option.splits prod.splits list.splits)
  show "bp_max_free (block_unref t b st) = bp_max_free st"
    by (auto simp: block_unref_def recycle_def Let_def dest: mg split: option.splits prod.splits)
  have 1: "bp_max_free (fold (\<lambda>b s. global_put b c s) bs s) = bp_max_free s" for c bs s by (induction bs arbitrary: s) auto
  have "bp_max_free (fold (\<lambda>c s. fold (\<lambda>b s. global_put b c s) (h c) s) cs s) = bp_max_free s" for h cs s
    by (induction cs arbitrary: s) (auto simp: 1)
  then show "bp_max_free (magazine_thread_exit t st) = bp_max_free st" by (simp add: magazine_thread_exit_def split: option.splits)
qed

lemma pool_reach_max: "pool_reach mx st \<Longrightarrow> bp_max_free st = mx"
  by (induction rule: pool_reach.induct) (auto simp: new_pool_def)


text \<open>C16: the free lists never hold more than the watermark and their byte count is exact, a magazine holds at most 16 blocks of a
  class, and a block without references is cached in exactly one place: none is lost and none is cached twice.\<close>

theorem pool_bounded:
  assumes "pool_reach mx st"
  shows "bp_free_bytes st = (\<Sum>c<kClasses. kClassCaps ! c * length (bp_free st c)) \<and> bp_free_bytes st \<le> mx \<and>
    (\<forall>t m c. bp_mags st t = Some m \<longrightarrow> mg_count m c = length (mg_head m c) \<and> mg_count m c \<le> 16) \<and>
    (\<forall>b k. bp_blocks st b = Some k \<longrightarrow> (bk_refs k = 0 \<longleftrightarrow> (\<exists>!p. b \<in> set (cell st p)))) \<and> (\<forall>p. distinct (cell st p))"
proof -
  have ok: "placed (cell st) (bp_blocks st) (bp_next st) []" "counts_ok st"
    using pool_reach_ok [OF assms] by (simp_all add: pool_with_def)
  note P = placedD [OF ok(1)]
  have "bk_refs k = 0 \<longleftrightarrow> (\<exists>!p. b \<in> set (cell st p))" if b: "bp_blocks st b = Some k" for b k
  proof
    assume "bk_refs k = 0"
    then show "\<exists>!p. b \<in> set (cell st p)" using P(11) [OF b] P(3) [of b] by auto
  next
    assume "\<exists>!p. b \<in> set (cell st p)"
    then show "bk_refs k = 0" using P(5) [of b] b by auto
  qed
  then show ?thesis
    using ok(2) P(1) pool_reach_max [OF assms] by (auto simp: counts_ok_def free_total_def kMagazineCap_def)
qed

section \<open>A run\<close>

text \<open>Two buffers are allocated, the first is dropped and allocated again.\<close>

definition demo_pool1 :: BufferPool where "demo_pool1 = snd (alloc 0 100 (True, True) (new_pool 65536))"
definition demo_pool2 :: BufferPool where "demo_pool2 = snd (alloc 0 5000 (True, True) demo_pool1)"
definition demo_pool3 :: BufferPool where "demo_pool3 = block_unref 1 0 demo_pool2"

lemma class_for_demo: "class_for 100 = Some 0" "class_for 5000 = Some 1" "class_for 64 = Some 0" "class_for 4096 = Some 0"
  by (simp_all add: class_for_def kClasses_def kClassCaps_def upt_conv_Cons)

lemma demo_pool2_facts:
  "bp_blocks demo_pool2 0 = Some \<lparr>bk_cap = 4096, bk_refs = 1, bk_pooled = True\<rparr>"
  "bp_blocks demo_pool2 1 = Some \<lparr>bk_cap = 65536, bk_refs = 1, bk_pooled = True\<rparr>" "bp_mags demo_pool2 1 = None"
  by (simp_all add: demo_pool2_def demo_pool1_def alloc_def take_or_create_def class_for_demo magazine_def new_pool_def new_magazine_def
      global_take_def create_block_def new_block_def kClassCaps_def Let_def del: One_nat_def)

lemma demo_pool3_facts:
  "bp_blocks demo_pool3 0 = Some \<lparr>bk_cap = 4096, bk_refs = 0, bk_pooled = True\<rparr>"
  "bp_blocks demo_pool3 1 = Some \<lparr>bk_cap = 65536, bk_refs = 1, bk_pooled = True\<rparr>"
  "\<exists>m. bp_mags demo_pool3 1 = Some m \<and> mg_head m 0 = [0]"
  by (simp_all add: demo_pool3_def block_unref_def refs_of_def demo_pool2_facts set_refs_def recycle_def cap_of_def class_for_demo
      magazine_def new_magazine_def kClassCaps_def kMagazineCap_def Let_def del: One_nat_def)

lemma demo_pool_reach: "pool_reach 65536 demo_pool3"
proof -
  have "pool_reach 65536 demo_pool2"
    unfolding demo_pool2_def demo_pool1_def by (intro pool_reach.alloc pool_reach.start)
  then show ?thesis unfolding demo_pool3_def by (rule pool_reach.unref) (simp add: refs_of_def demo_pool2_facts del: One_nat_def)
qed


theorem pool_bounded_witness: "bp_free_bytes demo_pool3 \<le> 65536 \<and> distinct (cell demo_pool3 (InMag 1 0))"
  using pool_bounded [OF demo_pool_reach] by simp

end
