(* ===== verification/XdrEnc.thy ===== *)
theory XdrEnc
  imports Xdr Buffer
begin

text \<open>
  The XDR encoder of \<^verbatim>\<open>src/src/xdr/xdr.hpp\<close>: an open tail buffer behind a chain of
  closed ones, a size limit, gaps to be patched, spliced data buffers, and speculative encoding with
  \<^verbatim>\<open>mark\<close> and \<^verbatim>\<open>rollback\<close>.  A block from the pool is referenced by nobody
  else (\<^verbatim>\<open>pool_exclusive\<close>), so every allocation of an encoder has an identity of its
  own; what its memory holds at first is arbitrary.
\<close>

section \<open>The encoder\<close>

record XdrEnc =
  xe_out :: BufferChain
  xe_tail :: "Buf option"
  xe_tail_used :: nat
  xe_size :: nat
  xe_limit :: nat
  xe_overflow :: bool
  xe_next :: nat
  xe_memory :: "nat \<Rightarrow> nat \<Rightarrow> u8"

definition new_enc :: "nat \<Rightarrow> (nat \<Rightarrow> nat \<Rightarrow> u8) \<Rightarrow> XdrEnc" where
  "new_enc limit memory = \<lparr>xe_out = empty_chain, xe_tail = None, xe_tail_used = 0, xe_size = 0, xe_limit = limit,
     xe_overflow = False, xe_next = 0, xe_memory = memory\<rparr>"

definition pool_capacity :: "nat \<Rightarrow> nat" where
  "pool_capacity n = (case class_for n of Some c \<Rightarrow> kClassCaps ! c | None \<Rightarrow> n)"

definition check_limit :: "XdrEnc \<Rightarrow> XdrEnc" where
  "check_limit e = (if xe_size e > xe_limit e then e\<lparr>xe_overflow := True\<rparr> else e)"

definition close_tail :: "XdrEnc \<Rightarrow> XdrEnc" where
  "close_tail e =
     (case xe_tail e of
        None \<Rightarrow> e\<lparr>xe_tail_used := 0\<rparr>
      | Some b \<Rightarrow>
          (if xe_tail_used e > 0 then e\<lparr>xe_out := chain_append b 0 (xe_tail_used e) (xe_out e)\<rparr> else e)
            \<lparr>xe_tail := None, xe_tail_used := 0\<rparr>)"

definition ensure :: "nat \<Rightarrow> XdrEnc \<Rightarrow> XdrEnc" where
  "ensure n e =
     (if (case xe_tail e of None \<Rightarrow> False | Some b \<Rightarrow> xe_tail_used e + n \<le> bf_cap b) then e
      else let e1 = close_tail e
           in e1\<lparr>xe_tail := Some \<lparr>bf_id = Own (xe_next e1), bf_cap = pool_capacity (max n kSmall), bf_data = xe_memory e1 (xe_next e1)\<rparr>,
                 xe_tail_used := 0, xe_next := xe_next e1 + 1\<rparr>)"

definition buf_write :: "nat \<Rightarrow> bytes \<Rightarrow> Buf \<Rightarrow> Buf" where
  "buf_write off bs b = b\<lparr>bf_data := \<lambda>i. if off \<le> i \<and> i < off + length bs then bs ! (i - off) else bf_data b i\<rparr>"

definition put :: "bytes \<Rightarrow> XdrEnc \<Rightarrow> XdrEnc" where
  "put bs e =
     (if length bs = 0 then e
      else let e1 = ensure (length bs) e
           in check_limit (e1\<lparr>xe_tail := map_option (buf_write (xe_tail_used e1) bs) (xe_tail e1),
                              xe_tail_used := xe_tail_used e1 + length bs, xe_size := xe_size e1 + length bs\<rparr>))"

definition enc_u32 :: "u32 \<Rightarrow> XdrEnc \<Rightarrow> XdrEnc" where "enc_u32 v = put (le_bytes 4 (to_be32 v))"
definition enc_u64 :: "u64 \<Rightarrow> XdrEnc \<Rightarrow> XdrEnc" where "enc_u64 v = put (le_bytes 8 (to_be64 v))"
definition enc_boolean :: "bool \<Rightarrow> XdrEnc \<Rightarrow> XdrEnc" where "enc_boolean b = enc_u32 (if b then 1 else 0)"

definition enc_opaque_fixed :: "bytes \<Rightarrow> XdrEnc \<Rightarrow> XdrEnc" where
  "enc_opaque_fixed s e = put (replicate (unat (pad4 (of_nat (length s)))) 0) (put s e)"

definition enc_opaque :: "bytes \<Rightarrow> XdrEnc \<Rightarrow> XdrEnc" where
  "enc_opaque s e = enc_opaque_fixed s (enc_u32 (of_nat (length s)) e)"

definition enc_string :: "bytes \<Rightarrow> XdrEnc \<Rightarrow> XdrEnc" where "enc_string s = enc_opaque s"

text \<open>A gap of \<^verbatim>\<open>n\<close> bytes; the answer is its address, for a later patch.\<close>

definition raw_gap :: "nat \<Rightarrow> XdrEnc \<Rightarrow> (buf_id \<times> nat) \<times> XdrEnc" where
  "raw_gap n e =
     (let e1 = ensure n e
      in ((case xe_tail e1 of Some b \<Rightarrow> bf_id b | None \<Rightarrow> Own 0, xe_tail_used e1),
          check_limit (e1\<lparr>xe_tail_used := xe_tail_used e1 + n, xe_size := xe_size e1 + n\<rparr>)))"

text \<open>Writing through the address of a gap, wherever its buffer is by then.\<close>

definition patch :: "buf_id \<times> nat \<Rightarrow> bytes \<Rightarrow> XdrEnc \<Rightarrow> XdrEnc" where
  "patch g bs e =
     (let w = (\<lambda>b. if bf_id b = fst g then buf_write (snd g) bs b else b)
      in e\<lparr>xe_tail := map_option w (xe_tail e),
           xe_out := (xe_out e)\<lparr>bc_segs := map (\<lambda>s. s\<lparr>sg_buf := w (sg_buf s)\<rparr>) (bc_segs (xe_out e))\<rparr>\<rparr>)"

definition attach :: "Buf \<Rightarrow> nat \<Rightarrow> nat \<Rightarrow> XdrEnc \<Rightarrow> XdrEnc" where
  "attach data off len e =
     (let e1 = close_tail e;
          e2 = e1\<lparr>xe_out := chain_append data off len (xe_out e1), xe_size := xe_size e1 + len\<rparr>
      in check_limit (put (replicate (unat (pad4 (of_nat len))) 0) e2))"

definition take_enc :: "XdrEnc \<Rightarrow> BufferChain \<times> XdrEnc" where
  "take_enc e = (let e1 = close_tail e in (xe_out e1, e1\<lparr>xe_out := empty_chain, xe_size := 0\<rparr>))"

record Mark =
  mk_segs :: nat
  mk_size :: nat
  mk_tail_used :: nat
  mk_tail_id :: "buf_id option"
  mk_overflow :: bool

definition mark :: "XdrEnc \<Rightarrow> Mark" where
  "mark e = \<lparr>mk_segs = length (bc_segs (xe_out e)), mk_size = xe_size e, mk_tail_used = xe_tail_used e,
     mk_tail_id = map_option bf_id (xe_tail e), mk_overflow = xe_overflow e\<rparr>"

text \<open>The popping loop; it runs once per segment beyond the mark.\<close>

primrec pop_segs :: "nat \<Rightarrow> Mark \<Rightarrow> XdrEnc \<Rightarrow> XdrEnc" where
  "pop_segs 0 m e = e"
| "pop_segs (Suc n) m e =
     (let (seg, out) = pop_back (xe_out e); e1 = e\<lparr>xe_out := out\<rparr>
      in pop_segs n m
           (if length (bc_segs out) = mk_segs m \<and> mk_tail_id m = Some (bf_id (sg_buf seg)) \<and> sg_off seg = 0
            then e1\<lparr>xe_tail := Some (sg_buf seg), xe_tail_used := mk_tail_used m\<rparr> else e1))"

definition rollback :: "Mark \<Rightarrow> XdrEnc \<Rightarrow> XdrEnc" where
  "rollback m e =
     (let e1 = (if xe_tail e \<noteq> None \<and> mk_tail_id m = map_option bf_id (xe_tail e)
                then e\<lparr>xe_tail_used := mk_tail_used m\<rparr>
                else pop_segs (length (bc_segs (xe_out e)) - mk_segs m) m (e\<lparr>xe_tail := None, xe_tail_used := 0\<rparr>))
      in e1\<lparr>xe_size := mk_size m, xe_overflow := mk_overflow m\<rparr>)"

section \<open>What has been encoded\<close>

definition tail_bytes :: "XdrEnc \<Rightarrow> bytes" where
  "tail_bytes e = (case xe_tail e of None \<Rightarrow> [] | Some b \<Rightarrow> buf_bytes b 0 (xe_tail_used e))"

definition enc_bytes :: "XdrEnc \<Rightarrow> bytes" where
  "enc_bytes e = to_bytes (xe_out e) @ tail_bytes e"

text \<open>
  The invariant.  Own buffers are older than the next allocation and each is either the tail or one
  segment, which starts at its beginning.
\<close>

definition own_ids :: "XdrEnc \<Rightarrow> buf_id list" where
  "own_ids e = filter (\<lambda>i. case i of Own _ \<Rightarrow> True | Ext _ \<Rightarrow> False)
     (map (bf_id \<circ> sg_buf) (bc_segs (xe_out e)) @ map bf_id (case xe_tail e of None \<Rightarrow> [] | Some b \<Rightarrow> [b]))"

definition enc_wf :: "XdrEnc \<Rightarrow> bool" where
  "enc_wf e \<longleftrightarrow>
     chain_ok (xe_out e) \<and> xe_size e = length (enc_bytes e) \<and>
     (\<forall>n. Own n \<in> set (own_ids e) \<longrightarrow> n < xe_next e) \<and> distinct (own_ids e) \<and>
     (\<forall>s\<in>set (bc_segs (xe_out e)). \<forall>n. bf_id (sg_buf s) = Own n \<longrightarrow> sg_off s = 0) \<and>
     (case xe_tail e of None \<Rightarrow> xe_tail_used e = 0 | Some b \<Rightarrow> xe_tail_used e \<le> bf_cap b \<and> (\<exists>n. bf_id b = Own n))"

text \<open>Between operations an open tail is not empty.\<close>

definition enc_ok :: "XdrEnc \<Rightarrow> bool" where
  "enc_ok e \<longleftrightarrow> enc_wf e \<and> (xe_tail e \<noteq> None \<longrightarrow> 0 < xe_tail_used e)"

section \<open>Appending\<close>

declare option.case_cong [cong]

named_theorems emits_intros \<open>what an encoder appends\<close>

lemma empty_chain_facts: "chain_ok empty_chain" "to_bytes empty_chain = []"
  by (simp_all add: chain_ok_def to_bytes_def empty_chain_def)

lemma to_bytes_append: "to_bytes (chain_append b off len c) = to_bytes c @ buf_bytes b off len"
  by (simp add: to_bytes_def chain_append_def seg_bytes_def)

lemma chain_ok_append: "chain_ok c \<Longrightarrow> chain_ok (chain_append b off len c)"
  by (simp add: chain_ok_def chain_append_def)

lemma chain_append_segs: "bc_segs (chain_append b off len c) = bc_segs c @ (if len = 0 then [] else [\<lparr>sg_buf = b, sg_off = off, sg_len = len\<rparr>])"
  by (simp add: chain_append_def)

lemma check_limit_simps [simp]:
  "xe_out (check_limit e) = xe_out e" "xe_tail (check_limit e) = xe_tail e" "xe_tail_used (check_limit e) = xe_tail_used e"
  "xe_size (check_limit e) = xe_size e" "xe_next (check_limit e) = xe_next e" "xe_limit (check_limit e) = xe_limit e"
  "enc_bytes (check_limit e) = enc_bytes e" "own_ids (check_limit e) = own_ids e"
  by (simp_all add: check_limit_def enc_bytes_def tail_bytes_def own_ids_def cong: option.case_cong)

lemma enc_wf_check [simp]: "enc_wf (check_limit e) = enc_wf e" "enc_ok (check_limit e) = enc_ok e"
  by (simp_all add: enc_wf_def enc_ok_def)

lemma close_tail_simps:
  assumes "enc_ok e"
  shows "enc_bytes (close_tail e) = enc_bytes e" and "xe_tail (close_tail e) = None" and "xe_tail_used (close_tail e) = 0"
    and "xe_next (close_tail e) = xe_next e" and "xe_size (close_tail e) = xe_size e" and "own_ids (close_tail e) = own_ids e"
    and "xe_limit (close_tail e) = xe_limit e" and "xe_overflow (close_tail e) = xe_overflow e"
  using assms
  by (auto simp: close_tail_def enc_bytes_def tail_bytes_def to_bytes_append own_ids_def chain_append_segs enc_ok_def split: option.splits)

lemma close_tail_ok: "enc_ok e \<Longrightarrow> enc_ok (close_tail e)"
  using close_tail_simps [of e]
  by (auto simp: enc_ok_def enc_wf_def close_tail_def chain_ok_append chain_append_segs split: option.splits)

lemma pool_capacity_le: "n \<le> pool_capacity n"
  using class_for_Some [of n] by (auto simp: pool_capacity_def split: option.splits)

text \<open>What \<^verbatim>\<open>ensure\<close> guarantees: an open tail with room.\<close>

lemma ensure_ok:
  assumes "enc_ok e"
  shows "enc_wf (ensure n e)" and "enc_bytes (ensure n e) = enc_bytes e" and "xe_size (ensure n e) = xe_size e"
    and "\<exists>b. xe_tail (ensure n e) = Some b \<and> xe_tail_used (ensure n e) + n \<le> bf_cap b" and "xe_limit (ensure n e) = xe_limit e"
    and "xe_overflow (ensure n e) = xe_overflow e"
proof -
  let ?fits = "case xe_tail e of None \<Rightarrow> False | Some b \<Rightarrow> xe_tail_used e + n \<le> bf_cap b"
  have cap: "n \<le> pool_capacity (max n kSmall)" using pool_capacity_le [of "max n kSmall"] by simp
  note c = close_tail_simps [OF assms] and ok = close_tail_ok [OF assms]
  have fresh: "Own (xe_next e) \<notin> set (own_ids e)" using assms by (auto simp: enc_ok_def enc_wf_def)
  have ids: "own_ids (ensure n e) = own_ids e @ [Own (xe_next e)]" if "\<not> ?fits"
    using that c by (simp add: ensure_def Let_def own_ids_def)
  show bytes: "enc_bytes (ensure n e) = enc_bytes e"
    using c by (simp add: ensure_def Let_def enc_bytes_def tail_bytes_def)
  show "xe_size (ensure n e) = xe_size e" "xe_limit (ensure n e) = xe_limit e" "xe_overflow (ensure n e) = xe_overflow e"
    using c by (simp_all add: ensure_def Let_def)
  show "\<exists>b. xe_tail (ensure n e) = Some b \<and> xe_tail_used (ensure n e) + n \<le> bf_cap b"
    using cap by (auto simp: ensure_def Let_def split: option.splits)
  show "enc_wf (ensure n e)"
  proof (cases ?fits)
    case True
    then show ?thesis using assms by (simp add: ensure_def enc_ok_def)
  next
    case False
    have "xe_size (ensure n e) = length (enc_bytes (ensure n e))"
      using False bytes assms c by (simp add: ensure_def Let_def enc_ok_def enc_wf_def)
    then show ?thesis
      using False ids [OF False] fresh ok c assms
      by (auto simp: ensure_def Let_def enc_ok_def enc_wf_def)
  qed
qed

lemma buf_bytes_write: "buf_bytes (buf_write off bs b) 0 (off + length bs) = buf_bytes b 0 off @ bs"
  by (rule nth_equalityI) (auto simp: buf_bytes_def buf_write_def nth_append)

lemma buf_bytes_write_before: "n \<le> off \<Longrightarrow> buf_bytes (buf_write off bs b) 0 n = buf_bytes b 0 n"
  by (rule nth_equalityI) (auto simp: buf_bytes_def buf_write_def)

lemma buf_write_simps [simp]: "bf_id (buf_write off bs b) = bf_id b" "bf_cap (buf_write off bs b) = bf_cap b"
  by (simp_all add: buf_write_def)

lemma put_ok:
  assumes "enc_ok e"
  shows "enc_ok (put bs e) \<and> enc_bytes (put bs e) = enc_bytes e @ bs"
proof (cases "bs = []")
  case False
  define e1 where "e1 = ensure (length bs) e"
  note E = ensure_ok [OF assms, of "length bs", folded e1_def]
  obtain b where b: "xe_tail e1 = Some b" "xe_tail_used e1 + length bs \<le> bf_cap b" using E(4) by blast
  define e2 where "e2 = e1\<lparr>xe_tail := map_option (buf_write (xe_tail_used e1) bs) (xe_tail e1),
    xe_tail_used := xe_tail_used e1 + length bs, xe_size := xe_size e1 + length bs\<rparr>"
  have bytes: "enc_bytes e2 = enc_bytes e @ bs"
    using b E(2) by (simp add: e2_def enc_bytes_def tail_bytes_def buf_bytes_write)
  have "own_ids e2 = own_ids e1" using b by (simp add: e2_def own_ids_def)
  with E(1,3) b bytes have "enc_ok e2" using assms False
    by (auto simp: enc_wf_def enc_ok_def e2_def)
  with bytes show ?thesis using False by (simp add: put_def Let_def e1_def [symmetric] e2_def [symmetric])
qed (use assms in \<open>simp add: put_def\<close>)

text \<open>Encoders that append given bytes.\<close>

definition emits :: "(XdrEnc \<Rightarrow> XdrEnc) \<Rightarrow> bytes \<Rightarrow> bool" where
  "emits f bs \<longleftrightarrow> (\<forall>e. enc_ok e \<longrightarrow> enc_ok (f e) \<and> enc_bytes (f e) = enc_bytes e @ bs)"

lemma emitsD: "emits f bs \<Longrightarrow> enc_ok e \<Longrightarrow> enc_ok (f e) \<and> enc_bytes (f e) = enc_bytes e @ bs"
  by (simp add: emits_def)

lemma emits_put: "emits (put bs) bs"
  by (simp add: emits_def put_ok)

lemma emits_id: "emits (\<lambda>e. e) []"
  by (simp add: emits_def)

lemma emits_comp: "emits f bs \<Longrightarrow> emits g cs \<Longrightarrow> emits (\<lambda>e. g (f e)) (bs @ cs)"
  by (simp add: emits_def)

lemma le_bytes_to_be: "le_bytes 4 (to_be32 v) = wire_u32 v" "le_bytes 8 (to_be64 w) = wire_u64 w"
  using le_bytes_le_word [of "wire_u32 v", where 'a = 32] le_bytes_le_word [of "wire_u64 w", where 'a = 64]
  by (simp_all add: to_be32_def bswap32_def wire_u32_def to_be64_def bswap64_def wire_u64_def del: le_bytes.simps)

lemma emits_u32 [emits_intros]: "emits (enc_u32 v) (wire_u32 v)"
  using emits_put by (simp add: enc_u32_def le_bytes_to_be del: le_bytes.simps)

lemma emits_u64 [emits_intros]: "emits (enc_u64 v) (wire_u64 v)"
  using emits_put by (simp add: enc_u64_def le_bytes_to_be del: le_bytes.simps)

lemma emits_boolean [emits_intros]: "emits (enc_boolean b) (wire_bool b)"
  using emits_u32 by (simp add: enc_boolean_def wire_bool_def)

lemma emits_opaque_fixed [emits_intros]: "emits (enc_opaque_fixed s) (wire_fixed s)"
  using emits_comp [OF emits_put emits_put] by (simp add: enc_opaque_fixed_def [abs_def] wire_fixed_def wire_pad_def)

lemma emits_opaque [emits_intros]: "emits (enc_opaque s) (wire_opaque s)"
  using emits_comp [OF emits_u32 emits_opaque_fixed] by (simp add: enc_opaque_def [abs_def] wire_opaque_def)

lemma emits_string [emits_intros]: "emits (enc_string s) (wire_opaque s)"
  using emits_opaque by (simp add: enc_string_def)

lemma new_enc_ok [simp]: "enc_ok (new_enc limit memory)" "enc_bytes (new_enc limit memory) = []"
  by (simp_all add: enc_ok_def enc_wf_def new_enc_def enc_bytes_def tail_bytes_def own_ids_def to_bytes_def empty_chain_def chain_ok_def)

lemma take_enc_bytes: "enc_ok e \<Longrightarrow> to_bytes (fst (take_enc e)) = enc_bytes e \<and> chain_ok (fst (take_enc e))"
  using close_tail_simps [of e] close_tail_ok [of e]
  by (simp add: take_enc_def Let_def enc_bytes_def tail_bytes_def enc_ok_def enc_wf_def)

section \<open>Speculative encoding\<close>

lemma pop_segs_split:
  assumes "bc_segs (xe_out e) = pre @ post" and "length pre = mk_segs m" and "length post = n"
  shows "bc_segs (xe_out (pop_segs n m e)) = pre \<and>
    (case post of
       [] \<Rightarrow> xe_tail (pop_segs n m e) = xe_tail e \<and> xe_tail_used (pop_segs n m e) = xe_tail_used e
     | s # _ \<Rightarrow>
         if mk_tail_id m = Some (bf_id (sg_buf s)) \<and> sg_off s = 0
         then xe_tail (pop_segs n m e) = Some (sg_buf s) \<and> xe_tail_used (pop_segs n m e) = mk_tail_used m
         else xe_tail (pop_segs n m e) = xe_tail e \<and> xe_tail_used (pop_segs n m e) = xe_tail_used e)"
  using assms
proof (induction n arbitrary: e post)
  case (Suc n)
  obtain post' s where post: "post = post' @ [s]" using Suc.prems(3) by (metis length_Suc_conv_rev)
  obtain out where pb: "pop_back (xe_out e) = (s, out)" "bc_segs out = pre @ post'"
    using Suc.prems(1) post by (simp add: pop_back_def Let_def butlast_append)
  define e1 where "e1 = e\<lparr>xe_out := out\<rparr>"
  show ?case
  proof (cases post')
    case Nil
    then have "n = 0" using Suc.prems(3) post by simp
    then show ?thesis using Nil pb post Suc.prems(2) by (simp add: Let_def)
  next
    case (Cons t ts)
    then have step: "pop_segs (Suc n) m e = pop_segs n m e1"
      using pb Suc.prems(2) by (simp add: Let_def e1_def)
    have "bc_segs (xe_out e1) = pre @ post'" "length post' = n" using pb Suc.prems(3) post by (simp_all add: e1_def)
    moreover have "xe_tail e1 = xe_tail e" "xe_tail_used e1 = xe_tail_used e" by (simp_all add: e1_def)
    ultimately show ?thesis using Suc.IH [of e1 post'] Suc.prems(2) unfolding step by (simp add: post Cons)
  qed
qed simp

lemma pop_segs_other [simp]:
  "xe_size (pop_segs n m e) = xe_size e" "xe_next (pop_segs n m e) = xe_next e" "xe_limit (pop_segs n m e) = xe_limit e"
  by (induction n arbitrary: e) (simp_all add: Let_def split: prod.splits)

lemma pop_segs_chain: "chain_ok (xe_out e) \<Longrightarrow> n \<le> length (bc_segs (xe_out e)) \<Longrightarrow> chain_ok (xe_out (pop_segs n m e))"
proof (induction n arbitrary: e)
  case (Suc n)
  then obtain ss s where ss: "bc_segs (xe_out e) = ss @ [s]" by (metis Suc_le_length_iff append_butlast_last_id list.distinct(1))
  then obtain out where "pop_back (xe_out e) = (s, out)" "chain_ok out" "bc_segs out = ss"
    using Suc.prems by (simp add: chain_ok_def pop_back_def Let_def)
  then show ?case using Suc ss by (simp add: Let_def)
qed simp

text \<open>
  What an encoder keeps of the state at an earlier mark: the segments of then, followed by the tail
  of then, which may have been closed; its bytes up to the mark are as they were.
\<close>

definition kept_tail :: "Buf \<Rightarrow> nat \<Rightarrow> Buf \<Rightarrow> bool" where
  "kept_tail b0 used b \<longleftrightarrow> bf_id b = bf_id b0 \<and> bf_cap b = bf_cap b0 \<and> buf_bytes b 0 used = buf_bytes b0 0 used"

definition since :: "XdrEnc \<Rightarrow> XdrEnc \<Rightarrow> bool" where
  "since e0 e \<longleftrightarrow>
     (case xe_tail e0 of
        None \<Rightarrow> (\<exists>rest. bc_segs (xe_out e) = bc_segs (xe_out e0) @ rest)
      | Some b0 \<Rightarrow>
          (\<exists>b. xe_tail e = Some b \<and> kept_tail b0 (xe_tail_used e0) b \<and> xe_tail_used e0 \<le> xe_tail_used e \<and>
             bc_segs (xe_out e) = bc_segs (xe_out e0)) \<or>
          (map_option bf_id (xe_tail e) \<noteq> Some (bf_id b0) \<and>
           (\<exists>s rest. bc_segs (xe_out e) = bc_segs (xe_out e0) @ s # rest \<and> kept_tail b0 (xe_tail_used e0) (sg_buf s) \<and>
              sg_off s = 0))) \<and> xe_next e0 \<le> xe_next e"

lemma since_refl: "since e e"
  by (auto simp: since_def kept_tail_def split: option.splits)

lemma since_cong:
  "since e0 e \<Longrightarrow> xe_out e' = xe_out e \<Longrightarrow> xe_tail e' = xe_tail e \<Longrightarrow> xe_tail_used e \<le> xe_tail_used e' \<Longrightarrow> xe_next e' = xe_next e \<Longrightarrow> since e0 e'"
  by (fastforce simp: since_def split: option.splits)

lemma since_check [simp]: "since e0 (check_limit e) = since e0 e"
  by (simp add: since_def)

lemma since_close:
  assumes "since e0 e" and "enc_ok e"
  shows "since e0 (close_tail e)"
  using assms close_tail_simps [OF assms(2)]
  by (auto simp: since_def close_tail_def chain_append_segs enc_ok_def split: option.splits)

lemma since_append:
  assumes "since e0 e" and "xe_tail e = None"
  shows "since e0 (e\<lparr>xe_out := chain_append d off len (xe_out e), xe_size := n\<rparr>)"
  using assms by (auto simp: since_def chain_append_segs split: option.splits)

lemma since_tail_id: "since e0 e \<Longrightarrow> enc_wf e \<Longrightarrow> xe_tail e0 = Some b0 \<Longrightarrow> bf_id b0 = Own n \<Longrightarrow> n < xe_next e"
  by (auto simp: since_def enc_wf_def own_ids_def kept_tail_def split: option.splits)

lemma enc_tail_own: "enc_wf e \<Longrightarrow> xe_tail e = Some b \<Longrightarrow> \<exists>n. bf_id b = Own n"
  by (auto simp: enc_wf_def)

lemma since_ensure:
  assumes "since e0 e" and "enc_ok e" and "enc_ok e0"
  shows "since e0 (ensure n e)"
proof (cases "case xe_tail e of None \<Rightarrow> False | Some b \<Rightarrow> xe_tail_used e + n \<le> bf_cap b")
  case True
  then show ?thesis using assms(1) by (simp add: ensure_def)
next
  case False
  have s: "since e0 (close_tail e)" "xe_tail (close_tail e) = None" "enc_wf (close_tail e)"
    using since_close [OF assms(1,2)] close_tail_simps [OF assms(2)] close_tail_ok [OF assms(2)] by (simp_all add: enc_ok_def)
  have "bf_id b0 \<noteq> Own (xe_next (close_tail e))" if "xe_tail e0 = Some b0" for b0
    using since_tail_id [OF s(1,3) that] enc_tail_own [of e0, OF _ that] assms(3) by (auto simp: enc_ok_def)
  then show ?thesis
    using s False by (auto simp: ensure_def Let_def since_def split: option.splits)
qed

lemma since_write:
  assumes "since e0 e" and "xe_tail e = Some b" 
  shows "since e0 (e\<lparr>xe_tail := Some (buf_write (xe_tail_used e) bs b), xe_tail_used := xe_tail_used e + n, xe_size := m\<rparr>)"
  using assms by (auto simp: since_def kept_tail_def buf_bytes_write_before split: option.splits)

lemma since_put:
  assumes "since e0 e" and "enc_ok e" and "enc_ok e0"
  shows "since e0 (put bs e)"
proof (cases "bs = []")
  case False
  obtain b where b: "xe_tail (ensure (length bs) e) = Some b" using ensure_ok(4) [OF assms(2)] by blast
  from since_write [OF since_ensure [OF assms] b] show ?thesis
    using False b by (simp add: put_def Let_def)
qed (use assms in \<open>simp add: put_def\<close>)

lemma since_gap:
  assumes "since e0 e" and "enc_ok e" and "enc_ok e0"
  shows "since e0 (snd (raw_gap n e))"
  using since_ensure [OF assms, of n] by (auto simp: raw_gap_def Let_def elim!: since_cong)

lemma gap_ok:
  assumes "enc_ok e" and "0 < n"
  shows "enc_ok (snd (raw_gap n e)) \<and> (\<exists>junk. length junk = n \<and> enc_bytes (snd (raw_gap n e)) = enc_bytes e @ junk)"
proof -
  define e1 where "e1 = ensure n e"
  note E = ensure_ok [OF assms(1), of n, folded e1_def]
  obtain b where b: "xe_tail e1 = Some b" "xe_tail_used e1 + n \<le> bf_cap b" using E(4) by blast
  define e2 where "e2 = e1\<lparr>xe_tail_used := xe_tail_used e1 + n, xe_size := xe_size e1 + n\<rparr>"
  have bytes: "enc_bytes e2 = enc_bytes e @ buf_bytes b (xe_tail_used e1) n"
    using b E(2) buf_bytes_add [of b 0 "xe_tail_used e1" n] by (simp add: e2_def enc_bytes_def tail_bytes_def)
  have "own_ids e2 = own_ids e1" by (simp add: e2_def own_ids_def)
  with E(1,3) b bytes have "enc_ok e2" using assms by (auto simp: enc_wf_def enc_ok_def e2_def)
  with bytes show ?thesis by (auto simp: raw_gap_def Let_def e1_def [symmetric] e2_def [symmetric])
qed

lemma own_ids_ext: "bf_id d = Ext k \<Longrightarrow> own_ids (e\<lparr>xe_out := chain_append d off len (xe_out e), xe_size := n\<rparr>) = own_ids e"
  by (simp add: own_ids_def chain_append_segs)

lemma attach_ok:
  assumes "enc_ok e" and "bf_id d = Ext k"
  shows "enc_ok (attach d off len e) \<and> enc_bytes (attach d off len e) = enc_bytes e @ buf_bytes d off len @ wire_pad len"
proof -
  define e1 where "e1 = close_tail e"
  define e2 where "e2 = e1\<lparr>xe_out := chain_append d off len (xe_out e1), xe_size := xe_size e1 + len\<rparr>"
  note c = close_tail_simps [OF assms(1), folded e1_def] and ok = close_tail_ok [OF assms(1), folded e1_def]
  have bytes: "enc_bytes e2 = enc_bytes e @ buf_bytes d off len"
    using c by (simp add: e2_def enc_bytes_def tail_bytes_def to_bytes_append)
  have "own_ids e2 = own_ids e1" unfolding e2_def by (rule own_ids_ext [OF assms(2)])
  with ok c bytes have "enc_ok e2" using assms
    by (auto simp: enc_ok_def enc_wf_def e2_def chain_ok_append chain_append_segs)
  from put_ok [OF this, of "wire_pad len"] bytes show ?thesis
    by (simp add: attach_def Let_def e1_def [symmetric] e2_def [symmetric] wire_pad_def)
qed

lemma since_attach:
  assumes "since e0 e" and "enc_ok e" and "enc_ok e0" and "bf_id d = Ext k"
  shows "since e0 (attach d off len e)"
proof -
  define e1 where "e1 = close_tail e"
  define e2 where "e2 = e1\<lparr>xe_out := chain_append d off len (xe_out e1), xe_size := xe_size e1 + len\<rparr>"
  note c = close_tail_simps [OF assms(2), folded e1_def] and ok = close_tail_ok [OF assms(2), folded e1_def]
  have "since e0 e2" unfolding e2_def using since_append [OF since_close [OF assms(1,2), folded e1_def]] c by simp
  moreover have "own_ids e2 = own_ids e1" unfolding e2_def by (rule own_ids_ext [OF assms(4)])
  with ok c have "enc_ok e2" using assms(4)
    by (auto simp: enc_ok_def enc_wf_def e2_def chain_ok_append chain_append_segs enc_bytes_def tail_bytes_def to_bytes_append)
  ultimately have "since e0 (put (wire_pad len) e2)" using since_put assms(3) by blast
  then show ?thesis
    by (simp add: attach_def Let_def e1_def [symmetric] e2_def [symmetric] wire_pad_def)
qed

text \<open>What \<^verbatim>\<open>rollback\<close> restores.\<close>

definition restored :: "XdrEnc \<Rightarrow> XdrEnc \<Rightarrow> bool" where
  "restored e0 r \<longleftrightarrow>
     bc_segs (xe_out r) = bc_segs (xe_out e0) \<and> xe_size r = xe_size e0 \<and> xe_overflow r = xe_overflow e0 \<and>
     xe_tail_used r = xe_tail_used e0 \<and>
     (case xe_tail e0 of None \<Rightarrow> xe_tail r = None | Some b0 \<Rightarrow> \<exists>b. xe_tail r = Some b \<and> kept_tail b0 (xe_tail_used e0) b)"

lemma rollback_restored:
  assumes "enc_ok e0" and "enc_ok e" and "since e0 e"
  shows "restored e0 (rollback (mark e0) e) \<and> xe_next (rollback (mark e0) e) = xe_next e \<and> chain_ok (xe_out (rollback (mark e0) e))"
proof -
  let ?e = "e\<lparr>xe_tail := None, xe_tail_used := 0\<rparr>"
  have ch: "chain_ok (xe_out e)" using assms(2) by (simp add: enc_ok_def enc_wf_def)
  have pc: "chain_ok (xe_out (pop_segs n (mark e0) ?e))" if "n \<le> length (bc_segs (xe_out e))" for n
    using pop_segs_chain [of ?e n "mark e0"] ch that by simp
  show ?thesis
  proof (cases "xe_tail e0")
    case None
    with assms(3) obtain rest where rest: "bc_segs (xe_out e) = bc_segs (xe_out e0) @ rest" by (auto simp: since_def)
    have "xe_tail_used e0 = 0" using assms(1) None by (simp add: enc_ok_def enc_wf_def)
    with None rest pop_segs_split [of ?e "bc_segs (xe_out e0)" rest "mark e0" "length rest"] pc [of "length rest"] show ?thesis
      by (auto simp: rollback_def restored_def mark_def Let_def split: list.splits)
  next
    case (Some b0)
    consider (open') b where "xe_tail e = Some b" "kept_tail b0 (xe_tail_used e0) b" "bc_segs (xe_out e) = bc_segs (xe_out e0)"
      | (closed) s rest where "map_option bf_id (xe_tail e) \<noteq> Some (bf_id b0)" "bc_segs (xe_out e) = bc_segs (xe_out e0) @ s # rest"
          "kept_tail b0 (xe_tail_used e0) (sg_buf s)" "sg_off s = 0"
      using assms(3) Some by (auto simp: since_def)
    then show ?thesis
    proof cases
      case open'
      then show ?thesis using Some ch by (auto simp: rollback_def restored_def mark_def kept_tail_def Let_def)
    next
      case closed
      have "\<not> (xe_tail e \<noteq> None \<and> mk_tail_id (mark e0) = map_option bf_id (xe_tail e))"
        using closed(1) Some by (auto simp: mark_def)
      with closed Some pop_segs_split [of ?e "bc_segs (xe_out e0)" "s # rest" "mark e0" "Suc (length rest)"] pc [of "Suc (length rest)"]
      show ?thesis by (auto simp: rollback_def restored_def mark_def kept_tail_def Let_def simp del: pop_segs.simps)
    qed
  qed
qed

lemma restored_bytes: "restored e0 r \<Longrightarrow> enc_bytes r = enc_bytes e0"
  by (auto simp: restored_def enc_bytes_def tail_bytes_def to_bytes_def kept_tail_def split: option.splits)

lemma restored_ids: "restored e0 r \<Longrightarrow> own_ids r = own_ids e0"
  by (auto simp: restored_def own_ids_def kept_tail_def split: option.splits)

lemma restored_ok:
  assumes "restored e0 r" and "enc_ok e0" and "chain_ok (xe_out r)" and "xe_next e0 \<le> xe_next r"
  shows "enc_ok r"
proof -
  have "\<forall>n. Own n \<in> set (own_ids r) \<longrightarrow> n < xe_next r"
    using assms(2,4) restored_ids [OF assms(1)] by (auto simp: enc_ok_def enc_wf_def intro: order.strict_trans2)
  with assms restored_ids [OF assms(1)] restored_bytes [OF assms(1)] show ?thesis
    by (auto simp: enc_ok_def enc_wf_def restored_def kept_tail_def split: option.splits)
qed

lemma kept_tail_trans: "kept_tail b0 n b1 \<Longrightarrow> kept_tail b1 m b2 \<Longrightarrow> n \<le> m \<Longrightarrow> kept_tail b0 n b2"
proof -
  assume a: "kept_tail b0 n b1" "kept_tail b1 m b2" "n \<le> m"
  have "buf_bytes b 0 n = take n (buf_bytes b 0 m)" for b using a(3) by (simp add: min_def)
  with a have "buf_bytes b2 0 n = buf_bytes b1 0 n" unfolding kept_tail_def by metis
  with a show ?thesis by (simp add: kept_tail_def)
qed

lemma since_restored:
  assumes "since e0 em" and "restored em r" and "xe_next em \<le> xe_next r"
  shows "since e0 r"
  using assms
  by (auto simp: since_def restored_def split: option.splits intro: kept_tail_trans) (auto simp: kept_tail_def)

text \<open>Encoding after a mark, with marks and rollbacks nested in it.\<close>

inductive writes :: "XdrEnc \<Rightarrow> XdrEnc \<Rightarrow> bool" where
  none: "writes e0 e0"
| put: "writes e0 e \<Longrightarrow> writes e0 (put bs e)"
| gap: "writes e0 e \<Longrightarrow> 0 < n \<Longrightarrow> writes e0 (snd (raw_gap n e))"
| attach: "writes e0 e \<Longrightarrow> bf_id d = Ext k \<Longrightarrow> writes e0 (attach d off len e)"
| nested: "writes e0 em \<Longrightarrow> writes em e \<Longrightarrow> writes e0 (rollback (mark em) e)"

lemma writes_since: "writes e0 e \<Longrightarrow> enc_ok e0 \<Longrightarrow> enc_ok e \<and> since e0 e"
proof (induction rule: writes.induct)
  case (nested e0 em e)
  then have ok: "enc_ok em" "since e0 em" "enc_ok e" "since em e" by auto
  from rollback_restored [OF ok(1,3,4)] have r: "restored em (rollback (mark em) e)" "chain_ok (xe_out (rollback (mark em) e))"
    "xe_next em \<le> xe_next (rollback (mark em) e)"
    using ok(4) by (simp_all add: since_def)
  then show ?case using restored_ok [OF r(1) ok(1) r(2,3)] since_restored [OF ok(2) r(1,3)] by simp
qed (auto simp: since_refl put_ok since_put gap_ok since_gap attach_ok since_attach)

text \<open>C18: rolling an encoder back to a mark restores the bytes encoded then, the size and the overflow flag, whatever was encoded since:
  values, gaps, spliced buffers, closed tails, nested marks.\<close>

theorem rollback_restores:
  assumes "enc_ok e0" and "writes e0 e"
  shows "enc_bytes (rollback (mark e0) e) = enc_bytes e0 \<and> xe_size (rollback (mark e0) e) = xe_size e0 \<and>
    xe_overflow (rollback (mark e0) e) = xe_overflow e0 \<and> enc_ok (rollback (mark e0) e)"
proof -
  have e: "enc_ok e" "since e0 e" using writes_since [OF assms(2,1)] by auto
  from rollback_restored [OF assms(1) e] have r: "restored e0 (rollback (mark e0) e)" "chain_ok (xe_out (rollback (mark e0) e))"
    "xe_next e0 \<le> xe_next (rollback (mark e0) e)"
    using e(2) by (simp_all add: since_def)
  from restored_bytes [OF r(1)] restored_ok [OF r(1) assms(1) r(2,3)] r(1) show ?thesis by (simp add: restored_def)
qed

theorem rollback_restores_witness:
  "enc_bytes (rollback (mark (put [1, 2] (new_enc 100 (\<lambda>_ _. 0))))
     (put [9] (attach \<lparr>bf_id = Ext 7, bf_cap = 4, bf_data = \<lambda>_. 5\<rparr> 0 4 (put [3] (put [1, 2] (new_enc 100 (\<lambda>_ _. 0))))))) = [1, 2]"
proof -
  have ok: "enc_ok (put [1, 2] (new_enc 100 (\<lambda>_ _. 0)))" "enc_bytes (put [1, 2] (new_enc 100 (\<lambda>_ _. 0))) = [1, 2]"
    using put_ok [OF new_enc_ok(1), of "[1, 2]" 100 "\<lambda>_ _. 0"] by simp_all
  have "writes (put [1, 2] (new_enc 100 (\<lambda>_ _. 0)))
    (put [9] (attach \<lparr>bf_id = Ext 7, bf_cap = 4, bf_data = \<lambda>_. 5\<rparr> 0 4 (put [3] (put [1, 2] (new_enc 100 (\<lambda>_ _. 0))))))"
    by (intro writes.intros) simp
  from rollback_restores [OF ok(1) this] ok(2) show ?thesis by simp
qed

section \<open>Codecs\<close>

text \<open>An encoder and a decoder that agree on a wire format, for the valid values.\<close>

locale xdr_codec =
  fixes enc :: "'a \<Rightarrow> XdrEnc \<Rightarrow> XdrEnc" and dec :: "'a decoder" and wire :: "'a \<Rightarrow> bytes" and valid :: "'a \<Rightarrow> bool"
  assumes codec_emits: "valid v \<Longrightarrow> emits (enc v) (wire v)"
    and codec_parses: "valid v \<Longrightarrow> parses dec v (wire v)"
    and codec_uniform: "uniform dec"
begin

text \<open>What is decoded from the chain of a reply is what was encoded, with nothing left.\<close>

lemma codec_roundtrip:
  assumes "valid v"
  shows "\<exists>d. dec (dec_of_chain (fst (take_enc (enc v (new_enc limit memory))))) = Inr (v, d) \<and> at_end d"
proof -
  have e: "enc_ok (enc v (new_enc limit memory))" "enc_bytes (enc v (new_enc limit memory)) = wire v"
    using emitsD [OF codec_emits [OF assms] new_enc_ok(1)] by simp_all
  from take_enc_bytes [OF e(1)] e(2)
  have c: "to_bytes (fst (take_enc (enc v (new_enc limit memory)))) = wire v" "chain_ok (fst (take_enc (enc v (new_enc limit memory))))" by simp_all
  from parsesD [OF codec_parses [OF assms], of "dec_of_chain (fst (take_enc (enc v (new_enc limit memory))))" "[]"]
  show ?thesis using c dec_of_chain_ok [of "fst (take_enc (enc v (new_enc limit memory)))"]
    by (auto simp: chain_ok_def at_end_def dec_ok_def)
qed

text \<open>A codec followed by another.\<close>

lemma codec_then: "valid v \<Longrightarrow> parses (f v) w cs \<Longrightarrow> parses (dec_bind dec f) w (wire v @ cs)"
  by (rule parses_bind [OF codec_parses])

end

interpretation u32: xdr_codec enc_u32 dec_u32 wire_u32 "\<lambda>_. True"
  by unfold_locales (simp_all add: emits_u32 parses_u32 uniform_u32)

interpretation u64: xdr_codec enc_u64 dec_u64 wire_u64 "\<lambda>_. True"
  by unfold_locales (simp_all add: emits_u64 parses_u64 uniform_u64)

interpretation boolean: xdr_codec enc_boolean dec_boolean wire_bool "\<lambda>_. True"
  by unfold_locales (simp_all add: emits_boolean parses_boolean uniform_boolean)

interpretation opaque: xdr_codec enc_opaque "dec_opaque mx" wire_opaque "\<lambda>bs. length bs \<le> unat mx" for mx
  by unfold_locales (simp_all add: emits_opaque parses_opaque uniform_opaque)

declare option.case_cong [cong del]

end
