(* ===== verification/RpcMsg.thy ===== *)
theory RpcMsg
  imports XdrEnc
begin

text \<open>
  ONC RPC messages (\<^verbatim>\<open>src/src/rpc/rpc_msg.cpp\<close>), authentication
  (\<^verbatim>\<open>auth.cpp\<close>) and program dispatch (\<^verbatim>\<open>dispatch.cpp\<close>).  The
  connection (what was sent so far, whether TLS is on) and the engines behind the dispatcher are
  arguments.
\<close>

section \<open>Messages\<close>

definition kRpcVersion :: u32 where "kRpcVersion = 2"
definition kMaxAuthBody :: u32 where "kMaxAuthBody = 400"

abbreviation (input) kCall :: u32 where "kCall \<equiv> 0"
abbreviation (input) kReply :: u32 where "kReply \<equiv> 1"
abbreviation (input) kMsgAccepted :: u32 where "kMsgAccepted \<equiv> 0"
abbreviation (input) kMsgDenied :: u32 where "kMsgDenied \<equiv> 1"
abbreviation (input) kSuccess :: u32 where "kSuccess \<equiv> 0"
abbreviation (input) kProgUnavail :: u32 where "kProgUnavail \<equiv> 1"
abbreviation (input) kProgMismatch :: u32 where "kProgMismatch \<equiv> 2"
abbreviation (input) kProcUnavail :: u32 where "kProcUnavail \<equiv> 3"
abbreviation (input) kGarbageArgs :: u32 where "kGarbageArgs \<equiv> 4"
abbreviation (input) kSystemErr :: u32 where "kSystemErr \<equiv> 5"
abbreviation (input) kRpcMismatch :: u32 where "kRpcMismatch \<equiv> 0"
abbreviation (input) kAuthError :: u32 where "kAuthError \<equiv> 1"
abbreviation (input) kAuthBadcred :: u32 where "kAuthBadcred \<equiv> 1"
abbreviation (input) kAuthRejectedcred :: u32 where "kAuthRejectedcred \<equiv> 2"
abbreviation (input) kAuthBadverf :: u32 where "kAuthBadverf \<equiv> 3"
abbreviation (input) kAuthTooweak :: u32 where "kAuthTooweak \<equiv> 5"

record OpaqueAuth =
  au_flavor :: u32
  au_body :: bytes

record RpcCall =
  rc_xid :: u32
  rc_rpcvers :: u32
  rc_prog :: u32
  rc_vers :: u32
  rc_proc :: u32
  rc_cred :: OpaqueAuth
  rc_verf :: OpaqueAuth
  rc_args_hash :: u64
  rc_args :: XdrDec

text \<open>The hash of the first \<^verbatim>\<open>want\<close> bytes of the record behind \<^verbatim>\<open>args_off\<close>.\<close>

primrec args_fnv :: "Seg list \<Rightarrow> nat \<Rightarrow> nat \<Rightarrow> nat \<Rightarrow> u64 \<Rightarrow> u64" where
  "args_fnv [] args_off skipped want h = h"
| "args_fnv (s # ss) args_off skipped want h =
     (if want = 0 then h
      else let skip = (if skipped < args_off then min (sg_len s) (args_off - skipped) else 0);
               take' = min (sg_len s - skip) want
           in if skipped < args_off \<and> skip \<ge> sg_len s then args_fnv ss args_off (skipped + skip) want h
              else args_fnv ss args_off (skipped + skip) (want - take')
                     (fold (\<lambda>c h. fnv_step h c) (buf_bytes (sg_buf s) (sg_off s + skip) take') h))"

definition dec_auth :: "OpaqueAuth decoder" where
  "dec_auth = dec_bind dec_u32 (\<lambda>flavor. dec_bind (dec_opaque kMaxAuthBody) (\<lambda>body.
     dec_return \<lparr>au_flavor = flavor, au_body = body\<rparr>))"

definition parse_header :: "(u32 \<times> u32 \<times> u32 \<times> u32 \<times> u32 \<times> OpaqueAuth \<times> OpaqueAuth) decoder" where
  "parse_header = dec_bind dec_u32 (\<lambda>xid. dec_bind dec_u32 (\<lambda>mtype.
     if mtype \<noteq> kCall then dec_fail kGarbage
     else dec_bind dec_u32 (\<lambda>rpcvers. dec_bind dec_u32 (\<lambda>prog. dec_bind dec_u32 (\<lambda>vers. dec_bind dec_u32 (\<lambda>proc.
       dec_bind dec_auth (\<lambda>cred. dec_bind dec_auth (\<lambda>verf.
         dec_return (xid, rpcvers, prog, vers, proc, cred, verf)))))))))"

definition parse_call :: "BufferChain \<Rightarrow> RpcCall res" where
  "parse_call rec =
     try_res (parse_header (dec_of_chain rec)) (\<lambda>((xid, rpcvers, prog, vers, proc, cred, verf), dec).
       let h = args_fnv (bc_segs rec) (bc_size rec - xd_remaining dec) 0 (min (xd_remaining dec) 256) 1469598103934665603
       in Inr \<lparr>rc_xid = xid, rc_rpcvers = rpcvers, rc_prog = prog, rc_vers = vers, rc_proc = proc, rc_cred = cred, rc_verf = verf,
              rc_args_hash = h, rc_args = dec\<rparr>)"

section \<open>Replies\<close>

definition null_verf :: "XdrEnc \<Rightarrow> XdrEnc" where
  "null_verf e = enc_u32 0 (enc_u32 0 e)"

definition encode_reply_accepted_err :: "u32 \<Rightarrow> u32 \<Rightarrow> XdrEnc \<Rightarrow> XdrEnc" where
  "encode_reply_accepted_err xid st e = enc_u32 st (null_verf (enc_u32 kMsgAccepted (enc_u32 kReply (enc_u32 xid e))))"

definition encode_reply_success :: "u32 \<Rightarrow> XdrEnc \<Rightarrow> XdrEnc" where
  "encode_reply_success xid e = enc_u32 kSuccess (null_verf (enc_u32 kMsgAccepted (enc_u32 kReply (enc_u32 xid e))))"

definition encode_reply_prog_mismatch :: "u32 \<Rightarrow> u32 \<Rightarrow> u32 \<Rightarrow> XdrEnc \<Rightarrow> XdrEnc" where
  "encode_reply_prog_mismatch xid low high e = enc_u32 high (enc_u32 low (encode_reply_accepted_err xid kProgMismatch e))"

definition encode_reply_rpc_mismatch :: "u32 \<Rightarrow> XdrEnc \<Rightarrow> XdrEnc" where
  "encode_reply_rpc_mismatch xid e =
     enc_u32 kRpcVersion (enc_u32 kRpcVersion (enc_u32 kRpcMismatch (enc_u32 kMsgDenied (enc_u32 kReply (enc_u32 xid e)))))"

definition encode_reply_auth_error :: "u32 \<Rightarrow> u32 \<Rightarrow> XdrEnc \<Rightarrow> XdrEnc" where
  "encode_reply_auth_error xid st e = enc_u32 st (enc_u32 kAuthError (enc_u32 kMsgDenied (enc_u32 kReply (enc_u32 xid e))))"

section \<open>Authentication\<close>

datatype AuthFlavor = kNone | kSys

record AuthCred =
  ac_uid :: u32
  ac_gid :: u32
  ac_gids :: "u32 list"
  ac_flavor :: AuthFlavor
  ac_anonymous :: bool
  ac_machine :: bytes

definition default_cred :: AuthCred where
  "default_cred = \<lparr>ac_uid = 65534, ac_gid = 65534, ac_gids = [], ac_flavor = kNone, ac_anonymous = False, ac_machine = []\<rparr>"

type_synonym authenticator = "OpaqueAuth \<Rightarrow> OpaqueAuth \<Rightarrow> AuthCred res"

definition auth_none :: authenticator where
  "auth_none cred verf = Inr (default_cred\<lparr>ac_anonymous := True\<rparr>)"

primrec dec_gids :: "nat \<Rightarrow> u32 list decoder" where
  "dec_gids 0 = dec_return []"
| "dec_gids (Suc n) = dec_bind dec_u32 (\<lambda>g. dec_bind (dec_gids n) (\<lambda>gs. dec_return (g # gs)))"

definition dec_auth_sys :: "AuthCred decoder" where
  "dec_auth_sys = dec_bind dec_u32 (\<lambda>stamp. dec_bind (dec_string 255) (\<lambda>name.
     dec_bind dec_u32 (\<lambda>uid. dec_bind dec_u32 (\<lambda>gid. dec_bind dec_u32 (\<lambda>ngids.
       if ngids > 16 then dec_fail EACCES
       else dec_bind (dec_gids (unat ngids)) (\<lambda>gids.
         dec_return \<lparr>ac_uid = uid, ac_gid = gid, ac_gids = gids, ac_flavor = kSys, ac_anonymous = False, ac_machine = name\<rparr>))))))"

text \<open>Every decoding error of the body is EACCES; what follows the last gid is not looked at.\<close>

definition auth_sys :: authenticator where
  "auth_sys cred verf =
     (if au_flavor verf \<noteq> 0 \<or> au_body verf \<noteq> [] then Inl kBadVerf
      else case dec_auth_sys (dec_of_flat (au_body cred)) of
             Inl e \<Rightarrow> Inl EACCES
           | Inr (c, d) \<Rightarrow> Inr c)"

definition kMaxFlavor :: u32 where "kMaxFlavor = 8"

type_synonym auth_registry = "u32 \<Rightarrow> authenticator option"

definition auth_add :: "u32 \<Rightarrow> authenticator \<Rightarrow> auth_registry \<Rightarrow> auth_registry" where
  "auth_add flavor a reg = (if flavor < kMaxFlavor then reg(flavor \<mapsto> a) else reg)"

definition authenticate :: "auth_registry \<Rightarrow> RpcCall \<Rightarrow> AuthCred res" where
  "authenticate reg call =
     (let f = au_flavor (rc_cred call)
      in if f \<ge> kMaxFlavor then Inl EPERM
         else case reg f of None \<Rightarrow> Inl EPERM | Some a \<Rightarrow> a (rc_cred call) (rc_verf call))"

definition default_registry :: auth_registry where
  "default_registry = auth_add 1 auth_sys (auth_add 0 auth_none (\<lambda>_. None))"

section \<open>Dispatch\<close>

record Program =
  pg_prog :: u32
  pg_vers_lo :: u32
  pg_vers_hi :: u32
  pg_self :: nat

text \<open>
  The connection: the policy \<^verbatim>\<open>tls = "required"\<close>, whether TLS is on, and the
  replies sent so far.  A handler sends its own replies and answers whether it threw.
\<close>

record ConnCtx =
  cx_tls_required :: bool
  cx_tls_active :: bool
  cx_sent :: "bytes list"
  cx_memory :: "nat \<Rightarrow> nat \<Rightarrow> u8"
  cx_garbage :: nat

type_synonym handler = "nat \<Rightarrow> RpcCall \<Rightarrow> AuthCred \<Rightarrow> ConnCtx \<Rightarrow> bool \<times> ConnCtx"

definition send_enc :: "(XdrEnc \<Rightarrow> XdrEnc) \<Rightarrow> ConnCtx \<Rightarrow> ConnCtx" where
  "send_enc f ctx =
     (let chain = fst (take_enc (f (new_enc 18446744073709551615 (cx_memory ctx))))
      in ctx\<lparr>cx_sent := cx_sent ctx @ [to_bytes chain]\<rparr>)"

definition reply_garbage_args :: "u32 \<Rightarrow> ConnCtx \<Rightarrow> ConnCtx" where
  "reply_garbage_args xid ctx = send_enc (encode_reply_accepted_err xid kGarbageArgs) (ctx\<lparr>cx_garbage := cx_garbage ctx + 1\<rparr>)"

definition find_program :: "Program list \<Rightarrow> u32 \<Rightarrow> u32 \<Rightarrow> Program option" where
  "find_program programs prog vers = List.find (\<lambda>p. pg_prog p = prog \<and> vers \<ge> pg_vers_lo p \<and> vers \<le> pg_vers_hi p) programs"

definition prog_known :: "Program list \<Rightarrow> u32 \<Rightarrow> bool" where
  "prog_known programs prog \<longleftrightarrow> list_ex (\<lambda>p. pg_prog p = prog) programs"

definition vers_range :: "Program list \<Rightarrow> u32 \<Rightarrow> u32 \<times> u32" where
  "vers_range programs prog =
     foldl (\<lambda>(lo, hi) p. if pg_prog p \<noteq> prog then (lo, hi) else (min lo (pg_vers_lo p), max hi (pg_vers_hi p)))
       (UINT32_MAX, 0) programs"

definition auth_stat :: "errno \<Rightarrow> u32" where
  "auth_stat e = (if e = EPERM then kAuthRejectedcred else if e = kBadVerf then kAuthBadverf else kAuthBadcred)"

definition handle_request :: "handler \<Rightarrow> auth_registry \<Rightarrow> Program list \<Rightarrow> BufferChain \<Rightarrow> ConnCtx \<Rightarrow> ConnCtx" where
  "handle_request handler auth programs rec ctx =
     (case parse_call rec of
        Inl e \<Rightarrow> ctx
      | Inr call \<Rightarrow>
          if rc_rpcvers call \<noteq> kRpcVersion then send_enc (encode_reply_rpc_mismatch (rc_xid call)) ctx
          else if cx_tls_required ctx \<and> \<not> cx_tls_active ctx \<and> rc_proc call \<noteq> 0
          then send_enc (encode_reply_auth_error (rc_xid call) kAuthTooweak) ctx
          else if \<not> prog_known programs (rc_prog call)
          then send_enc (encode_reply_accepted_err (rc_xid call) kProgUnavail) ctx
          else case find_program programs (rc_prog call) (rc_vers call) of
                 None \<Rightarrow>
                   let (lo, hi) = vers_range programs (rc_prog call)
                   in send_enc (encode_reply_prog_mismatch (rc_xid call) lo hi) ctx
               | Some prog \<Rightarrow>
                   (case authenticate auth call of
                      Inl e \<Rightarrow> send_enc (encode_reply_auth_error (rc_xid call) (auth_stat e)) ctx
                    | Inr cred \<Rightarrow>
                        let (failed, ctx1) = handler (pg_self prog) call cred ctx
                        in if failed then send_enc (encode_reply_accepted_err (rc_xid call) kSystemErr) ctx1 else ctx1))"

section \<open>Parsing\<close>

abbreviation fnv_fold :: "bytes \<Rightarrow> u64 \<Rightarrow> u64" where
  "fnv_fold bs h \<equiv> fold (\<lambda>c h. fnv_step h c) bs h"

lemma args_fnv_bytes:
  "skipped \<le> args_off \<Longrightarrow>
   args_fnv ss args_off skipped want h = fnv_fold (take want (drop (args_off - skipped) (concat (map seg_bytes ss)))) h"
proof (induction ss arbitrary: skipped want h)
  case (Cons s ss)
  define need where "need = args_off - skipped"
  show ?case
  proof (cases "want = 0")
    case False
    show ?thesis
    proof (cases "need < sg_len s")
      case True
      define k where "k = min (sg_len s - need) want"
      have step: "args_fnv (s # ss) args_off skipped want h =
          args_fnv ss args_off args_off (want - k) (fnv_fold (buf_bytes (sg_buf s) (sg_off s + need) k) h)"
        using False True Cons.prems by (auto simp: Let_def need_def k_def)
      have "want - min want (sg_len s - need) = want + need - sg_len s" using True by (simp add: min_def)
      then show ?thesis
        unfolding step using Cons.IH [of args_off "want - k"] True
        by (simp add: seg_bytes_def need_def k_def min.commute)
    next
      case skip: False
      show ?thesis
      proof (cases "need = 0")
        case True
        with skip have "sg_len s = 0" "seg_bytes s = []" by (simp_all add: seg_bytes_def)
        with True Cons.prems False show ?thesis using Cons.IH [of skipped want h] by (simp add: need_def Let_def)
      next
        case need: False
        with skip have "args_fnv (s # ss) args_off skipped want h = args_fnv ss args_off (skipped + sg_len s) want h"
          using False by (simp add: Let_def need_def)
        with skip need show ?thesis using Cons.IH [of "skipped + sg_len s" want h] by (simp add: need_def)
      qed
    qed
  qed simp
qed simp

lemma uniform_auth [uniform_intros]: "uniform dec_auth"
  unfolding dec_auth_def by (intro uniform_intros)

lemma uniform_header [uniform_intros]: "uniform parse_header"
  unfolding parse_header_def by (intro uniform_intros)

definition wire_auth :: "OpaqueAuth \<Rightarrow> bytes" where
  "wire_auth a = wire_u32 (au_flavor a) @ wire_opaque (au_body a)"

lemma parses_auth [parses_intros]:
  assumes "length (au_body a) \<le> 400"
  shows "parses dec_auth a (wire_auth a)"
proof -
  have a: "\<lparr>au_flavor = au_flavor a, au_body = au_body a\<rparr> = a" by (cases a) simp
  show ?thesis
    unfolding dec_auth_def wire_auth_def
    by (intro parses_bind [OF parses_u32] parses_bind_last [OF parses_opaque])
      (use assms parses_return [of a] in \<open>simp_all add: kMaxAuthBody_def a\<close>)
qed

definition wire_call :: "RpcCall \<Rightarrow> bytes" where
  "wire_call c = wire_u32 (rc_xid c) @ wire_u32 kCall @ wire_u32 (rc_rpcvers c) @ wire_u32 (rc_prog c) @ wire_u32 (rc_vers c) @
     wire_u32 (rc_proc c) @ wire_auth (rc_cred c) @ wire_auth (rc_verf c)"

lemma parses_header [parses_intros]:
  assumes "length (au_body (rc_cred c)) \<le> 400" and "length (au_body (rc_verf c)) \<le> 400"
  shows "parses parse_header (rc_xid c, rc_rpcvers c, rc_prog c, rc_vers c, rc_proc c, rc_cred c, rc_verf c) (wire_call c)"
proof -
  have "parses (dec_bind dec_u32 (\<lambda>rpcvers. dec_bind dec_u32 (\<lambda>prog. dec_bind dec_u32 (\<lambda>vers. dec_bind dec_u32 (\<lambda>proc.
       dec_bind dec_auth (\<lambda>cred. dec_bind dec_auth (\<lambda>verf. dec_return (rc_xid c, rpcvers, prog, vers, proc, cred, verf))))))))
     (rc_xid c, rc_rpcvers c, rc_prog c, rc_vers c, rc_proc c, rc_cred c, rc_verf c)
     (wire_u32 (rc_rpcvers c) @ wire_u32 (rc_prog c) @ wire_u32 (rc_vers c) @ wire_u32 (rc_proc c) @ wire_auth (rc_cred c) @ wire_auth (rc_verf c))"
    by (intro parses_bind [OF parses_u32] parses_bind [OF parses_auth] parses_bind_last [OF parses_auth] parses_return assms)
  then show ?thesis
    unfolding parse_header_def wire_call_def
    by (intro parses_bind [OF parses_u32]) simp
qed

lemma header_suffix:
  assumes "chain_ok rec" and "parse_header (dec_of_chain rec) = Inr (v, d)"
  shows "dec_ok d" and "dec_bytes d = drop (bc_size rec - xd_remaining d) (to_bytes rec)" and "xd_remaining d = length (dec_bytes d)"
proof -
  have ok: "dec_ok (dec_of_chain rec)" "dec_bytes (dec_of_chain rec) = to_bytes rec" "bc_size rec = length (to_bytes rec)"
    using assms(1) dec_of_chain_ok [of rec] by (auto simp: chain_ok_def to_bytes_def length_concat comp_def)
  have d: "dec_ok d" "suffix (dec_bytes d) (to_bytes rec)"
    using uniform_ok [OF uniform_header ok(1) assms(2)] ok(2) by simp_all
  then show "dec_ok d" "xd_remaining d = length (dec_bytes d)" by (simp_all add: dec_ok_def)
  from d(2) obtain p where "to_bytes rec = p @ dec_bytes d" by (auto simp: suffix_def)
  then show "dec_bytes d = drop (bc_size rec - xd_remaining d) (to_bytes rec)"
    using d(1) ok(3) by (simp add: dec_ok_def)
qed

lemma call_hash:
  assumes "chain_ok rec" and "parse_header (dec_of_chain rec) = Inr (v, d)"
  shows "args_fnv (bc_segs rec) (bc_size rec - xd_remaining d) 0 (min (xd_remaining d) 256) 1469598103934665603 = fnv64 (take 256 (dec_bytes d))"
proof -
  note h = header_suffix [OF assms]
  have "take (min (xd_remaining d) 256) (dec_bytes d) = take 256 (dec_bytes d)" using h(3) by (simp add: min_def)
  moreover have "args_fnv (bc_segs rec) (bc_size rec - xd_remaining d) 0 (min (xd_remaining d) 256) 1469598103934665603 =
    fnv_fold (take (min (xd_remaining d) 256) (drop (bc_size rec - xd_remaining d) (to_bytes rec))) 1469598103934665603"
    unfolding to_bytes_def by (subst args_fnv_bytes) simp_all
  ultimately show ?thesis unfolding h(2) [symmetric] fnv64_def by simp
qed

text \<open>C19: a call that a client encoded parses to its fields, with the argument decoder at the first argument byte and the hash over the
  first 256 of them, however the record was cut into buffers.\<close>

theorem call_roundtrip:
  assumes "chain_ok rec" and "to_bytes rec = wire_call c @ args" and "length (au_body (rc_cred c)) \<le> 400" and "length (au_body (rc_verf c)) \<le> 400"
  shows "\<exists>d. parse_call rec = Inr (c\<lparr>rc_args_hash := fnv64 (take 256 args), rc_args := d\<rparr>) \<and> dec_ok d \<and> dec_bytes d = args"
proof -
  have "dec_ok (dec_of_chain rec)" "dec_bytes (dec_of_chain rec) = wire_call c @ args"
    using assms(1,2) dec_of_chain_ok [of rec] by (simp_all add: chain_ok_def)
  from parsesD [OF parses_header [OF assms(3,4)] this] obtain d where
    d: "parse_header (dec_of_chain rec) = Inr ((rc_xid c, rc_rpcvers c, rc_prog c, rc_vers c, rc_proc c, rc_cred c, rc_verf c), d)"
      "dec_ok d" "dec_bytes d = args" by blast
  with call_hash [OF assms(1) d(1)] show ?thesis
    by (intro exI [of _ d]) (simp add: parse_call_def)
qed

text \<open>parsing a call depends only on the bytes of the record: two records with the same bytes give the same error, or calls that
  agree in every field and the hash and whose argument decoders see the same bytes.\<close>

theorem parse_call_segmentation:
  assumes "chain_ok r1" and "chain_ok r2" and "to_bytes r1 = to_bytes r2"
  shows "case parse_call r1 of
      Inl e \<Rightarrow> parse_call r2 = Inl e
    | Inr c \<Rightarrow> \<exists>d. parse_call r2 = Inr (c\<lparr>rc_args := d\<rparr>) \<and> dec_rel (rc_args c) d"
proof -
  have ok: "dec_ok (dec_of_chain r1)" "dec_ok (dec_of_chain r2)" "dec_bytes (dec_of_chain r1) = dec_bytes (dec_of_chain r2)"
    using assms dec_of_chain_ok [of r1] dec_of_chain_ok [of r2] by (simp_all add: chain_ok_def)
  note a = uniform_agree [OF uniform_header ok]
  show ?thesis
  proof (cases "parse_header (dec_of_chain r1)")
    case (Inl e)
    with a show ?thesis by (simp add: agree_def parse_call_def)
  next
    case (Inr r)
    obtain v d1 where h1: "parse_header (dec_of_chain r1) = Inr (v, d1)" using Inr by (cases r) auto
    with a obtain d2 where h2: "parse_header (dec_of_chain r2) = Inr (v, d2)" and rel: "dec_rel d1 d2" by (auto simp: agree_def)
    obtain xid rpcvers prog vers proc cred verf where v: "v = (xid, rpcvers, prog, vers, proc, cred, verf)" by (metis prod_cases7)
    show ?thesis
      using h1 h2 rel call_hash [OF assms(1) h1] call_hash [OF assms(2) h2]
      by (simp add: parse_call_def v dec_rel_def)
  qed
qed

section \<open>Records in one and in two buffers\<close>

definition buf_of :: "nat \<Rightarrow> bytes \<Rightarrow> Buf" where
  "buf_of k bs = \<lparr>bf_id = Ext k, bf_cap = length bs, bf_data = \<lambda>i. bs ! i\<rparr>"

definition chain_of :: "bytes \<Rightarrow> bytes \<Rightarrow> BufferChain" where
  "chain_of bs cs = chain_append (buf_of 1 cs) 0 (length cs) (chain_append (buf_of 0 bs) 0 (length bs) empty_chain)"

lemma buf_of_bytes: "buf_bytes (buf_of k bs) 0 (length bs) = bs"
  by (simp add: buf_bytes_def buf_of_def map_nth)

lemma chain_of_ok [simp]: "chain_ok (chain_of bs cs)" "to_bytes (chain_of bs cs) = bs @ cs"
  by (simp_all add: chain_of_def chain_ok_append to_bytes_append buf_of_bytes empty_chain_facts)

definition demo_call :: RpcCall where
  "demo_call = \<lparr>rc_xid = 7, rc_rpcvers = 2, rc_prog = 100003, rc_vers = 3, rc_proc = 1, rc_cred = \<lparr>au_flavor = 0, au_body = []\<rparr>,
     rc_verf = \<lparr>au_flavor = 0, au_body = []\<rparr>, rc_args_hash = 0, rc_args = dec_of_flat []\<rparr>"

theorem call_roundtrip_witness:
  "\<exists>d. parse_call (chain_of (take 13 (wire_call demo_call)) (drop 13 (wire_call demo_call) @ [1, 2])) =
     Inr (demo_call\<lparr>rc_args_hash := fnv64 [1, 2], rc_args := d\<rparr>) \<and> dec_bytes d = [1, 2]"
proof -
  have "to_bytes (chain_of (take 13 (wire_call demo_call)) (drop 13 (wire_call demo_call) @ [1, 2])) = wire_call demo_call @ [1, 2]"
    by (simp del: drop_append take_append)
  moreover have "length (au_body (rc_cred demo_call)) \<le> 400" "length (au_body (rc_verf demo_call)) \<le> 400" by (simp_all add: demo_call_def)
  ultimately show ?thesis using call_roundtrip [of "chain_of (take 13 (wire_call demo_call)) (drop 13 (wire_call demo_call) @ [1, 2])" demo_call "[1, 2]"]
    by auto
qed

theorem parse_call_segmentation_witness:
  "case parse_call (chain_of (wire_call demo_call) []) of
     Inl e \<Rightarrow> parse_call (chain_of (take 13 (wire_call demo_call)) (drop 13 (wire_call demo_call))) = Inl e
   | Inr c \<Rightarrow> \<exists>d. parse_call (chain_of (take 13 (wire_call demo_call)) (drop 13 (wire_call demo_call))) = Inr (c\<lparr>rc_args := d\<rparr>) \<and>
       dec_rel (rc_args c) d"
  using parse_call_segmentation [of "chain_of (wire_call demo_call) []" "chain_of (take 13 (wire_call demo_call)) (drop 13 (wire_call demo_call))"]
  by simp

section \<open>Credentials\<close>

definition wire_auth_sys :: "u32 \<Rightarrow> AuthCred \<Rightarrow> bytes" where
  "wire_auth_sys stamp c = wire_u32 stamp @ wire_opaque (ac_machine c) @ wire_u32 (ac_uid c) @ wire_u32 (ac_gid c) @
     wire_u32 (of_nat (length (ac_gids c))) @ concat (map wire_u32 (ac_gids c))"

lemma parses_gids: "parses (dec_gids (length gs)) gs (concat (map wire_u32 gs))"
  by (induction gs) (auto intro!: parses_bind [OF parses_u32] parses_bind_last parses_return)

lemma parses_auth_sys:
  assumes "length (ac_machine c) \<le> 255" and "length (ac_gids c) \<le> 16" and "ac_flavor c = kSys" and "\<not> ac_anonymous c"
  shows "parses dec_auth_sys c (wire_auth_sys stamp c)"
proof -
  have n: "unat (of_nat (length (ac_gids c)) :: u32) = length (ac_gids c)" using assms(2) by (intro le_unat_uoi [of _ 16]) simp
  have le: "\<not> 16 < (of_nat (length (ac_gids c)) :: u32)" using assms(2) n by (simp add: word_less_nat_alt)
  have c: "\<lparr>ac_uid = ac_uid c, ac_gid = ac_gid c, ac_gids = ac_gids c, ac_flavor = kSys, ac_anonymous = False, ac_machine = ac_machine c\<rparr> = c"
    using assms(3,4) by (cases c) simp
  show ?thesis
    unfolding dec_auth_sys_def wire_auth_sys_def
    by (intro parses_bind [OF parses_u32] parses_bind [OF parses_string])
      (use assms(1) le n c parses_return [of c] parses_gids [of "ac_gids c"] in \<open>auto intro: parses_bind_last\<close>)
qed

text \<open>C20: an AUTH_SYS credential that a client encoded is authenticated to its identity, machine name and groups.\<close>

theorem auth_sys_roundtrip:
  assumes "length (ac_machine c) \<le> 255" and "length (ac_gids c) \<le> 16" and "ac_flavor c = kSys" and "\<not> ac_anonymous c"
  shows "auth_sys \<lparr>au_flavor = 1, au_body = wire_auth_sys stamp c\<rparr> \<lparr>au_flavor = 0, au_body = []\<rparr> = Inr c"
  using parsesD [OF parses_auth_sys [OF assms, of stamp], of "dec_of_flat (wire_auth_sys stamp c)" "[]"] by (auto simp: auth_sys_def)

theorem auth_sys_roundtrip_witness:
  "auth_sys \<lparr>au_flavor = 1, au_body = wire_auth_sys 9 (default_cred\<lparr>ac_uid := 1000, ac_gid := 100, ac_gids := [4, 27], ac_flavor := kSys, ac_machine := [104]\<rparr>)\<rparr>
     \<lparr>au_flavor = 0, au_body = []\<rparr> =
   Inr (default_cred\<lparr>ac_uid := 1000, ac_gid := 100, ac_gids := [4, 27], ac_flavor := kSys, ac_machine := [104]\<rparr>)"
  using auth_sys_roundtrip [of "default_cred\<lparr>ac_uid := 1000, ac_gid := 100, ac_gids := [4, 27], ac_flavor := kSys, ac_machine := [104]\<rparr>" 9]
  by (simp add: default_cred_def)

lemma gids_length: "dec_gids n d = Inr (gs, d') \<Longrightarrow> length gs = n"
  by (induction n arbitrary: d gs d') (auto simp: dec_bind_def dec_return_def split: sum.splits)



section \<open>The error discipline\<close>

definition wire_words :: "u32 list \<Rightarrow> bytes" where
  "wire_words ws = concat (map wire_u32 ws)"

lemma emits_word: "emits f (wire_words ws) \<Longrightarrow> emits (\<lambda>e. enc_u32 v (f e)) (wire_words (ws @ [v]))"
  using emits_comp [OF _ emits_u32] by (simp add: wire_words_def)

lemma emits_no_words: "emits (\<lambda>e. e) (wire_words [])"
  using emits_id by (simp add: wire_words_def)

lemma emits_replies:
  "emits (encode_reply_success xid) (wire_words [xid, 1, 0, 0, 0, 0])"
  "emits (encode_reply_accepted_err xid st) (wire_words [xid, 1, 0, 0, 0, st])"
  "emits (encode_reply_prog_mismatch xid lo hi) (wire_words [xid, 1, 0, 0, 0, 2, lo, hi])"
  "emits (encode_reply_rpc_mismatch xid) (wire_words [xid, 1, 1, 0, 2, 2])"
  "emits (encode_reply_auth_error xid st) (wire_words [xid, 1, 1, 1, st])"
proof -
  note w = emits_word [OF emits_no_words] emits_word
  show "emits (encode_reply_success xid) (wire_words [xid, 1, 0, 0, 0, 0])"
    using w(2) [OF w(2) [OF w(2) [OF w(2) [OF w(2) [OF w(1) [of xid], of 1], of 0], of 0], of 0], of 0]
    by (simp add: encode_reply_success_def [abs_def] null_verf_def)
  have acc: "emits (encode_reply_accepted_err xid st) (wire_words [xid, 1, 0, 0, 0, st])" for st
    using w(2) [OF w(2) [OF w(2) [OF w(2) [OF w(2) [OF w(1) [of xid], of 1], of 0], of 0], of 0], of st]
    by (simp add: encode_reply_accepted_err_def [abs_def] null_verf_def)
  then show "emits (encode_reply_accepted_err xid st) (wire_words [xid, 1, 0, 0, 0, st])" .
  show "emits (encode_reply_prog_mismatch xid lo hi) (wire_words [xid, 1, 0, 0, 0, 2, lo, hi])"
    using w(2) [OF w(2) [OF acc [of 2], of lo], of hi] by (simp add: encode_reply_prog_mismatch_def [abs_def])
  show "emits (encode_reply_rpc_mismatch xid) (wire_words [xid, 1, 1, 0, 2, 2])"
    using w(2) [OF w(2) [OF w(2) [OF w(2) [OF w(2) [OF w(1) [of xid], of 1], of 1], of 0], of 2], of 2]
    by (simp add: encode_reply_rpc_mismatch_def [abs_def] kRpcVersion_def)
  show "emits (encode_reply_auth_error xid st) (wire_words [xid, 1, 1, 1, st])"
    using w(2) [OF w(2) [OF w(2) [OF w(2) [OF w(1) [of xid], of 1], of 1], of 1], of st]
    by (simp add: encode_reply_auth_error_def [abs_def])
qed

lemma send_enc_emits: "emits f bs \<Longrightarrow> send_enc f ctx = ctx\<lparr>cx_sent := cx_sent ctx @ [bs]\<rparr>"
  using emitsD [of f bs "new_enc 18446744073709551615 (cx_memory ctx)"] take_enc_bytes [of "f (new_enc 18446744073709551615 (cx_memory ctx))"]
  by (simp add: send_enc_def Let_def)

lemmas send_replies = emits_replies [THEN send_enc_emits]

text \<open>The versions registered for a program.\<close>

definition of_prog :: "Program list \<Rightarrow> u32 \<Rightarrow> Program list" where
  "of_prog programs prog = filter (\<lambda>p. pg_prog p = prog) programs"

lemma vers_range_eq:
  "vers_range programs prog = (foldl min UINT32_MAX (map pg_vers_lo (of_prog programs prog)), foldl max 0 (map pg_vers_hi (of_prog programs prog)))"
proof -
  have "foldl (\<lambda>(lo, hi) p. if pg_prog p \<noteq> prog then (lo, hi) else (min lo (pg_vers_lo p), max hi (pg_vers_hi p))) (a, b) programs =
      (foldl min a (map pg_vers_lo (of_prog programs prog)), foldl max b (map pg_vers_hi (of_prog programs prog)))" for a b
    by (induction programs arbitrary: a b) (simp_all add: of_prog_def)
  then show ?thesis by (simp add: vers_range_def)
qed

lemma foldl_min: "foldl min a xs = (if xs = [] then a else min a (Min (set (xs :: u32 list))))"
  by (induction xs arbitrary: a) (auto simp: min.assoc)

lemma foldl_max: "foldl max a xs = (if xs = [] then a else max a (Max (set (xs :: u32 list))))"
  by (induction xs arbitrary: a) (auto simp: max.assoc)

lemma vers_range_known:
  assumes "of_prog programs prog \<noteq> []"
  shows "vers_range programs prog = (Min (pg_vers_lo ` set (of_prog programs prog)), Max (pg_vers_hi ` set (of_prog programs prog)))"
proof -
  have "x \<le> UINT32_MAX" for x :: u32
  proof -
    have "UINT32_MAX = - 1" by simp
    then show ?thesis using max_word_max [of x] by (simp only:)
  qed
  then have "min UINT32_MAX x = x" for x :: u32 by (simp add: min_def order.antisym)
  moreover have "max 0 x = x" for x :: u32 by (simp add: max_def)
  ultimately show ?thesis using assms by (simp add: vers_range_eq foldl_min foldl_max)
qed

text \<open>
  The layers, in order: RPC version, TLS policy, program, version, credential.  The words follow the
  transaction id and the message type of the reply.
\<close>

definition refusal :: "auth_registry \<Rightarrow> Program list \<Rightarrow> ConnCtx \<Rightarrow> RpcCall \<Rightarrow> u32 list option" where
  "refusal auth programs ctx call =
     (let ps = of_prog programs (rc_prog call)
      in if rc_rpcvers call \<noteq> 2 then Some [1, 0, 2, 2]
         else if cx_tls_required ctx \<and> \<not> cx_tls_active ctx \<and> rc_proc call \<noteq> 0 then Some [1, 1, 5]
         else if ps = [] then Some [0, 0, 0, 1]
         else if (\<forall>p\<in>set ps. rc_vers call \<notin> {pg_vers_lo p..pg_vers_hi p})
         then Some [0, 0, 0, 2, Min (pg_vers_lo ` set ps), Max (pg_vers_hi ` set ps)]
         else case authenticate auth call of Inl e \<Rightarrow> Some [1, 1, auth_stat e] | Inr cred \<Rightarrow> None)"

lemma prog_known_iff: "prog_known programs prog \<longleftrightarrow> of_prog programs prog \<noteq> []"
  by (auto simp: prog_known_def of_prog_def list_ex_iff filter_empty_conv)

lemma find_program_None: "find_program programs prog vers = None \<longleftrightarrow> (\<forall>p\<in>set (of_prog programs prog). vers \<notin> {pg_vers_lo p..pg_vers_hi p})"
  by (auto simp: find_program_def of_prog_def find_None_iff)

text \<open>C22: the layered error discipline.  A record without a parseable call header is dropped; a call that fails a layer gets exactly the one
  reply of that layer, with its transaction id, and no engine sees it; any other call runs on the first program that serves its version,
  with the authenticated credential, and is answered SYSTEM_ERR when the engine throws.\<close>

theorem dispatch_discipline:
  "handle_request handler auth programs rec ctx =
     (case parse_call rec of
        Inl e \<Rightarrow> ctx
      | Inr call \<Rightarrow>
          (case refusal auth programs ctx call of
             Some ws \<Rightarrow> ctx\<lparr>cx_sent := cx_sent ctx @ [wire_words (rc_xid call # 1 # ws)]\<rparr>
           | None \<Rightarrow>
               (case (find_program programs (rc_prog call) (rc_vers call), authenticate auth call) of
                  (Some p, Inr cred) \<Rightarrow>
                    let (failed, ctx1) = handler (pg_self p) call cred ctx
                    in if failed then ctx1\<lparr>cx_sent := cx_sent ctx1 @ [wire_words [rc_xid call, 1, 0, 0, 0, 5]]\<rparr> else ctx1)))"
proof (cases "parse_call rec")
  case (Inr call)
  consider "rc_rpcvers call \<noteq> 2" | "rc_rpcvers call = 2" "cx_tls_required ctx \<and> \<not> cx_tls_active ctx \<and> rc_proc call \<noteq> 0"
    | "rc_rpcvers call = 2" "\<not> (cx_tls_required ctx \<and> \<not> cx_tls_active ctx \<and> rc_proc call \<noteq> 0)" "of_prog programs (rc_prog call) = []"
    | "rc_rpcvers call = 2" "\<not> (cx_tls_required ctx \<and> \<not> cx_tls_active ctx \<and> rc_proc call \<noteq> 0)" "of_prog programs (rc_prog call) \<noteq> []"
    by blast
  then show ?thesis
  proof cases
    case 4
    show ?thesis
    proof (cases "find_program programs (rc_prog call) (rc_vers call)")
      case None
      with 4 Inr show ?thesis
        using find_program_None [of programs "rc_prog call" "rc_vers call"]
        by (auto simp: handle_request_def refusal_def kRpcVersion_def prog_known_iff vers_range_known send_replies Let_def)
    next
      case (Some p)
      have "\<not> (\<forall>p\<in>set (of_prog programs (rc_prog call)). rc_vers call \<notin> {pg_vers_lo p..pg_vers_hi p})"
        using Some find_program_None [of programs "rc_prog call" "rc_vers call"] by simp
      with 4 Inr Some show ?thesis
        by (auto simp: handle_request_def refusal_def kRpcVersion_def prog_known_iff send_replies Let_def split: sum.splits prod.splits)
    qed
  qed (use Inr in \<open>auto simp: handle_request_def refusal_def kRpcVersion_def prog_known_iff send_replies Let_def\<close>)
qed (simp add: handle_request_def)

end
