(* ===== verification/RecordStream.thy ===== *)
theory RecordStream
  imports XdrEnc
begin

text \<open>
  TCP record marking (\<^verbatim>\<open>src/src/transport/record_stream.cpp\<close>).  The socket is an
  argument of the state: the bytes still to arrive, how many of them each receive delivers (zero:
  interrupted, try again), how it ends, and which buffer allocations fail.  TLS, which delivers and takes bytes the same way, is not
  distinguished.  A record is read into slices of the receive buffers.
\<close>

section \<open>Reading\<close>

definition kMaxFragments :: nat where "kMaxFragments = 1024"
definition kMedium :: nat where "kMedium = 64 * 1024"

record RecordStream =
  rs_in :: bytes
  rs_chunks :: "nat list"
  rs_end :: errno
  rs_rbuf :: "Buf option"
  rs_roff :: nat
  rs_rend :: nat
  rs_max_fragment :: u32
  rs_max_record :: u32
  rs_next :: nat
  rs_nomem :: "nat \<Rightarrow> bool"

text \<open>
  One \<^verbatim>\<open>uring_recv\<close> into at most \<^verbatim>\<open>room\<close> bytes, retried while interrupted:
  some bytes, or the end of the stream.  When the list of sizes is used up the rest arrives at once.
\<close>

fun recv_size :: "nat list \<Rightarrow> nat \<times> nat list" where
  "recv_size [] = (65536, [])"
| "recv_size (0 # cs) = recv_size cs"
| "recv_size (Suc n # cs) = (Suc n, cs)"

definition recv :: "nat \<Rightarrow> RecordStream \<Rightarrow> bytes res \<times> RecordStream" where
  "recv room st =
     (let (n, cs) = recv_size (rs_chunks st); k = min room n; st1 = st\<lparr>rs_chunks := cs\<rparr>
      in if rs_in st = [] then (Inl (rs_end st), st1)
         else (Inr (take k (rs_in st)), st1\<lparr>rs_in := drop k (rs_in st)\<rparr>))"

text \<open>More bytes into the receive buffer; a full buffer is replaced (the slices keep it alive).\<close>

definition rbuf_full :: "RecordStream \<Rightarrow> bool" where
  "rbuf_full st \<longleftrightarrow> (case rs_rbuf st of None \<Rightarrow> True | Some b \<Rightarrow> rs_rend st = bf_cap b)"

definition fresh_rbuf :: "RecordStream \<Rightarrow> RecordStream" where
  "fresh_rbuf st =
     (if rbuf_full st
      then st\<lparr>rs_rbuf := Some \<lparr>bf_id = Own (rs_next st), bf_cap = kMedium, bf_data = \<lambda>_. 0\<rparr>, rs_next := rs_next st + 1,
              rs_roff := 0, rs_rend := 0\<rparr>
      else st)"

abbreviation (input) ENOMEM :: errno where "ENOMEM \<equiv> 12"

definition fill :: "RecordStream \<Rightarrow> errno option \<times> RecordStream" where
  "fill st =
     (if rbuf_full st \<and> rs_nomem st (rs_next st) then (Some ENOMEM, st)
      else let st1 = fresh_rbuf st; room = (case rs_rbuf st1 of None \<Rightarrow> 0 | Some b \<Rightarrow> bf_cap b - rs_rend st1)
           in case recv room st1 of
                (Inl e, st2) \<Rightarrow> (Some e, st2)
              | (Inr bs, st2) \<Rightarrow>
                  (None, st2\<lparr>rs_rbuf := map_option (buf_write (rs_rend st2) bs) (rs_rbuf st2), rs_rend := rs_rend st2 + length bs\<rparr>))"

definition next_byte :: "RecordStream \<Rightarrow> u8" where
  "next_byte st = (case rs_rbuf st of None \<Rightarrow> 0 | Some b \<Rightarrow> bf_data b (rs_roff st))"

primrec read_bytes :: "nat \<Rightarrow> RecordStream \<Rightarrow> bytes res \<times> RecordStream" where
  "read_bytes 0 st = (Inr [], st)"
| "read_bytes (Suc n) st =
     (case (if rs_roff st = rs_rend st then fill st else (None, st)) of
        (Some e, st1) \<Rightarrow> (Inl e, st1)
      | (None, st1) \<Rightarrow>
          (case read_bytes n (st1\<lparr>rs_roff := rs_roff st1 + 1\<rparr>) of
             (Inl e, st2) \<Rightarrow> (Inl e, st2)
           | (Inr bs, st2) \<Rightarrow> (Inr (next_byte st1 # bs), st2)))"

definition read_be32 :: "RecordStream \<Rightarrow> u32 res \<times> RecordStream" where
  "read_be32 st =
     (case read_bytes 4 st of
        (Inl e, st1) \<Rightarrow> (Inl e, st1)
      | (Inr b, st1) \<Rightarrow> (Inr (from_be32 (le_word b)), st1))"

text \<open>
  The body of a fragment: slices of the receive buffer until \<^verbatim>\<open>need\<close> bytes are there.
  Every turn takes at least one byte, so \<^verbatim>\<open>need\<close> turns are enough.
\<close>

primrec read_body :: "nat \<Rightarrow> nat \<Rightarrow> BufferChain \<Rightarrow> RecordStream \<Rightarrow> BufferChain res \<times> RecordStream" where
  "read_body 0 need rec st = (Inr rec, st)"
| "read_body (Suc fuel) need rec st =
     (if need = 0 then (Inr rec, st)
      else case (if rs_roff st = rs_rend st then fill st else (None, st)) of
             (Some e, st1) \<Rightarrow> (Inl (if e = kEof then EBADMSG else e), st1)
           | (None, st1) \<Rightarrow>
               let k = min need (rs_rend st1 - rs_roff st1);
                   rec1 = (case rs_rbuf st1 of None \<Rightarrow> rec | Some b \<Rightarrow> chain_append b (rs_roff st1) k rec)
               in read_body fuel (need - k) rec1 (st1\<lparr>rs_roff := rs_roff st1 + k\<rparr>))"

text \<open>The fragments of a record; the first argument counts those still allowed.\<close>

primrec read_fragments :: "nat \<Rightarrow> BufferChain \<Rightarrow> RecordStream \<Rightarrow> BufferChain res \<times> RecordStream" where
  "read_fragments 0 rec st =
     (case read_be32 st of (Inl e, st1) \<Rightarrow> (Inl e, st1) | (Inr hdr, st1) \<Rightarrow> (Inl EMSGSIZE, st1))"
| "read_fragments (Suc n) rec st =
     (case read_be32 st of
        (Inl e, st1) \<Rightarrow> (Inl e, st1)
      | (Inr hdr, st1) \<Rightarrow>
          let last = (hdr AND 0x80000000 \<noteq> 0); len = hdr AND 0x7fffffff
          in if len > rs_max_fragment st \<or> bc_size rec + unat len > unat (rs_max_record st) then (Inl EMSGSIZE, st1)
             else case read_body (unat len) (unat len) rec st1 of
                    (Inl e, st2) \<Rightarrow> (Inl e, st2)
                  | (Inr rec1, st2) \<Rightarrow> if last then (Inr rec1, st2) else read_fragments n rec1 st2)"

definition read_record :: "RecordStream \<Rightarrow> BufferChain res \<times> RecordStream" where
  "read_record st = read_fragments kMaxFragments empty_chain st"

section \<open>Writing\<close>

text \<open>
  The answers of \<^verbatim>\<open>uring_sendv\<close>, in order; \<^verbatim>\<open>None\<close> while the answers do not
  suffice to finish; the kernel takes at most what it is given.  The second result is what went out.
\<close>

definition EINTR :: int where "EINTR = 4"
abbreviation (input) EPIPE :: errno where "EPIPE \<equiv> 32"

primrec send_loop :: "int list \<Rightarrow> bytes \<Rightarrow> BufferChain \<Rightarrow> nat \<Rightarrow> bytes \<Rightarrow> (unit res option \<times> bytes)" where
  "send_loop [] marker buf sent out = (if sent < 4 + bc_size buf then (None, out) else (Some (Inr ()), out))"
| "send_loop (n # ns) marker buf sent out =
     (if \<not> sent < 4 + bc_size buf then (Some (Inr ()), out)
      else let iov = (if sent < 4 then drop sent marker # to_iovecs buf 0 else to_iovecs buf (sent - 4))
           in if n = - EINTR \<or> n = - EAGAIN then send_loop ns marker buf sent out
              else if n \<le> 0 then (Some (Inl (if n = 0 then EPIPE else - n)), out)
              else let k = min (nat n) (length (concat iov)) in send_loop ns marker buf (sent + k) (out @ take k (concat iov)))"

definition write_record :: "int list \<Rightarrow> BufferChain \<Rightarrow> unit res option \<times> bytes" where
  "write_record answers buf =
     (let marker = le_bytes 4 (to_be32 (0x80000000 OR of_nat (bc_size buf))) in send_loop answers marker buf 0 [])"

section \<open>The bytes ahead\<close>

definition rs_ok :: "RecordStream \<Rightarrow> bool" where
  "rs_ok st \<longleftrightarrow>
     (case rs_rbuf st of
        None \<Rightarrow> rs_roff st = 0 \<and> rs_rend st = 0
      | Some b \<Rightarrow> rs_roff st \<le> rs_rend st \<and> rs_rend st \<le> bf_cap b) \<and> (\<forall>k. \<not> rs_nomem st k)"

definition unread :: "RecordStream \<Rightarrow> bytes" where
  "unread st = (case rs_rbuf st of None \<Rightarrow> [] | Some b \<Rightarrow> buf_bytes b (rs_roff st) (rs_rend st - rs_roff st)) @ rs_in st"

text \<open>What reading leaves alone.\<close>

definition same_limits :: "RecordStream \<Rightarrow> RecordStream \<Rightarrow> bool" where
  "same_limits st st' \<longleftrightarrow> rs_end st' = rs_end st \<and> rs_max_fragment st' = rs_max_fragment st \<and> rs_max_record st' = rs_max_record st"

lemma same_limits_refl [simp]: "same_limits st st"
  by (simp add: same_limits_def)

lemma same_limits_trans: "same_limits a b \<Longrightarrow> same_limits b c \<Longrightarrow> same_limits a c"
  by (simp add: same_limits_def)

lemma recv_size_pos: "0 < fst (recv_size cs)"
  by (induction cs rule: recv_size.induct) auto

lemma buf_write_new: "buf_bytes (buf_write off bs b) off (length bs) = bs"
  by (rule nth_equalityI) (auto simp: buf_bytes_def buf_write_def)

lemma buf_write_take: "k \<le> length bs \<Longrightarrow> buf_bytes (buf_write off (take k bs) b) off k = take k bs"
  using buf_write_new [of off "take k bs" b] by simp

lemma fresh_rbuf_simps [simp]:
  "rs_in (fresh_rbuf st) = rs_in st" "rs_end (fresh_rbuf st) = rs_end st" "same_limits st (fresh_rbuf st)"
  "rs_nomem (fresh_rbuf st) = rs_nomem st" "rs_chunks (fresh_rbuf st) = rs_chunks st"
  by (simp_all add: fresh_rbuf_def same_limits_def)

lemma fresh_rbuf_room:
  assumes "rs_ok st" and "rs_roff st = rs_rend st"
  shows "\<exists>b. rs_rbuf (fresh_rbuf st) = Some b \<and> rs_rend (fresh_rbuf st) < bf_cap b" and "rs_roff (fresh_rbuf st) = rs_rend (fresh_rbuf st)"
  using assms by (auto simp: fresh_rbuf_def rbuf_full_def rs_ok_def kMedium_def split: option.splits)

lemma fill_ok:
  assumes "rs_ok st" and "rs_roff st = rs_rend st"
  shows "case fill st of
      (Some e, st') \<Rightarrow> unread st = [] \<and> e = rs_end st
    | (None, st') \<Rightarrow> rs_ok st' \<and> unread st' = unread st \<and> rs_roff st' < rs_rend st' \<and> same_limits st st'"
proof -
  define st1 where "st1 = fresh_rbuf st"
  obtain b where b: "rs_rbuf st1 = Some b" "rs_rend st1 < bf_cap b" "rs_roff st1 = rs_rend st1" "rs_in st1 = rs_in st" "rs_end st1 = rs_end st"
      "same_limits st st1" "\<forall>k. \<not> rs_nomem st1 k" "rs_chunks st1 = rs_chunks st"
    using assms fresh_rbuf_room [OF assms] by (auto simp: st1_def rs_ok_def)
  have un: "unread st = rs_in st" using assms by (simp add: unread_def rs_ok_def split: option.splits)
  have nm: "\<not> rs_nomem st k" for k using assms by (simp add: rs_ok_def)
  obtain n cs where n: "recv_size (rs_chunks st1) = (n, cs)" "0 < n" using recv_size_pos [of "rs_chunks st1"] by (cases "recv_size (rs_chunks st1)") auto
  define k where "k = min (bf_cap b - rs_rend st1) n"
  have k: "0 < k" "k \<le> bf_cap b - rs_rend st1" using b(2) n(2) by (auto simp: k_def)
  show ?thesis
  proof (cases "rs_in st = []")
    case True
    then show ?thesis using b n un nm by (simp add: fill_def recv_def Let_def st1_def [symmetric])
  next
    case False
    have f: "fill st = (None, st1\<lparr>rs_chunks := cs, rs_in := drop k (rs_in st1), rs_rbuf := Some (buf_write (rs_rend st1) (take k (rs_in st1)) b),
        rs_rend := rs_rend st1 + length (take k (rs_in st1))\<rparr>)"
      using False b n nm by (simp add: fill_def recv_def Let_def st1_def [symmetric] k_def)
    show ?thesis
      unfolding f using False b(2-) k un
      by (auto simp: unread_def rs_ok_def same_limits_def buf_write_new buf_write_take min_def)
  qed
qed

lemma unread_step:
  assumes "rs_ok st" and "rs_roff st + k \<le> rs_rend st" and "rs_rbuf st = Some b"
  shows "unread st = buf_bytes b (rs_roff st) k @ unread (st\<lparr>rs_roff := rs_roff st + k\<rparr>)" and "rs_ok (st\<lparr>rs_roff := rs_roff st + k\<rparr>)"
  using assms buf_bytes_add [of b "rs_roff st" k "rs_rend st - (rs_roff st + k)"] by (auto simp: unread_def rs_ok_def)

text \<open>The state before the next byte is consumed.\<close>

lemma refill_ok:
  assumes "rs_ok st" and "(if rs_roff st = rs_rend st then fill st else (None, st)) = (r, st1)"
  shows "case r of
      Some e \<Rightarrow> unread st = [] \<and> e = rs_end st
    | None \<Rightarrow> rs_ok st1 \<and> unread st1 = unread st \<and> rs_roff st1 < rs_rend st1 \<and> same_limits st st1 \<and> (\<exists>b. rs_rbuf st1 = Some b)"
proof -
  have "rs_rbuf s \<noteq> None" if "rs_ok s" "rs_roff s < rs_rend s" for s using that by (auto simp: rs_ok_def split: option.splits)
  then show ?thesis
    using assms fill_ok [OF assms(1)] by (auto simp: rs_ok_def split: option.splits prod.splits if_splits)
qed

lemma read_bytes_ok:
  assumes "rs_ok st"
  shows "case read_bytes n st of
      (Inl e, st') \<Rightarrow> length (unread st) < n \<and> e = rs_end st
    | (Inr bs, st') \<Rightarrow> unread st = bs @ unread st' \<and> length bs = n \<and> rs_ok st' \<and> same_limits st st'"
  using assms
proof (induction n arbitrary: st)
  case (Suc n)
  obtain r st1 where r: "(if rs_roff st = rs_rend st then fill st else (None, st)) = (r, st1)" by force
  note R = refill_ok [OF Suc.prems r]
  show ?case
  proof (cases r)
    case (Some e)
    then show ?thesis using R r by simp
  next
    case None
    with R obtain b where b: "rs_ok st1" "unread st1 = unread st" "rs_roff st1 < rs_rend st1" "same_limits st st1" "rs_rbuf st1 = Some b" by auto
    from unread_step [OF b(1) _ b(5), of 1] b(3)
    have s: "unread st1 = next_byte st1 # unread (st1\<lparr>rs_roff := rs_roff st1 + 1\<rparr>)" "rs_ok (st1\<lparr>rs_roff := rs_roff st1 + 1\<rparr>)"
      by (simp_all add: next_byte_def b(5) buf_bytes_def)
    have "same_limits st1 (st1\<lparr>rs_roff := rs_roff st1 + 1\<rparr>)" "rs_end st1 = rs_end st" using b(4) by (simp_all add: same_limits_def)
    then show ?thesis
      using Suc.IH [OF s(2)] s(1) b(2,4) r None
      by (auto split: prod.splits sum.splits intro: same_limits_trans)
  qed
qed simp

lemma read_body_ok:
  assumes "rs_ok st" and "chain_ok rec" and "need \<le> fuel"
  shows "case read_body fuel need rec st of
      (Inl e, st') \<Rightarrow> length (unread st) < need \<and> e = (if rs_end st = kEof then EBADMSG else rs_end st)
    | (Inr rec', st') \<Rightarrow> need \<le> length (unread st) \<and> to_bytes rec' = to_bytes rec @ take need (unread st) \<and> unread st' = drop need (unread st) \<and>
        chain_ok rec' \<and> rs_ok st' \<and> same_limits st st'"
  using assms
proof (induction fuel arbitrary: need rec st)
  case (Suc fuel)
  show ?case
  proof (cases "need = 0")
    case False
    obtain r st1 where r: "(if rs_roff st = rs_rend st then fill st else (None, st)) = (r, st1)" by force
    note R = refill_ok [OF Suc.prems(1) r]
    show ?thesis
    proof (cases r)
      case (Some e)
      then show ?thesis using R r False by simp
    next
      case None
      with R obtain b where b: "rs_ok st1" "unread st1 = unread st" "rs_roff st1 < rs_rend st1" "same_limits st st1" "rs_rbuf st1 = Some b" by auto
      define k where "k = min need (rs_rend st1 - rs_roff st1)"
      have k: "0 < k" "k \<le> need" "rs_roff st1 + k \<le> rs_rend st1" using False b(3) by (auto simp: k_def)
      note s = unread_step [OF b(1) k(3) b(5)]
      have lim: "same_limits st (st1\<lparr>rs_roff := rs_roff st1 + k\<rparr>)" using b(4) by (simp add: same_limits_def)
      have step: "read_body (Suc fuel) need rec st =
          read_body fuel (need - k) (chain_append b (rs_roff st1) k rec) (st1\<lparr>rs_roff := rs_roff st1 + k\<rparr>)"
        using r None False b(5) by (simp add: k_def Let_def)
      have f: "need - k \<le> fuel" using Suc.prems(3) k by simp
      from Suc.IH [OF s(2) chain_ok_append [OF Suc.prems(2)] f, of b "rs_roff st1" k]
      show ?thesis
        unfolding step using s(1) b(2) lim k(2)
        by (auto simp: to_bytes_append same_limits_def less_diff_conv2 le_diff_conv add.commute split: prod.splits sum.splits)
    qed
  qed (use Suc.prems in simp)
qed simp

section \<open>Records of a byte stream\<close>

text \<open>
  What a stream of bytes means, told without buffers: fragments, each a header and a body, the last
  one flagged.  \<^verbatim>\<open>eof\<close> is how the stream ends.
\<close>

primrec parse_fragments :: "u32 \<Rightarrow> u32 \<Rightarrow> errno \<Rightarrow> nat \<Rightarrow> bytes \<Rightarrow> bytes \<Rightarrow> (bytes \<times> bytes) res" where
  "parse_fragments mf mr eof 0 acc bs = (if length bs < 4 then Inl eof else Inl EMSGSIZE)"
| "parse_fragments mf mr eof (Suc n) acc bs =
     (if length bs < 4 then Inl eof
      else let hdr = from_be32 (le_word (take 4 bs)); len = hdr AND 0x7fffffff; rest = drop 4 bs
           in if len > mf \<or> length acc + unat len > unat mr then Inl EMSGSIZE
              else if length rest < unat len then Inl (if eof = kEof then EBADMSG else eof)
              else if hdr AND 0x80000000 \<noteq> 0 then Inr (acc @ take (unat len) rest, drop (unat len) rest)
              else parse_fragments mf mr eof n (acc @ take (unat len) rest) (drop (unat len) rest))"

definition parse_record :: "u32 \<Rightarrow> u32 \<Rightarrow> errno \<Rightarrow> bytes \<Rightarrow> (bytes \<times> bytes) res" where
  "parse_record mf mr eof bs = parse_fragments mf mr eof kMaxFragments [] bs"

lemma read_be32_ok:
  assumes "rs_ok st"
  shows "case read_be32 st of
      (Inl e, st') \<Rightarrow> length (unread st) < 4 \<and> e = rs_end st
    | (Inr hdr, st') \<Rightarrow> 4 \<le> length (unread st) \<and> hdr = from_be32 (le_word (take 4 (unread st))) \<and> unread st' = drop 4 (unread st) \<and>
        rs_ok st' \<and> same_limits st st'"
  using read_bytes_ok [OF assms, of 4] by (auto simp: read_be32_def split: prod.splits sum.splits)

lemma chain_ok_size: "chain_ok c \<Longrightarrow> bc_size c = length (to_bytes c)"
  by (simp add: chain_ok_def to_bytes_def length_concat comp_def)

lemma read_fragments_ok:
  assumes "rs_ok st" and "chain_ok rec"
  shows "case read_fragments n rec st of
      (Inl e, st') \<Rightarrow> parse_fragments (rs_max_fragment st) (rs_max_record st) (rs_end st) n (to_bytes rec) (unread st) = Inl e
    | (Inr rec', st') \<Rightarrow>
        parse_fragments (rs_max_fragment st) (rs_max_record st) (rs_end st) n (to_bytes rec) (unread st) = Inr (to_bytes rec', unread st') \<and>
        chain_ok rec' \<and> rs_ok st' \<and> same_limits st st'"
  using assms
proof (induction n arbitrary: rec st)
  case 0
  then show ?case using read_be32_ok [OF 0(1)] by (auto split: prod.splits sum.splits)
next
  case (Suc n)
  obtain r st1 where r: "read_be32 st = (r, st1)" by force
  show ?case
  proof (cases r)
    case (Inl e)
    then show ?thesis using read_be32_ok [OF Suc.prems(1)] r by simp
  next
    case (Inr hdr)
    with read_be32_ok [OF Suc.prems(1)] r have h: "\<not> length (unread st) < 4" "hdr = from_be32 (le_word (take 4 (unread st)))"
      "unread st1 = drop 4 (unread st)" "rs_ok st1" "same_limits st st1" by auto
    define len where "len = hdr AND 0x7fffffff"
    have parse: "parse_fragments (rs_max_fragment st) (rs_max_record st) (rs_end st) (Suc n) (to_bytes rec) (unread st) =
        (if len > rs_max_fragment st \<or> length (to_bytes rec) + unat len > unat (rs_max_record st) then Inl EMSGSIZE
         else if length (unread st1) < unat len then Inl (if rs_end st = kEof then EBADMSG else rs_end st)
         else if hdr AND 0x80000000 \<noteq> 0 then Inr (to_bytes rec @ take (unat len) (unread st1), drop (unat len) (unread st1))
         else parse_fragments (rs_max_fragment st) (rs_max_record st) (rs_end st) n (to_bytes rec @ take (unat len) (unread st1)) (drop (unat len) (unread st1)))"
      using h(1) by (simp add: h(2) [symmetric] h(3) [symmetric] len_def Let_def)
    have read: "read_fragments (Suc n) rec st =
        (if len > rs_max_fragment st \<or> length (to_bytes rec) + unat len > unat (rs_max_record st) then (Inl EMSGSIZE, st1)
         else case read_body (unat len) (unat len) rec st1 of
                (Inl e, st2) \<Rightarrow> (Inl e, st2)
              | (Inr rec1, st2) \<Rightarrow> if hdr AND 0x80000000 \<noteq> 0 then (Inr rec1, st2) else read_fragments n rec1 st2)"
      using r Inr chain_ok_size [OF Suc.prems(2)] by (simp add: len_def Let_def)
    obtain q st2 where q: "read_body (unat len) (unat len) rec st1 = (q, st2)" by force
    note B = read_body_ok [OF h(4) Suc.prems(2), of "unat len" "unat len", simplified, unfolded q]
    have lim: "rs_max_fragment st1 = rs_max_fragment st" "rs_max_record st1 = rs_max_record st" "rs_end st1 = rs_end st"
      using h(5) by (simp_all add: same_limits_def)
    show ?thesis
    proof (cases q)
      case (Inl e)
      then show ?thesis unfolding parse read using B q lim by simp
    next
      case (Inr rec1)
      with B have b: "unat len \<le> length (unread st1)" "to_bytes rec1 = to_bytes rec @ take (unat len) (unread st1)"
        "unread st2 = drop (unat len) (unread st1)" "chain_ok rec1" "rs_ok st2" "same_limits st1 st2" by auto
      have lim2: "rs_max_fragment st2 = rs_max_fragment st" "rs_max_record st2 = rs_max_record st" "rs_end st2 = rs_end st"
        using b(6) lim by (simp_all add: same_limits_def)
      have sl: "same_limits st st2" using h(5) b(6) same_limits_trans by blast
      from Suc.IH [OF b(5,4)] show ?thesis
        unfolding parse read using q Inr b lim2 sl
        by (auto split: prod.splits sum.splits intro: same_limits_trans)
    qed
  qed
qed

text \<open>C23: reading a record from a connection gives exactly the record its byte stream holds, with the bytes after it still to be read, or the
  error the stream means (too many or too large fragments, an end inside a record); how the bytes arrive does not matter.\<close>

theorem read_record_refines:
  assumes "rs_ok st"
  shows "case read_record st of
      (Inl e, st') \<Rightarrow> parse_record (rs_max_fragment st) (rs_max_record st) (rs_end st) (unread st) = Inl e
    | (Inr rec, st') \<Rightarrow>
        parse_record (rs_max_fragment st) (rs_max_record st) (rs_end st) (unread st) = Inr (to_bytes rec, unread st') \<and> chain_ok rec \<and> rs_ok st'"
  using read_fragments_ok [OF assms, of empty_chain kMaxFragments]
  by (auto simp: read_record_def parse_record_def empty_chain_facts split: prod.splits sum.splits)

section \<open>Sending\<close>

lemma iovecs_bytes: "concat (iovecs ss skip) = drop skip (concat (map seg_bytes ss))"
  by (induction ss skip rule: iovecs.induct) (auto simp: seg_bytes_def)

lemma to_iovecs_bytes: "concat (to_iovecs buf skip) = drop skip (to_bytes buf)"
  by (simp add: to_iovecs_def iovecs_bytes to_bytes_def)

lemma send_loop_ok:
  assumes "length marker = 4" and "chain_ok buf" and "out = take sent (marker @ to_bytes buf)" and "sent \<le> 4 + bc_size buf"
    and "send_loop ns marker buf sent out = (r, out')"
  shows "prefix out' (marker @ to_bytes buf) \<and> (r = Some (Inr ()) \<longrightarrow> out' = marker @ to_bytes buf) \<and>
    ((\<forall>n\<in>set ns. 0 < n) \<longrightarrow> 4 + bc_size buf \<le> sent + length ns \<longrightarrow> r = Some (Inr ()))"
  using assms
proof (induction ns arbitrary: sent out)
  case Nil
  then show ?case
    using chain_ok_size [OF Nil(2)] take_is_prefix [of sent "marker @ to_bytes buf"] by (auto split: if_splits)
next
  case (Cons n ns)
  define iov where "iov = concat (if sent < 4 then drop sent marker # to_iovecs buf 0 else to_iovecs buf (sent - 4))"
  have iov: "iov = drop sent (marker @ to_bytes buf)" using Cons.prems(1) by (simp add: iov_def to_iovecs_bytes)
  have size: "length (marker @ to_bytes buf) = 4 + bc_size buf" using Cons.prems(1) chain_ok_size [OF Cons.prems(2)] by simp
  show ?case
  proof (cases "sent < 4 + bc_size buf")
    case False
    then show ?thesis using Cons.prems size by (auto simp: EINTR_def)
  next
    case True
    show ?thesis
    proof (cases "n > 0")
      case pos: True
      define k where "k = min (nat n) (length iov)"
      have k: "0 < k" "sent + k \<le> 4 + bc_size buf" using pos True size by (auto simp: k_def iov)
      have step: "send_loop (n # ns) marker buf sent out = send_loop ns marker buf (sent + k) (out @ take k iov)"
        using True pos by (simp add: iov_def [symmetric] k_def EINTR_def Let_def)
      have "out @ take k iov = take (sent + k) (marker @ to_bytes buf)"
        using Cons.prems(3) by (simp only: iov take_add)
      from Cons.IH [OF Cons.prems(1,2) this k(2)] Cons.prems(5) step k(1) show ?thesis by auto
    next
      case False
      then show ?thesis
        using True Cons.prems Cons.IH [OF Cons.prems(1-4)] take_is_prefix [of sent "marker @ to_bytes buf"]
        by (auto simp: Let_def split: if_splits)
    qed
  qed
qed

definition frame :: "bytes \<Rightarrow> bytes" where
  "frame bs = wire_u32 (0x80000000 OR of_nat (length bs)) @ bs"

lemma frame_buf: "chain_ok buf \<Longrightarrow> frame (to_bytes buf) = wire_u32 (0x80000000 OR of_nat (bc_size buf)) @ to_bytes buf"
  by (simp add: frame_def chain_ok_size)

lemma written_frame: "chain_ok buf \<Longrightarrow> write_record answers buf = (Some (Inr ()), out) \<Longrightarrow> out = frame (to_bytes buf)"
  using send_loop_ok [of "wire_u32 (0x80000000 OR of_nat (bc_size buf))" buf "[]" 0 answers "Some (Inr ())" out]
  by (simp add: write_record_def le_bytes_to_be frame_buf del: le_bytes.simps)

text \<open>C24: sending a record puts its frame on the wire: never anything but a prefix of it, all of it when the send succeeds, and it succeeds
  when the socket takes at least one byte each time.\<close>

theorem write_record_frames:
  assumes "chain_ok buf" and "write_record answers buf = (r, out)"
  shows "prefix out (frame (to_bytes buf)) \<and> (r = Some (Inr ()) \<longrightarrow> out = frame (to_bytes buf)) \<and>
    ((\<forall>n\<in>set answers. 0 < n) \<longrightarrow> 4 + bc_size buf \<le> length answers \<longrightarrow> r = Some (Inr ()))"
  using send_loop_ok [of "wire_u32 (0x80000000 OR of_nat (bc_size buf))" buf "[]" 0 answers r out] assms
  by (simp add: write_record_def le_bytes_to_be frame_buf del: le_bytes.simps)

lemma marker_bits:
  assumes "n < 0x80000000"
  shows "(0x80000000 OR (of_nat n :: u32)) AND 0x80000000 \<noteq> 0" and "(0x80000000 OR (of_nat n :: u32)) AND 0x7fffffff = of_nat n"
    and "unat (of_nat n :: u32) = n"
proof -
  have m: "(0x7fffffff :: u32) = mask 31" by (simp add: mask_eq_exp_minus_1)
  define v h where "v = (of_nat n :: u32)" and "h = (0x80000000 :: u32)"
  have "h = 2 ^ 31" by (simp add: h_def)
  then have hb: "bit h i \<longleftrightarrow> i = 31" for i by (simp only: bit_exp_iff) (auto simp: possible_bit_word)
  have "take_bit 31 v = v"
    using assms by (simp add: v_def take_bit_of_nat take_bit_nat_eq_self)
  then have low: "i < 31" if "bit v i" for i
    using that by (metis bit_take_bit_iff)
  have "(h OR v) AND mask 31 = v"
    by (rule bit_word_eqI) (auto simp: bit_and_iff bit_or_iff bit_mask_iff hb dest: low)
  then show "(0x80000000 OR (of_nat n :: u32)) AND 0x7fffffff = of_nat n" by (simp only: v_def h_def m)
  have "bit ((h OR v) AND h) 31"
    by (simp add: bit_and_iff bit_or_iff hb)
  then have "(h OR v) AND h \<noteq> 0" by (metis bit_0_eq bot_apply bot_bool_def)
  then show "(0x80000000 OR (of_nat n :: u32)) AND 0x80000000 \<noteq> 0" unfolding v_def h_def .
  show "unat (of_nat n :: u32) = n" using le_unat_uoi [of n "0x7fffffff :: u32"] assms by simp
qed

lemma parse_frame:
  assumes "length bs < 0x80000000" and "length bs \<le> unat mf" and "length bs \<le> unat mr"
  shows "parse_record mf mr eof (frame bs @ rest) = Inr (bs, rest)"
proof -
  note mk = marker_bits [OF assms(1)]
  have fits: "\<not> mf < of_nat (length bs)" using assms(2) mk(3) by (simp add: word_less_nat_alt)
  obtain n where n: "kMaxFragments = Suc n" by (cases kMaxFragments) (auto simp: kMaxFragments_def)
  show ?thesis
    unfolding parse_record_def n
    using mk fits assms(3) by (simp add: frame_def from_be32_wire Let_def)
qed

text \<open>C25: a record written on one end of a connection is read on the other end as the same bytes, however both were cut into buffers
  and however the transport delivered them, and the reader stands at the next record.\<close>

theorem record_roundtrip:
  assumes "chain_ok buf" and "write_record answers buf = (Some (Inr ()), out)" and "rs_ok st" and "unread st = out @ rest"
    and "bc_size buf < 0x80000000" and "bc_size buf \<le> unat (rs_max_fragment st)" and "bc_size buf \<le> unat (rs_max_record st)"
  shows "\<exists>rec st'. read_record st = (Inr rec, st') \<and> to_bytes rec = to_bytes buf \<and> unread st' = rest"
proof -
  note out = written_frame [OF assms(1,2)]
  have "parse_record (rs_max_fragment st) (rs_max_record st) (rs_end st) (unread st) = Inr (to_bytes buf, rest)"
    using parse_frame [of "to_bytes buf"] assms chain_ok_size [OF assms(1)] out by simp
  with read_fragments_ok [OF assms(3), of empty_chain kMaxFragments] show ?thesis
    by (auto simp: read_record_def parse_record_def empty_chain_facts split: prod.splits sum.splits)
qed

section \<open>A connection\<close>

definition demo_stream :: RecordStream where
  "demo_stream = \<lparr>rs_in = frame [7, 8, 9] @ [1], rs_chunks = [2, 0, 3], rs_end = kEof, rs_rbuf = None, rs_roff = 0, rs_rend = 0,
     rs_max_fragment = 64, rs_max_record = 64, rs_next = 0, rs_nomem = \<lambda>_. False\<rparr>"

definition demo_send :: BufferChain where
  "demo_send = chain_append \<lparr>bf_id = Ext 0, bf_cap = 8, bf_data = \<lambda>i. of_nat (i + 5)\<rparr> 2 3 empty_chain"

lemma demo_send_facts: "chain_ok demo_send" "to_bytes demo_send = [7, 8, 9]" "bc_size demo_send = 3"
  by (simp_all add: demo_send_def chain_append_def empty_chain_def chain_ok_def to_bytes_def seg_bytes_def buf_bytes_def upt_rec)

lemma demo_stream_ok: "rs_ok demo_stream" "unread demo_stream = frame [7, 8, 9] @ [1]" "rs_max_fragment demo_stream = 64"
  "rs_max_record demo_stream = 64" "rs_end demo_stream = kEof"
  by (simp_all add: rs_ok_def unread_def demo_stream_def)

theorem read_record_refines_witness:
  "case read_record demo_stream of
     (Inl e, st') \<Rightarrow> parse_record 64 64 kEof (frame [7, 8, 9] @ [1]) = Inl e
   | (Inr rec, st') \<Rightarrow> parse_record 64 64 kEof (frame [7, 8, 9] @ [1]) = Inr (to_bytes rec, unread st') \<and> chain_ok rec \<and> rs_ok st'"
  using read_record_refines [OF demo_stream_ok(1)] unfolding demo_stream_ok(2-5) .

lemma demo_written: "write_record [3, -11, 1, 9] demo_send = (Some (Inr ()), snd (write_record [3, -11, 1, 9] demo_send))"
proof -
  have "fst (write_record [3, -11, 1, 9] demo_send) = Some (Inr ())"
    by (simp add: write_record_def demo_send_facts EINTR_def to_iovecs_bytes to_iovecs_def iovecs_bytes Let_def demo_send_def
        chain_append_def empty_chain_def buf_bytes_def)
  then show ?thesis by (simp add: prod_eq_iff)
qed

theorem write_record_frames_witness: "snd (write_record [3, -11, 1, 9] demo_send) = frame [7, 8, 9]"
  using write_record_frames [OF demo_send_facts(1) demo_written] unfolding demo_send_facts by blast

theorem record_roundtrip_witness:
  "\<exists>rec st'. read_record demo_stream = (Inr rec, st') \<and> to_bytes rec = [7, 8, 9] \<and> unread st' = [1]"
  using record_roundtrip [OF demo_send_facts(1) demo_written demo_stream_ok(1), of "[1]"]
    written_frame [OF demo_send_facts(1) demo_written]
  unfolding demo_stream_ok(2-5) demo_send_facts by simp

end
