(* ===== verification/Drc.thy ===== *)
theory Drc
  imports Prelude "HOL-Library.AList"
begin

text \<open>
  The duplicate request cache (\<^verbatim>\<open>src/src/rpc/drc.cpp\<close>): sixteen shards of entries that
  are in progress or done, expired by age and evicted oldest first.  A step holds the lock of its
  shard; a request that finds another one in progress waits and steps again when woken.  The steady clock is read
  once per step.  \<^verbatim>\<open>bytes\<close> is a natural number: the invariant shows that every
  \<^verbatim>\<open>fetch_sub\<close> takes away at most what is there, so the counter never wraps below zero.
\<close>

section \<open>Keys\<close>

record DrcKey =
  dk_peer_addr :: bytes
  dk_xid :: u32
  dk_prog :: u32
  dk_vers :: u32
  dk_proc :: u32
  dk_args_hash :: u64

definition make_key :: "sockaddr \<Rightarrow> u32 \<Rightarrow> u32 \<Rightarrow> u32 \<Rightarrow> u32 \<Rightarrow> u64 \<Rightarrow> DrcKey" where
  "make_key peer xid prog vers proc args_hash =
     \<lparr>dk_peer_addr =
        (case peer of
           SockIn a port \<Rightarrow> replicate 10 0 @ [0xff, 0xff] @ a
         | SockIn6 a port \<Rightarrow> a
         | SockOther \<Rightarrow> replicate 16 0),
      dk_xid = xid, dk_prog = prog, dk_vers = vers, dk_proc = proc, dk_args_hash = args_hash\<rparr>"

definition drc_mix :: "u64 \<Rightarrow> u64 \<Rightarrow> u64" where
  "drc_mix h v = (h XOR v) * 1099511628211"

definition key_hash :: "DrcKey \<Rightarrow> u64" where
  "key_hash k =
     foldl drc_mix 1469598103934665603
       (map ucast (dk_peer_addr k) @
        [ucast (dk_xid k), ucast (dk_prog k), ucast (dk_vers k), ucast (dk_proc k), dk_args_hash k])"

definition kShards :: nat where "kShards = 16"

definition shard_of :: "DrcKey \<Rightarrow> nat" where
  "shard_of k = unat (key_hash k) mod kShards"

section \<open>The cache\<close>

record DrcEntry =
  de_done :: bool
  de_reply :: "bytes option"
  de_done_at :: int

definition new_entry :: DrcEntry where
  "new_entry = \<lparr>de_done = False, de_reply = None, de_done_at = 0\<rparr>"

record DrcShard =
  ds_entries :: "(DrcKey \<times> DrcEntry) list"
  ds_completed :: "DrcKey list"
  ds_bytes :: nat
  ds_count :: nat

record Drc =
  drc_ttl :: int
  drc_max_memory :: nat
  drc_shards :: "nat \<Rightarrow> DrcShard"
  drc_now :: int
  drc_inserts :: u64
  drc_replays :: u64
  drc_waits :: u64
  drc_evictions :: u64

definition empty_shard :: DrcShard where
  "empty_shard = \<lparr>ds_entries = [], ds_completed = [], ds_bytes = 0, ds_count = 0\<rparr>"

definition new_drc :: "int \<Rightarrow> nat \<Rightarrow> Drc" where
  "new_drc ttl max_memory = \<lparr>drc_ttl = ttl, drc_max_memory = max_memory, drc_shards = \<lambda>_. empty_shard, drc_now = 0,
     drc_inserts = 0, drc_replays = 0, drc_waits = 0, drc_evictions = 0\<rparr>"

definition reply_size :: "DrcEntry \<Rightarrow> nat" where
  "reply_size e = (case de_reply e of None \<Rightarrow> 0 | Some r \<Rightarrow> length r)"

definition set_entries :: "(DrcKey \<times> DrcEntry) list \<Rightarrow> DrcShard \<Rightarrow> DrcShard" where
  "set_entries es sh = sh\<lparr>ds_entries := es, ds_count := length es\<rparr>"

text \<open>The loop over the completion order; answers the shard and the number of evictions.\<close>

primrec purge_loop :: "int \<Rightarrow> int \<Rightarrow> nat \<Rightarrow> DrcKey list \<Rightarrow> DrcShard \<Rightarrow> DrcShard \<times> nat" where
  "purge_loop now ttl max_memory [] sh = (sh\<lparr>ds_completed := []\<rparr>, 0)"
| "purge_loop now ttl max_memory (oldest # rest) sh =
     (case map_of (ds_entries sh) oldest of
        None \<Rightarrow> purge_loop now ttl max_memory rest sh
      | Some e \<Rightarrow>
          let expired = now - de_done_at e \<ge> ttl; over_memory = ds_bytes sh > max_memory div kShards
          in if \<not> expired \<and> \<not> over_memory then (sh\<lparr>ds_completed := oldest # rest\<rparr>, 0)
             else let (sh1, n) = purge_loop now ttl max_memory rest
                        (set_entries (AList.delete oldest (ds_entries sh)) (sh\<lparr>ds_bytes := ds_bytes sh - reply_size e\<rparr>))
                  in (sh1, n + 1))"

definition purge :: "nat \<Rightarrow> Drc \<Rightarrow> Drc" where
  "purge i st =
     (let (sh, n) = purge_loop (drc_now st) (drc_ttl st) (drc_max_memory st) (ds_completed (drc_shards st i)) (drc_shards st i)
      in st\<lparr>drc_shards := (drc_shards st)(i := sh), drc_evictions := drc_evictions st + of_nat n\<rparr>)"

datatype claim = ClaimOwner | ClaimCached "bytes option" | ClaimWait

definition drc_begin :: "DrcKey \<Rightarrow> Drc \<Rightarrow> claim \<times> Drc" where
  "drc_begin key st0 =
     (let i = shard_of key; st = purge i st0; sh = drc_shards st i
      in case map_of (ds_entries sh) key of
           None \<Rightarrow>
             (ClaimOwner, st\<lparr>drc_shards := (drc_shards st)(i := set_entries ((key, new_entry) # ds_entries sh) sh),
                             drc_inserts := drc_inserts st + 1\<rparr>)
         | Some e \<Rightarrow>
             if de_done e then (ClaimCached (de_reply e), st\<lparr>drc_replays := drc_replays st + 1\<rparr>)
             else (ClaimWait, st\<lparr>drc_waits := drc_waits st + 1\<rparr>))"

definition drc_complete :: "DrcKey \<Rightarrow> bytes \<Rightarrow> Drc \<Rightarrow> Drc" where
  "drc_complete key reply st =
     (let i = shard_of key; sh = drc_shards st i
      in case map_of (ds_entries sh) key of
           None \<Rightarrow> st
         | Some e \<Rightarrow>
             if de_done e then st
             else purge i (st\<lparr>drc_shards := (drc_shards st)(i :=
                    sh\<lparr>ds_entries := AList.update key \<lparr>de_done = True, de_reply = Some reply, de_done_at = drc_now st\<rparr> (ds_entries sh),
                       ds_bytes := ds_bytes sh + length reply, ds_completed := ds_completed sh @ [key]\<rparr>)\<rparr>))"

definition drc_abort :: "DrcKey \<Rightarrow> Drc \<Rightarrow> Drc" where
  "drc_abort key st =
     (let i = shard_of key; sh = drc_shards st i
      in case map_of (ds_entries sh) key of
           None \<Rightarrow> st
         | Some e \<Rightarrow>
             if de_done e then st
             else st\<lparr>drc_shards := (drc_shards st)(i := set_entries (AList.delete key (ds_entries sh)) sh)\<rparr>)"

text \<open>
  \<^verbatim>\<open>flush\<close> takes the shard locks one after the other, so that other operations may run
  between two of its steps: \<^verbatim>\<open>flush_shard\<close> is the step, \<^verbatim>\<open>drc_flush\<close> the
  whole loop when nothing intervenes.
\<close>

definition flush_shard :: "nat \<Rightarrow> Drc \<Rightarrow> nat \<times> Drc" where
  "flush_shard i st =
     (length (ds_entries (drc_shards st i)), st\<lparr>drc_shards := (drc_shards st)(i := empty_shard)\<rparr>)"

definition drc_flush :: "Drc \<Rightarrow> nat \<times> Drc" where
  "drc_flush st =
     fold (\<lambda>i (dropped, st). let (n, st1) = flush_shard i st in (dropped + n, st1)) [0..<kShards] (0, st)"

definition drc_stats :: "Drc \<Rightarrow> u64 \<times> u64 \<times> u64 \<times> u64 \<times> nat \<times> nat" where
  "drc_stats st =
     (drc_inserts st, drc_replays st, drc_waits st, drc_evictions st,
      sum_list (map (\<lambda>i. ds_count (drc_shards st i)) [0..<kShards]),
      sum_list (map (\<lambda>i. ds_bytes (drc_shards st i)) [0..<kShards]))"

section \<open>Runs\<close>

text \<open>The operations of a run; \<^verbatim>\<open>Tick\<close> is time passing.\<close>

datatype drc_op = Begin DrcKey | Complete DrcKey bytes | Abort DrcKey | FlushShard nat | Tick nat

primrec drc_step :: "drc_op \<Rightarrow> Drc \<Rightarrow> Drc" where
  "drc_step (Begin k) st = snd (drc_begin k st)"
| "drc_step (Complete k r) st = drc_complete k r st"
| "drc_step (Abort k) st = drc_abort k st"
| "drc_step (FlushShard i) st = snd (flush_shard i st)"
| "drc_step (Tick n) st = st\<lparr>drc_now := drc_now st + int n\<rparr>"

definition drc_run :: "drc_op list \<Rightarrow> Drc \<Rightarrow> Drc" where
  "drc_run ops st = fold drc_step ops st"

section \<open>The invariant\<close>

definition shard_ok :: "nat \<Rightarrow> DrcShard \<Rightarrow> bool" where
  "shard_ok i sh \<longleftrightarrow>
     distinct (map fst (ds_entries sh)) \<and> distinct (ds_completed sh) \<and>
     set (ds_completed sh) = fst ` set (filter (de_done \<circ> snd) (ds_entries sh)) \<and>
     list_all (\<lambda>(k, e). de_done e = (de_reply e \<noteq> None) \<and> shard_of k = i) (ds_entries sh) \<and>
     ds_bytes sh = sum_list (map (reply_size \<circ> snd) (ds_entries sh)) \<and>
     ds_count sh = length (ds_entries sh)"

definition drc_ok :: "Drc \<Rightarrow> bool" where
  "drc_ok st \<longleftrightarrow>
     (\<forall>i. shard_ok i (drc_shards st i) \<and> ds_bytes (drc_shards st i) \<le> drc_max_memory st div kShards)"

definition lookup :: "Drc \<Rightarrow> DrcKey \<Rightarrow> DrcEntry option" where
  "lookup st k = map_of (ds_entries (drc_shards st (shard_of k))) k"

lemma sum_delete:
  fixes f :: "'e \<Rightarrow> nat"
  assumes "distinct (map fst es)" "map_of es k = Some e"
  shows "sum_list (map (f \<circ> snd) es) = f e + sum_list (map (f \<circ> snd) (AList.delete k es))"
  using assms
proof (induction es)
  case (Cons p es)
  have "AList.delete (fst p) es = es" if "fst p \<notin> fst ` set es"
    using that by (simp add: delete_idem)
  with Cons show ?case by (cases p) (auto split: if_splits)
qed simp

lemma sum_update:
  fixes f :: "'e \<Rightarrow> nat"
  assumes "distinct (map fst es)" "map_of es k = Some e"
  shows "sum_list (map (f \<circ> snd) (AList.update k e' es)) + f e = sum_list (map (f \<circ> snd) es) + f e'"
  using assms by (induction es) (auto split: if_splits)

lemma length_update:
  "map_of es k = Some e \<Longrightarrow> length (AList.update k e' es) = length es"
  by (induction es) (auto split: if_splits)

lemma done_keys:
  "distinct (map fst es) \<Longrightarrow>
   fst ` set (filter (de_done \<circ> snd) es) = {k. \<exists>e. map_of es k = Some e \<and> de_done e}"
  by force

lemma all_entries:
  "distinct (map fst es) \<Longrightarrow> list_all (\<lambda>(k, e). P k e) es \<longleftrightarrow> (\<forall>k e. map_of es k = Some e \<longrightarrow> P k e)"
  by (auto simp: list_all_iff)

lemma shard_ok_iff:
  "shard_ok i sh \<longleftrightarrow>
     distinct (map fst (ds_entries sh)) \<and> distinct (ds_completed sh) \<and>
     set (ds_completed sh) = {k. \<exists>e. map_of (ds_entries sh) k = Some e \<and> de_done e} \<and>
     (\<forall>k e. map_of (ds_entries sh) k = Some e \<longrightarrow> de_done e = (de_reply e \<noteq> None) \<and> shard_of k = i) \<and>
     ds_bytes sh = sum_list (map (reply_size \<circ> snd) (ds_entries sh)) \<and>
     ds_count sh = length (ds_entries sh)"
proof (cases "distinct (map fst (ds_entries sh))")
  case True
  then show ?thesis by (simp only: shard_ok_def done_keys all_entries)
next
  case False
  then show ?thesis by (simp only: shard_ok_def simp_thms)
qed

lemma empty_shard_ok [simp]: "shard_ok i empty_shard" "ds_bytes empty_shard = 0" "ds_entries empty_shard = []"
  by (simp_all add: shard_ok_def empty_shard_def)

lemma shard_evict:
  assumes "shard_ok i (sh\<lparr>ds_completed := k # ks\<rparr>)" "map_of (ds_entries sh) k = Some e"
  shows "shard_ok i ((set_entries (AList.delete k (ds_entries sh)) (sh\<lparr>ds_bytes := ds_bytes sh - reply_size e\<rparr>))
           \<lparr>ds_completed := ks\<rparr>)"
proof -
  have ok: "distinct (map fst (ds_entries sh))" "k \<notin> set ks" "distinct ks"
    "insert k (set ks) = {q. \<exists>e. map_of (ds_entries sh) q = Some e \<and> de_done e}"
    "\<forall>q e. map_of (ds_entries sh) q = Some e \<longrightarrow> de_done e = (de_reply e \<noteq> None) \<and> shard_of q = i"
    "ds_bytes sh = sum_list (map (reply_size \<circ> snd) (ds_entries sh))"
    using assms(1) unfolding shard_ok_iff by simp_all
  have "set ks = insert k (set ks) - {k}" using ok(2) by simp
  also have "\<dots> = {q. \<exists>e. map_of (AList.delete k (ds_entries sh)) q = Some e \<and> de_done e}"
    unfolding ok(4) by (auto simp: delete_conv' simp del: map_of_eq_Some_iff split: if_splits)
  finally show ?thesis
    using ok sum_delete [OF ok(1) assms(2), of reply_size] unfolding shard_ok_iff set_entries_def
    by (simp add: delete_conv' distinct_delete del: map_of_eq_Some_iff)
qed

lemma shard_completed_present:
  assumes "shard_ok i (sh\<lparr>ds_completed := k # ks\<rparr>)"
  shows "\<exists>e. map_of (ds_entries sh) k = Some e \<and> de_done e"
proof -
  have "set (k # ks) = {q. \<exists>e. map_of (ds_entries sh) q = Some e \<and> de_done e}"
    using assms unfolding shard_ok_iff by simp
  then have "k \<in> {q. \<exists>e. map_of (ds_entries sh) q = Some e \<and> de_done e}" by (metis list.set_intros(1))
  then show ?thesis by simp
qed

lemma shard_none_done:
  assumes "shard_ok i (sh\<lparr>ds_completed := []\<rparr>)"
  shows "ds_bytes sh = 0"
proof -
  have "reply_size e = 0" if "(k, e) \<in> set (ds_entries sh)" for k e
    using assms that by (fastforce simp: shard_ok_iff reply_size_def split: option.splits)
  then show ?thesis using assms by (auto simp: shard_ok_iff)
qed

lemma purge_loop_ok:
  assumes "shard_ok i (sh\<lparr>ds_completed := ks\<rparr>)"
  shows "shard_ok i (fst (purge_loop now ttl mm ks sh)) \<and> ds_bytes (fst (purge_loop now ttl mm ks sh)) \<le> mm div kShards"
  using assms
proof (induction ks arbitrary: sh)
  case Nil
  then show ?case using shard_none_done [OF Nil] by simp
next
  case (Cons k ks)
  obtain e where e: "map_of (ds_entries sh) k = Some e" using shard_completed_present [OF Cons.prems] by blast
  show ?case using Cons.IH [OF shard_evict [OF Cons.prems e]] Cons.prems
    by (auto simp: e Let_def split: prod.split)
qed

text \<open>What a purge does to one entry: those in progress stay, those done stay as they are or go.\<close>

lemma purge_loop_entry:
  assumes "shard_ok i (sh\<lparr>ds_completed := ks\<rparr>)"
  shows "map_of (ds_entries (fst (purge_loop now ttl mm ks sh))) q = map_of (ds_entries sh) q \<or>
         (map_of (ds_entries (fst (purge_loop now ttl mm ks sh))) q = None \<and>
          (\<exists>e. map_of (ds_entries sh) q = Some e \<and> de_done e))"
  using assms
proof (induction ks arbitrary: sh)
  case (Cons k ks)
  obtain e where e: "map_of (ds_entries sh) k = Some e" "de_done e" using shard_completed_present [OF Cons.prems] by blast
  show ?case using Cons.IH [OF shard_evict [OF Cons.prems e(1)]] e
    by (auto simp: Let_def set_entries_def delete_conv' split: prod.split if_splits)
qed simp

lemma purge_loop_fresh:
  assumes "shard_ok i (sh\<lparr>ds_completed := ks\<rparr>)" "ds_bytes sh \<le> mm div kShards"
    and "map_of (ds_entries sh) q = Some e" "now - de_done_at e < ttl"
  shows "map_of (ds_entries (fst (purge_loop now ttl mm ks sh))) q = Some e"
  using assms
proof (induction ks arbitrary: sh)
  case (Cons k ks)
  obtain e' where e': "map_of (ds_entries sh) k = Some e'" using shard_completed_present [OF Cons.prems(1)] by blast
  show ?case
  proof (cases "k = q")
    case True
    then show ?thesis using Cons.prems by (simp add: Let_def)
  next
    case False
    then show ?thesis using Cons.IH [OF shard_evict [OF Cons.prems(1) e']] Cons.prems e'
      by (auto simp: Let_def set_entries_def delete_conv' split: prod.split)
  qed
qed simp

section \<open>The operations keep the invariant\<close>

lemma purge_shards:
  "drc_shards (purge i st) =
     (drc_shards st)(i := fst (purge_loop (drc_now st) (drc_ttl st) (drc_max_memory st)
                                 (ds_completed (drc_shards st i)) (drc_shards st i)))"
  by (simp add: purge_def split: prod.split)

lemma purge_frame [simp]:
  "drc_ttl (purge i st) = drc_ttl st" "drc_max_memory (purge i st) = drc_max_memory st" "drc_now (purge i st) = drc_now st"
  by (simp_all add: purge_def split: prod.split)

lemma shard_ok_self: "shard_ok i sh \<Longrightarrow> shard_ok i (sh\<lparr>ds_completed := ds_completed sh\<rparr>)"
  by simp

lemma purge_ok:
  assumes "\<And>j. shard_ok j (drc_shards st j)"
    and "\<And>j. j \<noteq> i \<Longrightarrow> ds_bytes (drc_shards st j) \<le> drc_max_memory st div kShards"
  shows "drc_ok (purge i st)"
  using assms purge_loop_ok [OF shard_ok_self [OF assms(1) [of i]]]
  by (simp add: drc_ok_def purge_shards)

lemma drc_okD:
  assumes "drc_ok st"
  shows "shard_ok i (drc_shards st i)" "ds_bytes (drc_shards st i) \<le> drc_max_memory st div kShards"
  using assms by (simp_all add: drc_ok_def)

lemma lookup_purge:
  assumes "\<And>j. shard_ok j (drc_shards st j)"
  shows "lookup (purge i st) q = lookup st q \<or>
         (lookup (purge i st) q = None \<and> (\<exists>e. lookup st q = Some e \<and> de_done e))"
  using purge_loop_entry [OF shard_ok_self [OF assms(1) [of i]]] by (simp add: lookup_def purge_shards)

lemma lookup_ok:
  assumes "shard_ok (shard_of k) (drc_shards st (shard_of k))" "lookup st k = Some e"
  shows "de_done e = (de_reply e \<noteq> None)"
  using assms unfolding shard_ok_iff lookup_def by blast

lemma shard_insert:
  assumes "shard_ok i sh" "map_of (ds_entries sh) k = None" "shard_of k = i"
  shows "shard_ok i (set_entries ((k, new_entry) # ds_entries sh) sh)"
  using assms
  by (auto simp: shard_ok_def set_entries_def new_entry_def reply_size_def map_of_eq_None_iff)

lemma shard_finish:
  assumes "shard_ok i sh" "map_of (ds_entries sh) k = Some e" "\<not> de_done e"
  shows "shard_ok i (sh\<lparr>ds_entries := AList.update k \<lparr>de_done = True, de_reply = Some r, de_done_at = t\<rparr> (ds_entries sh),
                        ds_bytes := ds_bytes sh + length r, ds_completed := ds_completed sh @ [k]\<rparr>)"
proof -
  let ?e = "\<lparr>de_done = True, de_reply = Some r, de_done_at = t\<rparr>"
  have ok: "distinct (map fst (ds_entries sh))" "distinct (ds_completed sh)"
    "set (ds_completed sh) = {q. \<exists>e. map_of (ds_entries sh) q = Some e \<and> de_done e}"
    "\<forall>q e. map_of (ds_entries sh) q = Some e \<longrightarrow> de_done e = (de_reply e \<noteq> None) \<and> shard_of q = i"
    "ds_bytes sh = sum_list (map (reply_size \<circ> snd) (ds_entries sh))" "ds_count sh = length (ds_entries sh)"
    using assms(1) unfolding shard_ok_iff by simp_all
  have new: "k \<notin> set (ds_completed sh)" "reply_size e = 0" "shard_of k = i"
    using ok(3,4) assms(2,3) by (simp_all add: reply_size_def del: map_of_eq_Some_iff)
  have keys: "insert k (set (ds_completed sh)) =
      {q. \<exists>e. map_of (AList.update k ?e (ds_entries sh)) q = Some e \<and> de_done e}"
    unfolding ok(3) by (auto simp: update_conv' simp del: map_of_eq_Some_iff)
  have all: "\<forall>q e. map_of (AList.update k ?e (ds_entries sh)) q = Some e \<longrightarrow>
      de_done e = (de_reply e \<noteq> None) \<and> shard_of q = i"
    using ok(4) new(3) by (auto simp: update_conv' simp del: map_of_eq_Some_iff split: if_splits)
  have sum: "sum_list (map (reply_size \<circ> snd) (AList.update k ?e (ds_entries sh))) = ds_bytes sh + length r"
    using sum_update [OF ok(1) assms(2), of reply_size ?e] ok(5) new(2) by (simp add: reply_size_def)
  show ?thesis
    unfolding shard_ok_iff using ok(1,2,6) new(1) keys all sum length_update [OF assms(2)]
    by (simp add: distinct_update del: map_of_eq_Some_iff)
qed

lemma shard_abandon:
  assumes "shard_ok i sh" "map_of (ds_entries sh) k = Some e" "\<not> de_done e"
  shows "shard_ok i (set_entries (AList.delete k (ds_entries sh)) sh)"
proof -
  have ok: "distinct (map fst (ds_entries sh))"
    "set (ds_completed sh) = {q. \<exists>e. map_of (ds_entries sh) q = Some e \<and> de_done e}"
    "\<forall>q e. map_of (ds_entries sh) q = Some e \<longrightarrow> de_done e = (de_reply e \<noteq> None) \<and> shard_of q = i"
    using assms(1) unfolding shard_ok_iff by simp_all
  have size: "reply_size e = 0" using ok(3) assms(2,3) by (simp add: reply_size_def del: map_of_eq_Some_iff)
  have keys: "set (ds_completed sh) = {q. \<exists>e. map_of (AList.delete k (ds_entries sh)) q = Some e \<and> de_done e}"
    unfolding ok(2) using assms(2,3) by (auto simp: delete_conv' simp del: map_of_eq_Some_iff split: if_splits)
  show ?thesis
    using assms(1) keys ok(3) size sum_delete [OF ok(1) assms(2), of reply_size] unfolding shard_ok_iff set_entries_def
    by (simp add: delete_conv' distinct_delete del: map_of_eq_Some_iff)
qed

lemma begin_ok:
  assumes "drc_ok st"
  shows "drc_ok (snd (drc_begin k st))"
proof -
  let ?i = "shard_of k"
  have p: "drc_ok (purge ?i st)" using purge_ok drc_okD [OF assms] by blast
  show ?thesis
    using p shard_insert [OF drc_okD(1) [OF p, of ?i], of k] drc_okD [OF p]
    by (auto simp: drc_begin_def Let_def drc_ok_def set_entries_def split: option.splits)
qed

lemma complete_ok:
  assumes "drc_ok st"
  shows "drc_ok (drc_complete k r st)"
proof (cases "map_of (ds_entries (drc_shards st (shard_of k))) k")
  case (Some e)
  show ?thesis
  proof (cases "de_done e")
    case False
    show ?thesis
      unfolding drc_complete_def Let_def Some option.case if_not_P [OF False]
      by (rule purge_ok) (use drc_okD [OF assms] shard_finish [OF drc_okD(1) [OF assms] Some False] in auto)
  qed (simp add: drc_complete_def Some assms)
qed (simp add: drc_complete_def assms)

lemma abort_ok:
  assumes "drc_ok st"
  shows "drc_ok (drc_abort k st)"
  using assms shard_abandon [OF drc_okD(1) [OF assms]]
  by (auto simp: drc_abort_def Let_def drc_ok_def set_entries_def simp del: map_of_eq_Some_iff split: option.splits)

lemma step_ok: "drc_ok st \<Longrightarrow> drc_ok (drc_step op st)"
  by (cases op) (simp_all add: begin_ok complete_ok abort_ok, simp_all add: flush_shard_def drc_ok_def)

lemma new_drc_ok: "drc_ok (new_drc ttl mm)"
  by (simp add: drc_ok_def new_drc_def)

section \<open>The contract of a reply cache\<close>

text \<open>
  What a client of a reply cache relies on: a request in progress stays so until an operation
  settles it, and no other operation brings a reply into being.
\<close>

datatype reply_status = Absent | InProgress | Done bytes

locale reply_cache =
  fixes ok :: "'s \<Rightarrow> bool"
    and step :: "'op \<Rightarrow> 's \<Rightarrow> 's"
    and status :: "'s \<Rightarrow> 'k \<Rightarrow> reply_status"
    and settles :: "'op \<Rightarrow> 'k \<Rightarrow> bool"
  assumes keeps_ok: "ok st \<Longrightarrow> ok (step op st)"
    and keeps_progress:
      "\<lbrakk>ok st; status st k = InProgress; \<not> settles op k\<rbrakk> \<Longrightarrow> status (step op st) k = InProgress"
    and no_new_reply:
      "\<lbrakk>ok st; status (step op st) k = Done r; \<not> settles op k\<rbrakk> \<Longrightarrow> status st k = Done r"
begin

lemma run_ok: "ok st \<Longrightarrow> ok (fold step ops st)"
  by (induction ops arbitrary: st) (simp_all add: keeps_ok)

lemma run_progress:
  "\<lbrakk>ok st; status st k = InProgress; \<forall>op\<in>set ops. \<not> settles op k\<rbrakk> \<Longrightarrow> status (fold step ops st) k = InProgress"
  by (induction ops arbitrary: st) (simp_all add: keeps_ok keeps_progress)

lemma run_no_new_reply:
  "\<lbrakk>ok st; status (fold step ops st) k = Done r; \<forall>op\<in>set ops. \<not> settles op k\<rbrakk> \<Longrightarrow> status st k = Done r"
proof (induction ops arbitrary: st)
  case (Cons op ops)
  then have "status (step op st) k = Done r" by (simp add: keeps_ok)
  with Cons.prems show ?case by (simp add: no_new_reply)
qed simp

end

definition status :: "Drc \<Rightarrow> DrcKey \<Rightarrow> reply_status" where
  "status st k =
     (case lookup st k of
        None \<Rightarrow> Absent
      | Some e \<Rightarrow> (case de_reply e of None \<Rightarrow> InProgress | Some r \<Rightarrow> Done r))"

primrec settles :: "drc_op \<Rightarrow> DrcKey \<Rightarrow> bool" where
  "settles (Begin k) q = False"
| "settles (Complete k r) q = (k = q)"
| "settles (Abort k) q = (k = q)"
| "settles (FlushShard i) q = (i = shard_of q)"
| "settles (Tick n) q = False"

text \<open>The abstract effect of each step.\<close>

lemma status_purge:
  assumes "\<And>j. shard_ok j (drc_shards st j)"
  shows "status (purge i st) q = status st q \<or> (status (purge i st) q = Absent \<and> (\<exists>r. status st q = Done r))"
  using lookup_purge [OF assms, of i q] lookup_ok [OF assms, of q]
  by (cases "lookup (purge i st) q = lookup st q") (auto simp: status_def)

lemma begin_claim:
  assumes "drc_ok st"
  shows "fst (drc_begin k st) =
     (case status (purge (shard_of k) st) k of Absent \<Rightarrow> ClaimOwner | InProgress \<Rightarrow> ClaimWait | Done r \<Rightarrow> ClaimCached (Some r))"
proof -
  have p: "drc_ok (purge (shard_of k) st)" using purge_ok drc_okD [OF assms] by blast
  show ?thesis
    using lookup_ok [OF drc_okD(1) [OF p], of k]
    by (auto simp: drc_begin_def Let_def status_def lookup_def simp del: map_of_eq_Some_iff split: option.splits)
qed

lemma begin_status:
  "status (snd (drc_begin k st)) q =
     (if q = k \<and> status (purge (shard_of k) st) k = Absent then InProgress else status (purge (shard_of k) st) q)"
  by (auto simp: drc_begin_def Let_def status_def lookup_def set_entries_def new_entry_def
        simp del: map_of_eq_Some_iff split: option.splits)

lemma abort_other: "q \<noteq> k \<Longrightarrow> status (drc_abort k st) q = status st q"
  by (auto simp: drc_abort_def Let_def status_def lookup_def set_entries_def delete_conv'
        simp del: map_of_eq_Some_iff split: option.splits)

lemma flush_other: "shard_of q \<noteq> i \<Longrightarrow> status (snd (flush_shard i st)) q = status st q"
  by (simp add: flush_shard_def status_def lookup_def)

definition finished :: "DrcKey \<Rightarrow> bytes \<Rightarrow> Drc \<Rightarrow> Drc" where
  "finished k r st =
     (let i = shard_of k; sh = drc_shards st i
      in st\<lparr>drc_shards := (drc_shards st)(i :=
           sh\<lparr>ds_entries := AList.update k \<lparr>de_done = True, de_reply = Some r, de_done_at = drc_now st\<rparr> (ds_entries sh),
              ds_bytes := ds_bytes sh + length r, ds_completed := ds_completed sh @ [k]\<rparr>)\<rparr>)"

lemma complete_finished:
  "lookup st k = Some e \<Longrightarrow> \<not> de_done e \<Longrightarrow> drc_complete k r st = purge (shard_of k) (finished k r st)"
  by (simp add: drc_complete_def finished_def lookup_def Let_def del: map_of_eq_Some_iff)

lemma complete_settled:
  "lookup st k = None \<or> lookup st k = Some e \<and> de_done e \<Longrightarrow> drc_complete k r st = st"
  by (auto simp: drc_complete_def lookup_def Let_def simp del: map_of_eq_Some_iff)

lemma finished_ok:
  assumes "drc_ok st" "lookup st k = Some e" "\<not> de_done e"
  shows "shard_ok j (drc_shards (finished k r st) j)"
  using assms(2) drc_okD(1) [OF assms(1)] shard_finish [OF drc_okD(1) [OF assms(1)] _ assms(3)]
  by (simp add: finished_def Let_def lookup_def del: map_of_eq_Some_iff)

lemma finished_lookup:
  "lookup (finished k r st) q =
     (if q = k then Some \<lparr>de_done = True, de_reply = Some r, de_done_at = drc_now st\<rparr> else lookup st q)"
  by (simp add: finished_def lookup_def Let_def update_conv' del: map_of_eq_Some_iff)

lemma complete_other:
  assumes "drc_ok st" "q \<noteq> k"
  shows "status (drc_complete k r st) q = status st q \<or>
         (status (drc_complete k r st) q = Absent \<and> (\<exists>r. status st q = Done r))"
proof (cases "\<exists>e. lookup st k = Some e \<and> \<not> de_done e")
  case True
  then obtain e where e: "lookup st k = Some e" "\<not> de_done e" by blast
  have same: "status (finished k r st) q = status st q" using assms(2) by (simp add: status_def finished_lookup)
  show ?thesis
    using status_purge [of "finished k r st" "shard_of k" q, OF finished_ok [OF assms(1) e]] unfolding complete_finished [OF e] same .
next
  case False
  then show ?thesis by (cases "lookup st k") (simp_all add: complete_settled)
qed

lemma tick_status: "status (st\<lparr>drc_now := t\<rparr>) q = status st q"
  by (simp add: status_def lookup_def)

text \<open>Any step that does not settle a key at most evicts its reply or claims it.\<close>

lemma step_status:
  assumes "drc_ok st" "\<not> settles op q"
  shows "status (drc_step op st) q = status st q \<or> (status (drc_step op st) q \<in> {Absent, InProgress} \<and> status st q \<noteq> InProgress)"
proof (cases op)
  case (Begin k)
  then show ?thesis
    using status_purge [OF drc_okD(1) [OF assms(1)], of "shard_of k" q] by (auto simp: begin_status)
next
  case (Complete k r)
  then show ?thesis using complete_other [OF assms(1), of q k r] assms(2) by auto
qed (use assms(2) in \<open>simp_all add: abort_other flush_other tick_status\<close>)

interpretation drc: reply_cache drc_ok drc_step status settles
proof unfold_locales
  show "drc_ok (drc_step op st)" if "drc_ok st" for op st using that by (rule step_ok)
  show "status (drc_step op st) k = InProgress" if "drc_ok st" "status st k = InProgress" "\<not> settles op k" for op st k
    using step_status [OF that(1,3)] that(2) by simp
  show "status st k = Done r" if "drc_ok st" "status (drc_step op st) k = Done r" "\<not> settles op k" for op st k r
    using step_status [OF that(1,3)] that(2) by auto
qed

lemma reached_ok: "drc_ok (drc_run ops (new_drc ttl mm))"
  unfolding drc_run_def by (rule drc.run_ok [OF new_drc_ok])

lemma step_frame [simp]:
  "drc_ttl (drc_step op st) = drc_ttl st" "drc_max_memory (drc_step op st) = drc_max_memory st"
  by (cases op; simp add: drc_begin_def drc_complete_def drc_abort_def flush_shard_def Let_def split: option.split)+

lemma run_ttl: "drc_ttl (drc_run ops (new_drc ttl mm)) = ttl"
  unfolding drc_run_def by (induction ops rule: rev_induct) (simp_all, simp add: new_drc_def)

lemma run_max_memory: "drc_max_memory (drc_run ops (new_drc ttl mm)) = mm"
  unfolding drc_run_def by (induction ops rule: rev_induct) (simp_all, simp add: new_drc_def)

section \<open>Properties\<close>

lemma wait_in_progress:
  assumes "drc_ok st" "fst (drc_begin k st) = ClaimWait"
  shows "status st k = InProgress"
  using assms(2) status_purge [OF drc_okD(1) [OF assms(1)], of "shard_of k" k]
  by (auto simp: begin_claim [OF assms(1)] split: reply_status.splits)

lemma owner_in_progress:
  assumes "drc_ok st" "fst (drc_begin k st) = ClaimOwner"
  shows "status (snd (drc_begin k st)) k = InProgress"
  using assms(2) by (auto simp: begin_claim [OF assms(1)] begin_status split: reply_status.splits)

lemma in_progress_waits:
  assumes "drc_ok st" "status st k = InProgress"
  shows "fst (drc_begin k st) = ClaimWait"
  using assms(2) status_purge [OF drc_okD(1) [OF assms(1)], of "shard_of k" k]
  by (auto simp: begin_claim [OF assms(1)])

lemma cached_done:
  assumes "drc_ok st" "fst (drc_begin k st) = ClaimCached c"
  shows "\<exists>r. c = Some r \<and> status st k = Done r"
  using assms(2) status_purge [OF drc_okD(1) [OF assms(1)], of "shard_of k" k]
  by (auto simp: begin_claim [OF assms(1)] split: reply_status.splits)

lemma progress_entry:
  assumes "drc_ok st" "status st k = InProgress"
  shows "\<exists>e. lookup st k = Some e \<and> \<not> de_done e"
  using assms(2) lookup_ok [OF drc_okD(1) [OF assms(1)], of k] by (auto simp: status_def split: option.splits)

lemma complete_status:
  assumes "drc_ok st" "status st k = InProgress"
  shows "status (drc_complete k r st) k \<in> {Absent, Done r}"
proof -
  obtain e where e: "lookup st k = Some e" "\<not> de_done e" using progress_entry [OF assms] by blast
  have "status (finished k r st) k = Done r" by (simp add: status_def finished_lookup)
  then show ?thesis
    using status_purge [of "finished k r st" "shard_of k" k, OF finished_ok [OF assms(1) e]]
    unfolding complete_finished [OF e] by auto
qed

lemma lookup_size:
  assumes "drc_ok st" "lookup st k = Some e"
  shows "reply_size e \<le> drc_max_memory st div kShards"
proof -
  let ?sh = "drc_shards st (shard_of k)"
  have ok: "distinct (map fst (ds_entries ?sh))" "ds_bytes ?sh = sum_list (map (reply_size \<circ> snd) (ds_entries ?sh))"
    using drc_okD(1) [OF assms(1)] unfolding shard_ok_iff by simp_all
  have "reply_size e \<le> ds_bytes ?sh"
    using sum_delete [OF ok(1), of k e reply_size] assms(2) ok(2) unfolding lookup_def by simp
  then show ?thesis using drc_okD(2) [OF assms(1), of "shard_of k"] by simp
qed

lemma purge_fresh:
  assumes "shard_ok (shard_of k) (drc_shards st (shard_of k))"
    and "ds_bytes (drc_shards st (shard_of k)) \<le> drc_max_memory st div kShards"
    and "lookup st k = Some e" "drc_now st - de_done_at e < drc_ttl st"
  shows "lookup (purge (shard_of k) st) k = Some e"
  using purge_loop_fresh [OF shard_ok_self [OF assms(1)] assms(2)] assms(3,4)
  by (simp add: lookup_def purge_shards del: map_of_eq_Some_iff)

lemma finished_frame [simp]:
  "drc_now (finished k r st) = drc_now st" "drc_ttl (finished k r st) = drc_ttl st"
  "drc_max_memory (finished k r st) = drc_max_memory st"
  "ds_bytes (drc_shards (finished k r st) (shard_of k)) = ds_bytes (drc_shards st (shard_of k)) + length r"
  by (simp_all add: finished_def Let_def)

lemma replay_within_ttl:
  assumes ok: "drc_ok st" and prog: "status st k = InProgress"
    and room: "ds_bytes (drc_shards st (shard_of k)) + length r \<le> drc_max_memory st div kShards"
    and time: "int n < drc_ttl st"
  shows "fst (drc_begin k (drc_run [Complete k r, Tick n] st)) = ClaimCached (Some r)"
proof -
  let ?e = "\<lparr>de_done = True, de_reply = Some r, de_done_at = drc_now st\<rparr>"
  obtain e where e: "lookup st k = Some e" "\<not> de_done e" using progress_entry [OF ok prog] by blast
  define st1 where "st1 = drc_complete k r st"
  define st2 where "st2 = st1\<lparr>drc_now := drc_now st1 + int n\<rparr>"
  have frame: "drc_now st1 = drc_now st" "drc_ttl st1 = drc_ttl st"
    by (simp_all add: st1_def complete_finished [OF e])
  have "lookup st1 k = Some ?e"
    unfolding st1_def complete_finished [OF e]
    by (rule purge_fresh [OF finished_ok [OF ok e]]) (use room time in \<open>simp_all add: finished_lookup\<close>)
  then have there: "lookup st2 k = Some ?e" by (simp add: st2_def lookup_def)
  have ok2: "drc_ok st2" using complete_ok [OF ok, of k r] by (simp add: st1_def st2_def drc_ok_def)
  have "lookup (purge (shard_of k) st2) k = Some ?e"
    by (rule purge_fresh [OF drc_okD [OF ok2] there]) (use time frame in \<open>simp add: st2_def\<close>)
  then have "fst (drc_begin k st2) = ClaimCached (Some r)" by (simp add: begin_claim [OF ok2] status_def)
  then show ?thesis by (simp add: drc_run_def st1_def st2_def)
qed

text \<open>C26: No concurrent re-execution.  Once a request has been told to execute, a retransmission is made
  to wait, whatever operations run in between, as long as none of them completes or aborts that
  request or flushes its shard; expiry and memory pressure never take an entry in progress.
\<close>

theorem in_progress_excludes:
  assumes "fst (drc_begin k (drc_run before (new_drc ttl mm))) = ClaimOwner"
    and "\<forall>op\<in>set ops. \<not> settles op k"
  shows "fst (drc_begin k (drc_run ops (snd (drc_begin k (drc_run before (new_drc ttl mm)))))) = ClaimWait"
proof -
  let ?st = "snd (drc_begin k (drc_run before (new_drc ttl mm)))"
  have ok: "drc_ok ?st" by (rule begin_ok [OF reached_ok])
  have "status (drc_run ops ?st) k = InProgress"
    unfolding drc_run_def
    by (rule drc.run_progress [OF ok [unfolded drc_run_def] _ assms(2)])
       (rule owner_in_progress [OF reached_ok assms(1), unfolded drc_run_def])
  moreover have "drc_ok (drc_run ops ?st)" unfolding drc_run_def by (rule drc.run_ok [OF ok [unfolded drc_run_def]])
  ultimately show ?thesis by (rule in_progress_waits [rotated])
qed




text \<open>The cap is applied per shard.  A reply larger than a sixteenth of the configured memory is
  dropped by the very step that stores it, however empty the cache is, so that the retransmission
  waiting for it executes the request again.
\<close>

theorem oversized_reply_reexecuted:
  assumes "fst (drc_begin k (drc_run before (new_drc ttl mm))) = ClaimWait"
    and "mm div kShards < length r"
  shows "fst (drc_begin k (drc_complete k r (drc_run before (new_drc ttl mm)))) = ClaimOwner"
proof -
  let ?st = "drc_run before (new_drc ttl mm)"
  let ?st1 = "drc_complete k r ?st"
  have ok: "drc_ok ?st1" by (rule complete_ok [OF reached_ok])
  have mem: "drc_max_memory ?st1 = mm" using run_max_memory [of "before @ [Complete k r]"] by (simp add: drc_run_def)
  have "status ?st1 k \<noteq> Done r"
  proof
    assume "status ?st1 k = Done r"
    then obtain e where "lookup ?st1 k = Some e" "de_reply e = Some r" by (auto simp: status_def split: option.splits)
    then show False using lookup_size [OF ok, of k e] mem assms(2) by (simp add: reply_size_def)
  qed
  then have "status ?st1 k = Absent"
    using complete_status [OF reached_ok wait_in_progress [OF reached_ok assms(1)], of r] by simp
  then show ?thesis
    using status_purge [OF drc_okD(1) [OF ok], of "shard_of k" k] by (auto simp: begin_claim [OF ok])
qed

text \<open>A flush forgets who owns a request.  After a flush and a second claim of the same key, the
  completion of the first owner fills the entry of the second one: its reply is replayed while
  the second execution is still running, whose own completion is then ignored.
\<close>

theorem flush_confuses_owners:
  assumes "0 < ttl" "length r \<le> mm div kShards"
  shows "fst (drc_begin k (drc_run [Begin k, FlushShard (shard_of k)] (new_drc ttl mm))) = ClaimOwner \<and>
         fst (drc_begin k (drc_run [Begin k, FlushShard (shard_of k), Begin k, Complete k r] (new_drc ttl mm)))
           = ClaimCached (Some r) \<and>
         drc_run [Begin k, FlushShard (shard_of k), Begin k, Complete k r, Complete k r2] (new_drc ttl mm)
           = drc_run [Begin k, FlushShard (shard_of k), Begin k, Complete k r] (new_drc ttl mm)"
proof -
  let ?flushed = "drc_run [Begin k, FlushShard (shard_of k)] (new_drc ttl mm)"
  let ?st = "snd (drc_begin k ?flushed)"
  have ok0: "drc_ok ?flushed" by (rule reached_ok)
  have gone: "ds_entries (drc_shards ?flushed (shard_of k)) = []" "ds_completed (drc_shards ?flushed (shard_of k)) = []"
    "ds_bytes (drc_shards ?flushed (shard_of k)) = 0"
    by (simp_all add: drc_run_def flush_shard_def empty_shard_def)
  have own: "fst (drc_begin k ?flushed) = ClaimOwner" "ds_bytes (drc_shards ?st (shard_of k)) = 0"
    by (simp_all add: drc_begin_def Let_def purge_shards gone set_entries_def)
  have ok: "drc_ok ?st" by (rule begin_ok [OF ok0])
  have prog: "status ?st k = InProgress" by (rule owner_in_progress [OF ok0 own(1)])
  have frame: "drc_ttl ?st = ttl" "drc_max_memory ?st = mm"
    using run_ttl [of "[Begin k, FlushShard (shard_of k), Begin k]"] run_max_memory [of "[Begin k, FlushShard (shard_of k), Begin k]"]
    by (simp_all add: drc_run_def)
  have replay: "fst (drc_begin k (drc_complete k r ?st)) = ClaimCached (Some r)"
    using replay_within_ttl [OF ok prog, of r 0] own(2) frame assms by (simp add: drc_run_def)
  have "status (drc_complete k r ?st) k = Done r" using cached_done [OF complete_ok [OF ok] replay] by simp
  then obtain e where e: "lookup (drc_complete k r ?st) k = Some e" "de_reply e = Some r"
    by (auto simp: status_def split: option.splits)
  then have "drc_complete k r2 (drc_complete k r ?st) = drc_complete k r ?st"
    using lookup_ok [OF drc_okD(1) [OF complete_ok [OF ok]] e(1)] by (simp add: complete_settled)
  then show ?thesis using own(1) replay by (simp add: drc_run_def)
qed

section \<open>Witnesses\<close>

text \<open>Two requests of one client that differ in their transaction id.\<close>

definition demo_key :: "u32 \<Rightarrow> DrcKey" where
  "demo_key xid = make_key (SockIn [10, 0, 0, 1] 700) xid 100003 3 9 7"

lemma demo_begin: "fst (drc_begin k (new_drc ttl mm)) = ClaimOwner"
  by (simp add: drc_begin_def purge_def Let_def new_drc_def empty_shard_def)

lemma demo_wait:
  "fst (drc_begin (demo_key 5) (drc_run [Begin (demo_key 5)] (new_drc 120000 160))) = ClaimWait"
  by (simp add: drc_run_def drc_begin_def purge_def Let_def new_drc_def empty_shard_def set_entries_def new_entry_def)

lemma demo_bytes:
  "ds_bytes (drc_shards (drc_run [Begin (demo_key 5)] (new_drc 120000 160)) (shard_of (demo_key 5))) = 0"
  by (simp add: drc_run_def drc_begin_def purge_def Let_def new_drc_def empty_shard_def set_entries_def)

theorem in_progress_excludes_witness:
  "fst (drc_begin (demo_key 5)
     (drc_run [Begin (demo_key 5), Begin (demo_key 6), Complete (demo_key 6) [1, 2], Tick 500000]
       (snd (drc_begin (demo_key 5) (drc_run [] (new_drc 120000 160)))))) = ClaimWait"
  by (rule in_progress_excludes) (simp_all add: drc_run_def demo_begin, simp add: demo_key_def make_key_def)

lemma demo_replay:
  "fst (drc_begin (demo_key 5) (drc_run [Tick 10]
      (drc_complete (demo_key 5) [1, 2] (drc_run [Begin (demo_key 5)] (new_drc 120000 160))))) = ClaimCached (Some [1, 2])"
proof -
  have "fst (drc_begin (demo_key 5) (drc_run [Complete (demo_key 5) [1, 2], Tick 10]
      (drc_run [Begin (demo_key 5)] (new_drc 120000 160)))) = ClaimCached (Some [1, 2])"
    by (rule replay_within_ttl [OF reached_ok wait_in_progress [OF reached_ok demo_wait]])
       (simp_all add: demo_bytes run_ttl run_max_memory kShards_def)
  then show ?thesis by (simp add: drc_run_def)
qed



theorem oversized_reply_reexecuted_witness:
  "fst (drc_begin (demo_key 5) (drc_complete (demo_key 5) (replicate 11 0)
     (drc_run [Begin (demo_key 5)] (new_drc 120000 160)))) = ClaimOwner"
  by (rule oversized_reply_reexecuted [OF demo_wait]) (simp add: kShards_def)

theorem flush_confuses_owners_witness:
  "fst (drc_begin (demo_key 5) (drc_run [Begin (demo_key 5), FlushShard (shard_of (demo_key 5)), Begin (demo_key 5),
     Complete (demo_key 5) [1, 2]] (new_drc 120000 160))) = ClaimCached (Some [1, 2])"
  using flush_confuses_owners [of 120000 "[1, 2]" 160 "demo_key 5"] by (simp add: kShards_def)

end
