(* ===== verification/ConfigText.thy ===== *)
theory ConfigText
  imports Prelude "HOL-Library.List_Lexorder" "HOL-Library.Char_ord"
begin

text \<open>
  The text layer of the configuration and of the shared export catalog: the value readers and
  writers of \<^verbatim>\<open>src/src/core/config.cpp\<close> (declared in
  \<^verbatim>\<open>core/config_parse.hpp\<close>) and the parser of one \<^verbatim>\<open>[[export]]\<close> block.  Text is a list
  of bytes, written as HOL characters.
\<close>

section \<open>Scalars\<close>

definition isspace :: "char \<Rightarrow> bool" where
  "isspace c \<longleftrightarrow> c = CHR '' '' \<or> c = CHR 0x09 \<or> c = CHR 0x0A \<or> c = CHR 0x0B \<or> c = CHR 0x0C \<or> c = CHR 0x0D"

definition isdigit :: "char \<Rightarrow> bool" where
  "isdigit c \<longleftrightarrow> 48 \<le> (of_char c :: nat) \<and> (of_char c :: nat) \<le> 57"

abbreviation (input) QUOTE :: char where "QUOTE \<equiv> CHR 0x22"
abbreviation (input) BACKSLASH :: char where "BACKSLASH \<equiv> CHR 0x5C"
abbreviation (input) NEWLINE :: char where "NEWLINE \<equiv> CHR 0x0A"
abbreviation (input) TAB :: char where "TAB \<equiv> CHR 0x09"

definition trim :: "string \<Rightarrow> string" where
  "trim v = rev (dropWhile isspace (rev (dropWhile isspace v)))"

text \<open>The loop of \<^verbatim>\<open>strip_comment\<close>: whether a string is open, and the character before.\<close>

primrec strip_go :: "bool \<Rightarrow> char option \<Rightarrow> string \<Rightarrow> string" where
  "strip_go quoted prev [] = []"
| "strip_go quoted prev (c # cs) =
     (let quoted1 = (if c = QUOTE \<and> prev \<noteq> Some BACKSLASH then \<not> quoted else quoted)
      in if c = CHR ''#'' \<and> \<not> quoted1 then [] else c # strip_go quoted1 (Some c) cs)"

definition strip_comment :: "string \<Rightarrow> string" where
  "strip_comment line = strip_go False None line"

fun unescape :: "string \<Rightarrow> string" where
  "unescape [] = []"
| "unescape [c] = [c]"
| "unescape (c # d # cs) =
     (if c = BACKSLASH
      then (if d = CHR ''n'' then NEWLINE else if d = CHR ''t'' then TAB else d) # unescape cs
      else c # unescape (d # cs))"

definition string_value :: "string \<Rightarrow> string res" where
  "string_value v0 =
     (let v = trim v0
      in if length v < 2 \<or> hd v \<noteq> QUOTE \<or> last v \<noteq> QUOTE then Inl EINVAL else Inr (unescape (butlast (tl v))))"

text \<open>The number a list of decimal digits stands for, as \<^verbatim>\<open>std::from_chars\<close> reads it.\<close>

definition dec_value :: "string \<Rightarrow> nat" where
  "dec_value ds = foldl (\<lambda>n c. n * 10 + (of_char c - 48)) 0 ds"

definition uint_value :: "string \<Rightarrow> u64 res" where
  "uint_value v0 =
     (let v = trim v0
      in if v = [] \<or> \<not> list_all isdigit v \<or> dec_value v \<ge> 2 ^ 64 then Inl EINVAL else Inr (of_nat (dec_value v)))"

definition bool_value :: "string \<Rightarrow> bool res" where
  "bool_value v0 =
     (let v = trim v0 in if v = ''true'' then Inr True else if v = ''false'' then Inr False else Inl EINVAL)"

definition size_unit :: "string \<Rightarrow> u64" where
  "size_unit suffix =
     (if suffix = [] \<or> suffix = ''B'' then 1
      else if suffix = ''KiB'' then 1024
      else if suffix = ''MiB'' then 1024 * 1024
      else if suffix = ''GiB'' then 1024 * 1024 * 1024
      else 0)"

definition size_value :: "string \<Rightarrow> u64 res" where
  "size_value v0 =
     (let v = trim v0
      in if v \<noteq> [] \<and> hd v = QUOTE
         then try_res (string_value v) (\<lambda>s.
                try_res (uint_value (takeWhile isdigit s)) (\<lambda>base.
                  let mul = size_unit (dropWhile isdigit s)
                  in if mul = 0 \<or> base > UINT64_MAX div mul then Inl EINVAL else Inr (base * mul)))
         else uint_value v)"

text \<open>The digits are accumulated in 64 bits and may wrap.\<close>

definition duration_ms_value :: "string \<Rightarrow> u64 res" where
  "duration_ms_value v =
     try_res (string_value v) (\<lambda>s.
       let digits = takeWhile isdigit s; suffix = dropWhile isdigit s; n = (of_nat (dec_value digits) :: u64)
       in if digits = [] then Inl EINVAL
          else if suffix = ''s'' \<or> suffix = [] then Inr (n * 1000)
          else if suffix = ''ms'' then Inr n
          else Inl EINVAL)"

section \<open>Arrays\<close>

text \<open>
  \<^verbatim>\<open>quote_end prev v\<close> is the number of characters before the first quote that does not follow a
  backslash, where \<^verbatim>\<open>prev\<close> is the character in front of \<^verbatim>\<open>v\<close>.
\<close>

primrec quote_end :: "char \<Rightarrow> string \<Rightarrow> nat option" where
  "quote_end prev [] = None"
| "quote_end prev (c # cs) = (if c = QUOTE \<and> prev \<noteq> BACKSLASH then Some 0 else map_option Suc (quote_end c cs))"

lemma length_trim: "length (trim v) \<le> length v"
  by (metis length_dropWhile_le length_rev order_trans trim_def)

function array_items :: "string \<Rightarrow> string list res" where
  "array_items v =
     (if v = [] then Inr []
      else if hd v \<noteq> QUOTE then Inl EINVAL
      else case quote_end QUOTE (tl v) of
             None \<Rightarrow> Inl EINVAL
           | Some n \<Rightarrow>
               try_res (string_value (take (n + 2) v)) (\<lambda>item.
                 let rest = trim (drop (n + 2) v)
                 in if rest = [] then Inr [item]
                    else if hd rest \<noteq> CHR '','' then Inl EINVAL
                    else try_res (array_items (trim (tl rest))) (\<lambda>items. Inr (item # items))))"
  by pat_completeness auto
termination
proof (relation "measure length")
  fix v n item rest
  assume "v \<noteq> []" and r: "rest = trim (drop (n + 2) v)" and ne: "rest \<noteq> []"
  have "length (trim (tl rest)) \<le> length (tl rest)" by (rule length_trim)
  also have "\<dots> < length rest" using ne by simp
  also have "length rest \<le> length v" using length_trim [of "drop (n + 2) v"] r by simp
  finally show "(trim (tl rest), v) \<in> measure length" by simp
qed simp

declare array_items.simps [simp del]

definition string_array :: "string \<Rightarrow> string list res" where
  "string_array v0 =
     (let v = trim v0
      in if length v < 2 \<or> hd v \<noteq> CHR ''['' \<or> last v \<noteq> CHR '']'' then Inl EINVAL
         else array_items (trim (butlast (tl v))))"

section \<open>Writers\<close>

definition normalize_path :: "string \<Rightarrow> string" where
  "normalize_path path =
     (if path = [] then [] else hd path # rev (dropWhile (\<lambda>c. c = CHR ''/'') (rev (tl path))))"

definition digit_char :: "nat \<Rightarrow> char" where
  "digit_char d = char_of (48 + d)"

fun to_string :: "nat \<Rightarrow> string" where
  "to_string n = (if n < 10 then [] else to_string (n div 10)) @ [digit_char (n mod 10)]"

declare to_string.simps [simp del]

definition backend_value :: "string \<Rightarrow> string res" where
  "backend_value v =
     (if v \<noteq> [] \<and> hd v = QUOTE then string_value v
      else if v = ''true'' \<or> v = ''false'' then Inr v
      else try_res (uint_value v) (\<lambda>n. Inr (to_string (unat n))))"

definition escape_char :: "char \<Rightarrow> string" where
  "escape_char c =
     (if c = QUOTE \<or> c = BACKSLASH then [BACKSLASH] else []) @
     (if c = NEWLINE then [BACKSLASH, CHR ''n''] else if c = TAB then [BACKSLASH, CHR ''t''] else [c])"

definition quote :: "string \<Rightarrow> string" where
  "quote v = [QUOTE] @ concat (map escape_char v) @ [QUOTE]"

primrec quote_items :: "bool \<Rightarrow> string list \<Rightarrow> string" where
  "quote_items first [] = []"
| "quote_items first (v # vs) = (if first then [] else '', '') @ quote v @ quote_items False vs"

definition quote_array :: "string list \<Rightarrow> string" where
  "quote_array vs = ''['' @ quote_items True vs @ '']''"

definition backend_value_text :: "string \<Rightarrow> string" where
  "backend_value_text v =
     (if v = ''true'' \<or> v = ''false'' then v
      else case uint_value v of
             Inr n \<Rightarrow> if to_string (unat n) = v then v else quote v
           | Inl e \<Rightarrow> quote v)"

section \<open>One export block\<close>

text \<open>
  An \<^verbatim>\<open>unordered_map\<close> or \<^verbatim>\<open>map\<close> of strings is the list of its pairs in key order, so that
  equal maps are equal lists.
\<close>

primrec set_value :: "string \<Rightarrow> string \<Rightarrow> (string \<times> string) list \<Rightarrow> (string \<times> string) list" where
  "set_value k v [] = [(k, v)]"
| "set_value k v (p # ps) =
     (if k < fst p then (k, v) # p # ps else if k = fst p then (k, v) # ps else p # set_value k v ps)"

datatype Squash = SquashNone | SquashRoot | SquashAll

record BackendConfig =
  be_path :: string
  be_fsid :: u64
  be_values :: "(string \<times> string) list"

record ExportConfig =
  ec_path :: string
  ec_backend :: string
  ec_fsid :: u32
  ec_clients :: "string list"
  ec_squash :: Squash
  ec_anon_uid :: u32
  ec_anon_gid :: u32
  ec_readonly :: bool
  ec_secure_ports :: bool
  ec_strict_readdir_cookies :: bool
  ec_read_bps :: u64
  ec_write_bps :: u64
  ec_iops :: u32
  ec_nodes :: "string list"
  ec_backend_config :: BackendConfig

definition default_backend_config :: BackendConfig where
  "default_backend_config = \<lparr>be_path = [], be_fsid = 0, be_values = []\<rparr>"

definition default_export_config :: ExportConfig where
  "default_export_config =
     \<lparr>ec_path = [], ec_backend = ''local'', ec_fsid = 0, ec_clients = [''0.0.0.0/0'', ''::/0''],
      ec_squash = SquashRoot, ec_anon_uid = 65534, ec_anon_gid = 65534, ec_readonly = False,
      ec_secure_ports = True, ec_strict_readdir_cookies = True, ec_read_bps = 0, ec_write_bps = 0,
      ec_iops = 0, ec_nodes = [], ec_backend_config = default_backend_config\<rparr>"

text \<open>The parser of a block: \<^verbatim>\<open>eb_disabled\<close> is the slot for the catalog-only key, if there is one.\<close>

record ExportBlock =
  eb_exp :: ExportConfig
  eb_disabled :: "bool option"
  eb_backend_table :: bool

definition upd_exp :: "(ExportConfig \<Rightarrow> ExportConfig) \<Rightarrow> ExportBlock \<Rightarrow> ExportBlock" where
  "upd_exp f b = b\<lparr>eb_exp := f (eb_exp b)\<rparr>"

definition u32_value :: "string \<Rightarrow> u32 res" where
  "u32_value v = try_res (uint_value v) (\<lambda>n. if n > 0xffffffff then Inl EINVAL else Inr (ucast n))"

definition squash_value :: "string \<Rightarrow> Squash res" where
  "squash_value v =
     try_res (string_value v) (\<lambda>s.
       if s = ''none'' then Inr SquashNone
       else if s = ''root'' then Inr SquashRoot
       else if s = ''all'' then Inr SquashAll
       else Inl EINVAL)"

definition export_key :: "string \<Rightarrow> string \<Rightarrow> ExportBlock \<Rightarrow> ExportBlock res" where
  "export_key key value b =
     (if key = ''path'' then try_res (string_value value) (\<lambda>x. Inr (upd_exp (\<lambda>e. e\<lparr>ec_path := normalize_path x\<rparr>) b))
      else if key = ''backend'' then try_res (string_value value) (\<lambda>x. Inr (upd_exp (\<lambda>e. e\<lparr>ec_backend := x\<rparr>) b))
      else if key = ''fsid'' then try_res (u32_value value) (\<lambda>x. Inr (upd_exp (\<lambda>e. e\<lparr>ec_fsid := x\<rparr>) b))
      else if key = ''clients'' then try_res (string_array value) (\<lambda>x. Inr (upd_exp (\<lambda>e. e\<lparr>ec_clients := x\<rparr>) b))
      else if key = ''nodes'' then try_res (string_array value) (\<lambda>x. Inr (upd_exp (\<lambda>e. e\<lparr>ec_nodes := x\<rparr>) b))
      else if key = ''readonly'' then try_res (bool_value value) (\<lambda>x. Inr (upd_exp (\<lambda>e. e\<lparr>ec_readonly := x\<rparr>) b))
      else if key = ''secure_ports''
      then try_res (bool_value value) (\<lambda>x. Inr (upd_exp (\<lambda>e. e\<lparr>ec_secure_ports := x\<rparr>) b))
      else if key = ''strict_readdir_cookies''
      then try_res (bool_value value) (\<lambda>x. Inr (upd_exp (\<lambda>e. e\<lparr>ec_strict_readdir_cookies := x\<rparr>) b))
      else if key = ''anon_uid'' then try_res (u32_value value) (\<lambda>x. Inr (upd_exp (\<lambda>e. e\<lparr>ec_anon_uid := x\<rparr>) b))
      else if key = ''anon_gid'' then try_res (u32_value value) (\<lambda>x. Inr (upd_exp (\<lambda>e. e\<lparr>ec_anon_gid := x\<rparr>) b))
      else if key = ''squash'' then try_res (squash_value value) (\<lambda>x. Inr (upd_exp (\<lambda>e. e\<lparr>ec_squash := x\<rparr>) b))
      else if key = ''read_bps'' then try_res (size_value value) (\<lambda>x. Inr (upd_exp (\<lambda>e. e\<lparr>ec_read_bps := x\<rparr>) b))
      else if key = ''write_bps'' then try_res (size_value value) (\<lambda>x. Inr (upd_exp (\<lambda>e. e\<lparr>ec_write_bps := x\<rparr>) b))
      else if key = ''iops'' then try_res (u32_value value) (\<lambda>x. Inr (upd_exp (\<lambda>e. e\<lparr>ec_iops := x\<rparr>) b))
      else if key = ''disabled'' \<and> eb_disabled b \<noteq> None
      then try_res (bool_value value) (\<lambda>x. Inr (b\<lparr>eb_disabled := Some x\<rparr>))
      else Inl EINVAL)"

definition set_backend_value :: "string \<Rightarrow> string \<Rightarrow> ExportConfig \<Rightarrow> ExportConfig" where
  "set_backend_value k v e =
     e\<lparr>ec_backend_config := (ec_backend_config e)\<lparr>be_values := set_value k v (be_values (ec_backend_config e))\<rparr>\<rparr>"

text \<open>\<^verbatim>\<open>ExportBlockParser::line\<close>: whether the block consumed the line, and the block after it.\<close>

definition export_block_line :: "string \<Rightarrow> ExportBlock \<Rightarrow> (bool \<times> ExportBlock) res" where
  "export_block_line line b =
     (if hd line = CHR ''[''
      then if take 8 line \<noteq> ''[export.'' \<or> last line \<noteq> CHR '']'' then Inr (False, b)
           else Inr (True, b\<lparr>eb_backend_table := True\<rparr>)
      else if CHR ''='' \<notin> set line then Inl EINVAL
      else let key = trim (takeWhile (\<lambda>c. c \<noteq> CHR ''='') line);
               value = trim (tl (dropWhile (\<lambda>c. c \<noteq> CHR ''='') line))
           in if eb_backend_table b
              then try_res (backend_value value) (\<lambda>v. Inr (True, upd_exp (set_backend_value key v) b))
              else try_res (export_key key value b) (\<lambda>b1. Inr (True, b1)))"

section \<open>What is written is read back\<close>

lemma trim_id: "v = [] \<or> \<not> isspace (hd v) \<and> \<not> isspace (last v) \<Longrightarrow> trim v = v"
proof (cases "v = []")
  case False
  assume *: "v = [] \<or> \<not> isspace (hd v) \<and> \<not> isspace (last v)"
  have 1: "dropWhile isspace v = v" using * False by (cases v) auto
  have 2: "dropWhile isspace (rev v) = rev v" using * False by (cases v rule: rev_cases) auto
  show ?thesis by (simp add: trim_def 1 2)
qed (simp add: trim_def)

lemma trim_space: "isspace c \<Longrightarrow> trim (c # v) = trim v"
  by (simp add: trim_def)

lemma not_space [simp]:
  "\<not> isspace QUOTE" "\<not> isspace (CHR ''['')" "\<not> isspace (CHR '']'')" "\<not> isspace (CHR '','')" "isspace (CHR '' '')"
  by (simp_all add: isspace_def)

subsection \<open>Strings\<close>

lemma unescape_escape: "unescape (escape_char c @ rest) = c # unescape rest"
  by (cases rest) (simp_all add: escape_char_def)

lemma unescape_quoted: "unescape (concat (map escape_char s)) = s"
  by (induction s) (simp_all add: unescape_escape)

lemma quote_ends: "quote s \<noteq> []" "hd (quote s) = QUOTE" "last (quote s) = QUOTE" "2 \<le> length (quote s)"
  by (simp_all add: quote_def)

lemma trim_quote [simp]: "trim (quote s) = quote s"
  by (rule trim_id) (simp add: quote_ends)

lemma string_value_quote: "string_value (quote s) = Inr s"
  by (simp add: string_value_def Let_def) (simp add: quote_def butlast_append unescape_quoted)

subsection \<open>Numbers\<close>

lemma digit_char: "d < 10 \<Longrightarrow> (of_char (digit_char d) :: nat) = 48 + d"
  by (simp add: digit_char_def of_char_of)

lemma digit_char_isdigit: "d < 10 \<Longrightarrow> isdigit (digit_char d)"
  by (simp add: isdigit_def digit_char)

lemma isdigit_plain: "isdigit c \<Longrightarrow> \<not> isspace c \<and> c \<noteq> QUOTE \<and> c \<noteq> CHR ''#'' \<and> c \<noteq> NEWLINE \<and> c \<noteq> CHR ''=''"
  by (auto simp: isdigit_def isspace_def)

lemma to_string_digits: "list_all isdigit (to_string n)"
proof (induction n rule: to_string.induct)
  case (1 n)
  then show ?case by (subst to_string.simps) (simp add: digit_char_isdigit)
qed

lemma to_string_ne [simp]: "to_string n \<noteq> []"
  by (subst to_string.simps) simp

lemma dec_value_snoc: "dec_value (xs @ [c]) = dec_value xs * 10 + (of_char c - 48)"
  by (simp add: dec_value_def)

lemma dec_value_to_string: "dec_value (to_string n) = n"
proof (induction n rule: to_string.induct)
  case (1 n)
  show ?case
  proof (cases "n < 10")
    case True
    then show ?thesis by (subst to_string.simps) (simp add: dec_value_def digit_char)
  next
    case False
    then show ?thesis using 1 by (subst to_string.simps) (simp add: dec_value_snoc digit_char)
  qed
qed

lemma digits_ends: "list_all isdigit v \<Longrightarrow> v \<noteq> [] \<Longrightarrow> isdigit (hd v) \<and> isdigit (last v)"
  by (simp add: list_all_iff)

lemma trim_digits: "list_all isdigit v \<Longrightarrow> trim v = v"
  using digits_ends [of v] isdigit_plain by (intro trim_id) blast

lemma uint_value_to_string: "n < 2 ^ 64 \<Longrightarrow> uint_value (to_string n) = Inr (of_nat n)"
  by (simp add: uint_value_def trim_digits to_string_digits dec_value_to_string)

lemma uint_value_u64: "uint_value (to_string (unat (n :: u64))) = Inr n"
  using uint_value_to_string [of "unat n"] unsigned_less [of n] by simp

lemma u32_value_to_string: "u32_value (to_string (unat (n :: u32))) = Inr n"
proof -
  have lt: "unat n < 2 ^ 32" using unsigned_less [of n] by simp
  have "(of_nat (unat n) :: u64) = ucast n" by simp
  moreover have "\<not> (0xffffffff :: u64) < ucast n"
    using lt by (simp add: word_less_nat_alt unsigned_ucast_eq take_bit_nat_eq_self)
  moreover have "(ucast (ucast n :: u64) :: u32) = n"
    by (rule bit_word_eqI) (auto simp: bit_simps dest: bit_imp_le_length)
  ultimately show ?thesis
    using uint_value_to_string [of "unat n"] lt by (simp add: u32_value_def)
qed

lemma size_value_to_string: "size_value (to_string (unat (n :: u64))) = Inr n"
proof -
  have "hd (to_string (unat n)) \<noteq> QUOTE"
    using digits_ends [OF to_string_digits to_string_ne, of "unat n"] isdigit_plain by blast
  then show ?thesis by (simp add: size_value_def trim_digits to_string_digits uint_value_u64)
qed

subsection \<open>Booleans and backend values\<close>

definition bool_text :: "bool \<Rightarrow> string" where
  "bool_text b = (if b then ''true'' else ''false'')"

lemma bool_value_text: "bool_value (bool_text b) = Inr b"
  by (simp add: bool_value_def bool_text_def trim_def isspace_def)

lemma backend_value_roundtrip: "backend_value (backend_value_text v) = Inr v"
proof (cases "v = ''true'' \<or> v = ''false''")
  case True
  then show ?thesis by (auto simp: backend_value_def backend_value_text_def)
next
  case bare: False
  have quoted: "backend_value (quote v) = Inr v"
    by (simp add: backend_value_def quote_ends string_value_quote)
  show ?thesis
  proof (cases "\<exists>n. uint_value v = Inr n \<and> to_string (unat n) = v")
    case True
    then obtain n where n: "uint_value v = Inr n" "to_string (unat n) = v" by blast
    then have "hd v \<noteq> QUOTE" using digits_ends [OF to_string_digits to_string_ne, of "unat n"] isdigit_plain by metis
    then show ?thesis using bare n by (simp add: backend_value_def backend_value_text_def)
  next
    case False
    then have "backend_value_text v = quote v"
      using bare by (auto simp: backend_value_text_def split: sum.split)
    then show ?thesis using quoted by simp
  qed
qed

subsection \<open>Arrays\<close>

text \<open>An item of an array must not end in a backslash: see \<^verbatim>\<open>quote_end\<close>.\<close>

definition item_ok :: "string \<Rightarrow> bool" where
  "item_ok s \<longleftrightarrow> s = [] \<or> last s \<noteq> BACKSLASH"

lemma quote_end_body:
  assumes "item_ok s" "s = [] \<longrightarrow> p \<noteq> BACKSLASH"
  shows "quote_end p (concat (map escape_char s) @ QUOTE # ys) = Some (length (concat (map escape_char s)))"
  using assms
proof (induction s arbitrary: p)
  case (Cons c s)
  have ok: "item_ok s" "s = [] \<longrightarrow> c \<noteq> BACKSLASH" using Cons.prems by (auto simp: item_ok_def split: if_splits)
  show ?case
    using Cons.IH [OF ok(1), of c] Cons.IH [OF ok(1), of "CHR ''n''"] Cons.IH [OF ok(1), of "CHR ''t''"] ok(2)
    by (auto simp: escape_char_def)
qed simp

lemma quote_items_empty [simp]: "quote_items b vs = [] \<longleftrightarrow> vs = []"
  by (cases vs) (simp_all add: quote_ends)

lemma quote_items_ends:
  assumes "vs \<noteq> []"
  shows "hd (quote_items True vs) = QUOTE" "last (quote_items b vs) = QUOTE"
proof -
  show "hd (quote_items True vs) = QUOTE" using assms by (cases vs) (simp_all add: quote_ends)
  show "last (quote_items b vs) = QUOTE"
    using assms
  proof (induction vs arbitrary: b)
    case (Cons v vs)
    then show ?case by (cases "vs = []") (simp_all add: quote_ends)
  qed simp
qed

lemma quote_items_False: "vs \<noteq> [] \<Longrightarrow> quote_items False vs = CHR '','' # CHR '' '' # quote_items True vs"
  by (cases vs) simp_all

lemma array_items_step:
  assumes "item_ok v"
  shows "array_items (quote v @ r) =
     (if trim r = [] then Inr [v]
      else if hd (trim r) \<noteq> CHR '','' then Inl EINVAL
      else try_res (array_items (trim (tl (trim r)))) (\<lambda>items. Inr (v # items)))"
proof -
  let ?b = "concat (map escape_char v)"
  have all: "quote v @ r = QUOTE # ?b @ QUOTE # r" by (simp add: quote_def)
  have qe: "quote_end QUOTE (?b @ QUOTE # r) = Some (length ?b)" using quote_end_body [of v QUOTE r] assms by simp
  have first: "take (length ?b + 2) (QUOTE # ?b @ QUOTE # r) = quote v" by (simp add: quote_def)
  have rest: "drop (length ?b + 2) (QUOTE # ?b @ QUOTE # r) = r" by simp
  show ?thesis
    unfolding all array_items.simps [of "QUOTE # ?b @ QUOTE # r"] list.sel qe option.case first rest
      string_value_quote try_res_simps Let_def
    by simp
qed

lemma array_items_quoted:
  assumes "list_all item_ok vs"
  shows "array_items (quote_items True vs) = Inr vs"
  using assms
proof (induction vs)
  case Nil
  then show ?case by (simp add: array_items.simps)
next
  case (Cons v vs)
  show ?case
  proof (cases "vs = []")
    case True
    then show ?thesis using array_items_step [of v "[]"] Cons.prems by (simp add: trim_id)
  next
    case False
    have t1: "trim (quote_items False vs) = quote_items False vs"
      using quote_items_ends(2) [OF False, of False] by (intro trim_id) (simp add: quote_items_False [OF False])
    have t2: "trim (tl (quote_items False vs)) = quote_items True vs"
      using quote_items_ends [OF False] by (simp add: quote_items_False [OF False] trim_space trim_id)
    show ?thesis
      using array_items_step [of v "quote_items False vs"] Cons
      by (simp add: t1 t2) (simp add: quote_items_False [OF False])
  qed
qed

lemma string_array_quote:
  assumes "list_all item_ok vs"
  shows "string_array (quote_array vs) = Inr vs"
proof -
  have t1: "trim (quote_array vs) = quote_array vs" by (rule trim_id) (simp add: quote_array_def)
  have t2: "trim (quote_items True vs) = quote_items True vs"
    using quote_items_ends [of vs] by (cases "vs = []") (auto intro!: trim_id)
  have "butlast (tl (quote_array vs)) = quote_items True vs" by (simp add: quote_array_def butlast_append)
  then show ?thesis
    using array_items_quoted [OF assms] t2
    by (simp add: string_array_def Let_def t1) (simp add: quote_array_def)
qed

subsection \<open>Comments\<close>

lemma strip_plain:
  "\<forall>c\<in>set xs. c \<noteq> QUOTE \<and> (c = CHR ''#'' \<longrightarrow> q) \<Longrightarrow>
   strip_go q p (xs @ ys) = xs @ strip_go q (if xs = [] then p else Some (last xs)) ys"
  by (induction xs arbitrary: p) (auto simp: Let_def)

lemma strip_escape:
  "strip_go True p (escape_char c @ ys) = escape_char c @ strip_go True (Some (last (escape_char c))) ys"
  by (simp add: escape_char_def)

lemma strip_body:
  "strip_go True p (concat (map escape_char s) @ ys) =
   concat (map escape_char s) @ strip_go True (if s = [] then p else Some (last (escape_char (last s)))) ys"
  by (induction s arbitrary: p) (simp_all add: strip_escape)

lemma strip_quote:
  assumes "item_ok s \<or> ys = []" "p \<noteq> Some BACKSLASH"
  shows "strip_go False p (quote s @ ys) = quote s @ strip_go False (Some QUOTE) ys"
proof -
  have close: "last (escape_char (last s)) \<noteq> BACKSLASH" if "item_ok s" "s \<noteq> []"
    using that by (simp add: item_ok_def escape_char_def)
  show ?thesis
    using assms close by (auto simp: quote_def strip_body)
qed

lemma strip_quote_items:
  "list_all item_ok vs \<Longrightarrow> p \<noteq> Some BACKSLASH \<Longrightarrow>
   strip_go False p (quote_items b vs @ '']'') = quote_items b vs @ '']''"
proof (induction vs arbitrary: b p)
  case (Cons v vs)
  have "strip_go False p ((if b then [] else '', '') @ quote v @ quote_items False vs @ '']'')
      = (if b then [] else '', '') @ strip_go False (if b then p else Some (CHR '' '')) (quote v @ quote_items False vs @ '']'')"
    using strip_plain [of "if b then [] else '', ''" False p "quote v @ quote_items False vs @ '']''"] by (cases b) simp_all
  also have "\<dots> = (if b then [] else '', '') @ quote v @ quote_items False vs @ '']''"
    using Cons.prems Cons.IH [of "Some QUOTE" False] by (simp add: strip_quote)
  finally show ?case by simp
qed simp

text \<open>Texts a value can be written as on a line of its own.\<close>

definition value_text :: "string \<Rightarrow> bool" where
  "value_text t \<longleftrightarrow>
     t \<noteq> [] \<and> \<not> isspace (hd t) \<and> \<not> isspace (last t) \<and> NEWLINE \<notin> set t \<and> strip_go False (Some (CHR '' '')) t = t"

lemma escape_no_newline: "NEWLINE \<notin> set (escape_char c)"
  by (simp add: escape_char_def)

lemma quote_no_newline: "NEWLINE \<notin> set (quote s)"
  using escape_no_newline by (auto simp: quote_def)

lemma quote_items_no_newline: "NEWLINE \<notin> set (quote_items b vs)"
  by (induction vs arbitrary: b) (simp_all add: quote_no_newline)

lemma value_text_quote: "value_text (quote s)"
  using strip_quote [of s "[]" "Some (CHR '' '')"] by (simp add: value_text_def quote_ends quote_no_newline)

lemma value_text_array: "list_all item_ok vs \<Longrightarrow> value_text (quote_array vs)"
  using strip_quote_items [of vs "Some (CHR ''['')" True]
  by (simp add: value_text_def quote_array_def quote_items_no_newline)

lemma value_text_plain:
  assumes "t \<noteq> []" "\<forall>c\<in>set t. \<not> isspace c \<and> c \<noteq> QUOTE \<and> c \<noteq> CHR ''#''"
  shows "value_text t"
proof -
  have "NEWLINE \<notin> set t" using assms(2) by (auto simp: isspace_def)
  moreover have "strip_go False (Some (CHR '' '')) t = t"
    using strip_plain [of t False "Some (CHR '' '')" "[]"] assms by auto
  ultimately show ?thesis using assms by (simp add: value_text_def)
qed

lemma value_text_number: "value_text (to_string n)"
  using to_string_digits [of n] isdigit_plain by (intro value_text_plain) (auto simp: list_all_iff)

lemma value_text_bool: "value_text (bool_text b)"
  by (rule value_text_plain) (simp_all add: bool_text_def isspace_def)

lemma value_text_backend: "value_text (backend_value_text v)"
proof (cases "v = ''true'' \<or> v = ''false''")
  case True
  then show ?thesis using value_text_bool [of True] value_text_bool [of False]
    by (auto simp: backend_value_text_def bool_text_def)
next
  case False
  then show ?thesis using value_text_number value_text_quote
    by (auto simp: backend_value_text_def split: sum.split)
qed

end
