(* ===== verification/Exports.thy ===== *)
theory Exports
  imports ConfigText RpcMsg
begin

text \<open>
  The export table (\<^verbatim>\<open>src/src/core/config.cpp\<close>): client address lists, the rules of
  one export (client check, credential squashing), and the published export set with its atomic
  replacement.  Entries are shared between versions of the set, so they live at addresses of a
  heap and a set is a list of addresses.  The address parser of the C library is a parameter.
\<close>

section \<open>Client addresses\<close>

datatype family = AF_UNSPEC | AF_INET | AF_INET6

record Cidr =
  ci_family :: family
  ci_address :: bytes
  ci_prefix :: nat
  ci_text :: string

text \<open>
  \<^verbatim>\<open>inet_pton\<close> is a function of the family and the text; it sees the host only up to the first NUL
  (\<^verbatim>\<open>c_str\<close>).
\<close>

type_synonym pton = "family \<Rightarrow> string \<Rightarrow> bytes option"

definition c_str :: "string \<Rightarrow> string" where
  "c_str s = takeWhile (\<lambda>c. c \<noteq> CHR 0x00) s"

definition cidr_prefix :: "string \<Rightarrow> nat \<Rightarrow> u64 res" where
  "cidr_prefix value full =
     (if CHR ''/'' \<in> set value then uint_value (tl (dropWhile (\<lambda>c. c \<noteq> CHR ''/'') value)) else Inr (of_nat full))"

definition pad_address :: "bytes \<Rightarrow> bytes" where
  "pad_address a = take 16 (a @ replicate 16 0)"

definition cidr_parse :: "pton \<Rightarrow> string \<Rightarrow> Cidr res" where
  "cidr_parse inet_pton value =
     (let host = c_str (takeWhile (\<lambda>c. c \<noteq> CHR ''/'') value)
      in case inet_pton AF_INET host of
           Some a \<Rightarrow>
             try_res (cidr_prefix value 32) (\<lambda>prefix.
               if prefix > 32 then Inl EINVAL
               else Inr \<lparr>ci_family = AF_INET, ci_address = pad_address a, ci_prefix = unat prefix, ci_text = value\<rparr>)
         | None \<Rightarrow>
             (case inet_pton AF_INET6 host of
                Some a \<Rightarrow>
                  try_res (cidr_prefix value 128) (\<lambda>prefix.
                    if prefix > 128 then Inl EINVAL
                    else Inr \<lparr>ci_family = AF_INET6, ci_address = pad_address a, ci_prefix = unat prefix, ci_text = value\<rparr>)
              | None \<Rightarrow> Inl EINVAL))"

definition v4_mapped :: "bytes \<Rightarrow> bool" where
  "v4_mapped a \<longleftrightarrow> take 12 a = replicate 10 0 @ [0xff, 0xff]"

definition peer_bytes :: "family \<Rightarrow> sockaddr \<Rightarrow> bytes option" where
  "peer_bytes fam peer =
     (case peer of
        SockIn a port \<Rightarrow> if fam = AF_INET then Some a else None
      | SockIn6 a port \<Rightarrow>
          if fam = AF_INET6 then Some a
          else if fam = AF_INET \<and> v4_mapped a then Some (drop 12 a)
          else None
      | SockOther \<Rightarrow> None)"

definition cidr_contains :: "Cidr \<Rightarrow> sockaddr \<Rightarrow> bool" where
  "cidr_contains c peer =
     (case peer_bytes (ci_family c) peer of
        None \<Rightarrow> False
      | Some actual \<Rightarrow>
          let full = ci_prefix c div 8; partial = ci_prefix c mod 8
          in take full (ci_address c) = take full actual \<and>
             (partial = 0 \<or>
              (let mask = push_bit (8 - partial) 0xff
               in (ci_address c ! full) AND mask = (actual ! full) AND mask)))"

section \<open>The rules of one export\<close>

text \<open>
  \<^verbatim>\<open>ee_backend\<close> names the backend object; \<^verbatim>\<open>ee_qos\<close> are the rates last given to the
  token buckets.
\<close>

record ExportEntry =
  ee_path :: string
  ee_fsid :: u32
  ee_squash :: Squash
  ee_anon_uid :: u32
  ee_anon_gid :: u32
  ee_readonly :: bool
  ee_secure_ports :: bool
  ee_strict_readdir_cookies :: bool
  ee_backend :: nat
  ee_clients :: "Cidr list"
  ee_nodes :: "string list"
  ee_qos :: "u64 \<times> u64 \<times> u32"

definition port_allowed :: "sockaddr \<Rightarrow> ExportEntry \<Rightarrow> bool" where
  "port_allowed peer entry =
     (if \<not> ee_secure_ports entry then True
      else case peer of
             SockIn a port \<Rightarrow> port < 1024
           | SockIn6 a port \<Rightarrow> port < 1024
           | SockOther \<Rightarrow> True)"

definition check_client :: "sockaddr \<Rightarrow> ExportEntry \<Rightarrow> bool" where
  "check_client peer entry =
     (port_allowed peer entry \<and> list_ex (\<lambda>c. cidr_contains c peer) (ee_clients entry))"

record MappedCred =
  mc_uid :: u32
  mc_gid :: u32
  mc_groups :: "u32 list"

definition anon_cred :: "ExportEntry \<Rightarrow> MappedCred" where
  "anon_cred entry = \<lparr>mc_uid = ee_anon_uid entry, mc_gid = ee_anon_gid entry, mc_groups = []\<rparr>"

definition squash_cred :: "AuthCred \<Rightarrow> ExportEntry \<Rightarrow> MappedCred" where
  "squash_cred cred entry =
     (if ac_anonymous cred then anon_cred entry
      else if ee_squash entry = SquashAll then anon_cred entry
      else if ee_squash entry = SquashRoot
      then \<lparr>mc_uid = (if ac_uid cred = 0 then ee_anon_uid entry else ac_uid cred),
            mc_gid = (if ac_gid cred = 0 then ee_anon_gid entry else ac_gid cred),
            mc_groups = map (\<lambda>g. if g = 0 then ee_anon_gid entry else g) (ac_gids cred)\<rparr>
      else \<lparr>mc_uid = ac_uid cred, mc_gid = ac_gid cred, mc_groups = ac_gids cred\<rparr>)"

section \<open>Export sets\<close>

record ExportSet =
  es_generation :: u64
  es_epoch :: u64
  es_entries :: "nat list"

definition pseudo_change :: "ExportSet \<Rightarrow> u64" where
  "pseudo_change s = push_bit 32 (es_epoch s) OR es_generation s"

text \<open>The search loop of \<^verbatim>\<open>std::lower_bound\<close>: the first position at or after \<^verbatim>\<open>first\<close> that is not below.\<close>

function lower_bound :: "(nat \<Rightarrow> bool) \<Rightarrow> nat \<Rightarrow> nat \<Rightarrow> nat" where
  "lower_bound below first len =
     (if len = 0 then first
      else let half = len div 2
           in if below (first + half) then lower_bound below (first + half + 1) (len - half - 1)
              else lower_bound below first half)"
  by pat_completeness auto
termination by (relation "measure (\<lambda>(below, first, len). len)") auto

declare lower_bound.simps [simp del]

definition by_fsid :: "(nat \<Rightarrow> ExportEntry) \<Rightarrow> ExportSet \<Rightarrow> u32 \<Rightarrow> nat option" where
  "by_fsid heap s fsid =
     (let es = es_entries s;
          i = lower_bound (\<lambda>i. ee_fsid (heap (es ! i)) < fsid) 0 (length es)
      in if i \<noteq> length es \<and> ee_fsid (heap (es ! i)) = fsid then Some (es ! i) else None)"

definition path_covers :: "string \<Rightarrow> string \<Rightarrow> bool" where
  "path_covers outer path \<longleftrightarrow>
     take (length outer) path = outer \<and>
     (length path = length outer \<or> outer = ''/'' \<or> path ! length outer = CHR ''/'')"

primrec best_mount :: "(nat \<Rightarrow> ExportEntry) \<Rightarrow> string \<Rightarrow> nat option \<Rightarrow> nat list \<Rightarrow> nat option" where
  "best_mount heap path best [] = best"
| "best_mount heap path best (a # as) =
     (if \<not> path_covers (ee_path (heap a)) path then best_mount heap path best as
      else if (case best of None \<Rightarrow> True | Some b \<Rightarrow> length (ee_path (heap a)) > length (ee_path (heap b)))
      then best_mount heap path (Some a) as
      else best_mount heap path best as)"

definition for_mount_path :: "(nat \<Rightarrow> ExportEntry) \<Rightarrow> ExportSet \<Rightarrow> string \<Rightarrow> (nat \<times> string) option" where
  "for_mount_path heap s raw =
     (let path = normalize_path raw
      in case best_mount heap path None (es_entries s) of
           None \<Rightarrow> None
         | Some b \<Rightarrow> Some (b, dropWhile (\<lambda>c. c = CHR ''/'') (drop (length (ee_path (heap b))) path)))"

section \<open>Building and publishing sets\<close>

record ExportTable =
  xt_heap :: "nat \<Rightarrow> ExportEntry"
  xt_next :: nat
  xt_set :: ExportSet
  xt_retired :: "(nat \<times> int) list"

primrec parse_clients :: "pton \<Rightarrow> string list \<Rightarrow> Cidr list res" where
  "parse_clients inet_pton [] = Inr []"
| "parse_clients inet_pton (c # cs) =
     try_res (cidr_parse inet_pton c) (\<lambda>x. try_res (parse_clients inet_pton cs) (\<lambda>xs. Inr (x # xs)))"

definition new_export_entry :: "ExportConfig \<Rightarrow> nat \<Rightarrow> Cidr list \<Rightarrow> ExportEntry" where
  "new_export_entry cfg backend clients =
     \<lparr>ee_path = normalize_path (ec_path cfg), ee_fsid = ec_fsid cfg, ee_squash = ec_squash cfg,
      ee_anon_uid = ec_anon_uid cfg, ee_anon_gid = ec_anon_gid cfg, ee_readonly = ec_readonly cfg,
      ee_secure_ports = ec_secure_ports cfg, ee_strict_readdir_cookies = ec_strict_readdir_cookies cfg,
      ee_backend = backend, ee_clients = clients, ee_nodes = ec_nodes cfg,
      ee_qos = (ec_read_bps cfg, ec_write_bps cfg, ec_iops cfg)\<rparr>"

text \<open>The builder works on the addresses collected so far; a new entry takes the next free address.\<close>

definition builder_add ::
  "pton \<Rightarrow> ExportConfig \<Rightarrow> nat option \<Rightarrow> nat list \<Rightarrow> ExportTable \<Rightarrow> (nat list \<times> ExportTable) res" where
  "builder_add inet_pton cfg backend as t =
     (case backend of
        None \<Rightarrow> Inl EINVAL
      | Some b \<Rightarrow>
          if ec_fsid cfg = 0 then Inl EINVAL
          else if list_ex (\<lambda>a. ee_fsid (xt_heap t a) = ec_fsid cfg) as then Inl EINVAL
          else try_res (parse_clients inet_pton (ec_clients cfg)) (\<lambda>clients.
                 Inr (as @ [xt_next t],
                      t\<lparr>xt_heap := (xt_heap t)(xt_next t := new_export_entry cfg b clients), xt_next := xt_next t + 1\<rparr>)))"

definition builder_finish :: "u64 \<Rightarrow> u64 \<Rightarrow> nat list \<Rightarrow> (nat \<Rightarrow> ExportEntry) \<Rightarrow> ExportSet" where
  "builder_finish epoch generation as heap =
     \<lparr>es_generation = generation, es_epoch = epoch, es_entries = sort_key (\<lambda>a. ee_fsid (heap a)) as\<rparr>"

definition publish :: "ExportSet \<Rightarrow> ExportTable \<Rightarrow> ExportTable" where
  "publish s t = t\<lparr>xt_set := s\<rparr>"

definition empty_table :: "(nat \<Rightarrow> ExportEntry) \<Rightarrow> ExportTable" where
  "empty_table heap = \<lparr>xt_heap = heap, xt_next = 0, xt_set = builder_finish 1 0 [] heap, xt_retired = []\<rparr>"

definition table_add :: "pton \<Rightarrow> ExportConfig \<Rightarrow> nat option \<Rightarrow> ExportTable \<Rightarrow> ExportTable res" where
  "table_add inet_pton cfg backend t =
     try_res (builder_add inet_pton cfg backend (es_entries (xt_set t)) t) (\<lambda>(as, t1).
       Inr (publish (builder_finish (es_epoch (xt_set t)) (es_generation (xt_set t) + 1) as (xt_heap t1)) t1))"

definition set_epoch :: "u64 \<Rightarrow> ExportTable \<Rightarrow> ExportTable" where
  "set_epoch epoch t =
     (if es_epoch (xt_set t) = epoch then t
      else publish (builder_finish epoch (es_generation (xt_set t) + 1) (es_entries (xt_set t)) (xt_heap t)) t)"

text \<open>The settings \<^verbatim>\<open>apply\<close> may change on a live entry.\<close>

definition update_entry :: "ExportConfig \<Rightarrow> Cidr list \<Rightarrow> ExportEntry \<Rightarrow> ExportEntry" where
  "update_entry cfg clients e =
     e\<lparr>ee_clients := clients, ee_qos := (ec_read_bps cfg, ec_write_bps cfg, ec_iops cfg),
       ee_readonly := ec_readonly cfg, ee_secure_ports := ec_secure_ports cfg,
       ee_strict_readdir_cookies := ec_strict_readdir_cookies cfg, ee_squash := ec_squash cfg,
       ee_anon_uid := ec_anon_uid cfg, ee_anon_gid := ec_anon_gid cfg, ee_nodes := ec_nodes cfg\<rparr>"

record ExportSetPlan =
  pl_add :: "ExportConfig list"
  pl_update :: "ExportConfig list"
  pl_remove :: "u32 list"

primrec check_removes :: "(u32 \<Rightarrow> nat option) \<Rightarrow> u32 list \<Rightarrow> u32 list \<Rightarrow> u32 list res" where
  "check_removes lookup_fsid removed [] = Inr removed"
| "check_removes lookup_fsid removed (f # fs) =
     (if lookup_fsid f = None \<or> f \<in> set removed then Inl EINVAL else check_removes lookup_fsid (f # removed) fs)"

text \<open>Answers the fsids updated and, in order, the parsed client lists.\<close>

primrec check_updates ::
  "pton \<Rightarrow> (nat \<Rightarrow> ExportEntry) \<Rightarrow> (u32 \<Rightarrow> nat option) \<Rightarrow> u32 list \<Rightarrow> u32 list \<Rightarrow> ExportConfig list \<Rightarrow> (u32 list \<times> Cidr list list) res" where
  "check_updates inet_pton heap lookup_fsid removed updated [] = Inr (updated, [])"
| "check_updates inet_pton heap lookup_fsid removed updated (c # cs) =
     (case lookup_fsid (ec_fsid c) of
        None \<Rightarrow> Inl EINVAL
      | Some a \<Rightarrow>
          if ec_fsid c \<in> set removed \<or> ec_fsid c \<in> set updated then Inl EINVAL
          else if normalize_path (ec_path c) \<noteq> ee_path (heap a) then Inl EINVAL
          else try_res (parse_clients inet_pton (ec_clients c)) (\<lambda>clients.
                 try_res (check_updates inet_pton heap lookup_fsid removed (ec_fsid c # updated) cs) (\<lambda>(us, css).
                   Inr (us, clients # css))))"

primrec check_adds ::
  "pton \<Rightarrow> (u32 \<Rightarrow> nat option) \<Rightarrow> u32 list \<Rightarrow> u32 list \<Rightarrow> u32 list \<Rightarrow> ExportConfig list \<Rightarrow> unit res" where
  "check_adds inet_pton lookup_fsid removed updated added [] = Inr ()"
| "check_adds inet_pton lookup_fsid removed updated added (c # cs) =
     (if ec_fsid c = 0 \<or> ec_fsid c \<in> set updated \<or> ec_fsid c \<in> set added then Inl EINVAL
      else if lookup_fsid (ec_fsid c) \<noteq> None \<and> ec_fsid c \<notin> set removed then Inl EINVAL
      else try_res (parse_clients inet_pton (ec_clients c)) (\<lambda>_.
             check_adds inet_pton lookup_fsid removed updated (ec_fsid c # added) cs))"

primrec add_all ::
  "pton \<Rightarrow> (ExportConfig \<times> nat option) list \<Rightarrow> nat list \<Rightarrow> ExportTable \<Rightarrow> (nat list \<times> ExportTable) res" where
  "add_all inet_pton [] as t = Inr (as, t)"
| "add_all inet_pton (p # ps) as t =
     try_res (builder_add inet_pton (fst p) (snd p) as t) (\<lambda>(as1, t1). add_all inet_pton ps as1 t1)"

definition update_all :: "(u32 \<Rightarrow> nat option) \<Rightarrow> (ExportConfig \<times> Cidr list) list \<Rightarrow> ExportTable \<Rightarrow> ExportTable" where
  "update_all lookup_fsid ps t =
     fold (\<lambda>(cfg, clients) t.
             case lookup_fsid (ec_fsid cfg) of
               None \<Rightarrow> t
             | Some a \<Rightarrow> t\<lparr>xt_heap := (xt_heap t)(a := update_entry cfg clients (xt_heap t a))\<rparr>)
       ps t"

text \<open>
  \<^verbatim>\<open>apply\<close>: \<^verbatim>\<open>now\<close> is the clock reading that stamps the retired entries.  On an error the table is the
  caller's old one.
\<close>

definition table_apply ::
  "pton \<Rightarrow> ExportSetPlan \<Rightarrow> nat option list \<Rightarrow> u64 \<Rightarrow> int \<Rightarrow> ExportTable \<Rightarrow> ExportTable res" where
  "table_apply inet_pton plan started epoch now t =
     (let current = xt_set t; lookup_fsid = by_fsid (xt_heap t) current
      in if length started \<noteq> length (pl_add plan) then Inl EINVAL
         else if list_ex (\<lambda>b. b = None) started then Inl EINVAL
         else try_res (check_removes lookup_fsid [] (pl_remove plan)) (\<lambda>removed.
              try_res (check_updates inet_pton (xt_heap t) lookup_fsid removed [] (pl_update plan)) (\<lambda>(updated, clients).
              try_res (check_adds inet_pton lookup_fsid removed updated [] (pl_add plan)) (\<lambda>_.
              let gone = filter (\<lambda>a. ee_fsid (xt_heap t a) \<in> set removed) (es_entries current);
                  kept = filter (\<lambda>a. ee_fsid (xt_heap t a) \<notin> set removed) (es_entries current)
              in try_res (add_all inet_pton (zip (pl_add plan) started) kept t) (\<lambda>(as, t1).
                 let t2 = update_all lookup_fsid (zip (pl_update plan) clients) t1;
                     t3 = publish (builder_finish epoch (es_generation current + 1) as (xt_heap t2)) t2
                 in Inr (t3\<lparr>xt_retired := xt_retired t3 @ map (\<lambda>a. (a, now)) gone\<rparr>))))))"

text \<open>\<^verbatim>\<open>take_retired\<close>: \<^verbatim>\<open>use_count\<close> is the number of owners of an entry, the queue included.\<close>

definition take_retired :: "(nat \<Rightarrow> nat) \<Rightarrow> ExportTable \<Rightarrow> nat list \<times> ExportTable" where
  "take_retired use_count t =
     (map fst (filter (\<lambda>(a, since). use_count a = 1) (xt_retired t)),
      t\<lparr>xt_retired := filter (\<lambda>(a, since). use_count a \<noteq> 1) (xt_retired t)\<rparr>)"

definition oldest_retired :: "ExportTable \<Rightarrow> int option" where
  "oldest_retired t =
     fold (\<lambda>(a, since) oldest. case oldest of None \<Rightarrow> Some since | Some t0 \<Rightarrow> if since < t0 then Some since else oldest)
       (xt_retired t) None"

section \<open>Looking an export up\<close>

lemma lower_bound_spec:
  assumes "\<And>i j. first \<le> i \<Longrightarrow> i \<le> j \<Longrightarrow> j < first + len \<Longrightarrow> below j \<Longrightarrow> below i"
  shows "first \<le> lower_bound below first len \<and> lower_bound below first len \<le> first + len \<and>
         (\<forall>i. first \<le> i \<and> i < lower_bound below first len \<longrightarrow> below i) \<and>
         (\<forall>i. lower_bound below first len \<le> i \<and> i < first + len \<longrightarrow> \<not> below i)"
  using assms
proof (induction below first len rule: lower_bound.induct)
  case (1 below first len)
  show ?case
  proof (cases "len = 0")
    case True
    then show ?thesis by (auto simp: lower_bound.simps)
  next
    case False
    define half where "half = len div 2"
    have half: "half < len" using False by (simp add: half_def)
    show ?thesis
    proof (cases "below (first + half)")
      case True
      have eq: "lower_bound below first len = lower_bound below (first + half + 1) (len - half - 1)"
        using False True by (subst lower_bound.simps) (simp add: half_def Let_def)
      have lo: "below i" if "first \<le> i" "i < first + half + 1" for i
        using "1.prems" [of i "first + half"] that True half by simp
      have ih: "first + half + 1 \<le> lower_bound below (first + half + 1) (len - half - 1)"
        "lower_bound below (first + half + 1) (len - half - 1) \<le> first + len"
        "\<And>i. first + half + 1 \<le> i \<Longrightarrow> i < lower_bound below (first + half + 1) (len - half - 1) \<Longrightarrow> below i"
        "\<And>i. lower_bound below (first + half + 1) (len - half - 1) \<le> i \<Longrightarrow> i < first + len \<Longrightarrow> \<not> below i"
        using "1.IH"(1) [OF False half_def True] "1.prems" half by auto
      show ?thesis
        unfolding eq using ih lo by (metis add_leD1 not_less order_trans)
    next
      case below: False
      have eq: "lower_bound below first len = lower_bound below first half"
        using False below by (subst lower_bound.simps) (simp add: half_def Let_def)
      have hi: "\<not> below i" if "first + half \<le> i" "i < first + len" for i
        using "1.prems" [of "first + half" i] that below by auto
      have ih: "first \<le> lower_bound below first half" "lower_bound below first half \<le> first + half"
        "\<And>i. first \<le> i \<Longrightarrow> i < lower_bound below first half \<Longrightarrow> below i"
        "\<And>i. lower_bound below first half \<le> i \<Longrightarrow> i < first + half \<Longrightarrow> \<not> below i"
        using "1.IH"(2) [OF False half_def below] "1.prems" half by auto
      show ?thesis
        unfolding eq using ih hi half by (meson add_le_cancel_left le_trans less_imp_le not_le)
    qed
  qed
qed

definition fsid_at :: "(nat \<Rightarrow> ExportEntry) \<Rightarrow> nat \<Rightarrow> u32" where
  "fsid_at heap a = ee_fsid (heap a)"

definition set_ok :: "(nat \<Rightarrow> ExportEntry) \<Rightarrow> ExportSet \<Rightarrow> bool" where
  "set_ok heap s \<longleftrightarrow> sorted_wrt (<) (map (fsid_at heap) (es_entries s)) \<and> 0 \<notin> set (map (fsid_at heap) (es_entries s))"

lemma set_ok_nth:
  "set_ok heap s \<Longrightarrow> i < j \<Longrightarrow> j < length (es_entries s) \<Longrightarrow>
   fsid_at heap (es_entries s ! i) < fsid_at heap (es_entries s ! j)"
  unfolding set_ok_def sorted_wrt_iff_nth_less by simp

lemma set_ok_inj: "set_ok heap s \<Longrightarrow> inj_on (fsid_at heap) (set (es_entries s)) \<and> distinct (es_entries s)"
  by (simp add: set_ok_def distinct_map strict_sorted_iff)

lemma by_fsid_iff:
  assumes "set_ok heap s"
  shows "by_fsid heap s f = Some a \<longleftrightarrow> a \<in> set (es_entries s) \<and> fsid_at heap a = f"
proof -
  let ?es = "es_entries s"
  let ?below = "\<lambda>i. ee_fsid (heap (?es ! i)) < f"
  define r where "r = lower_bound ?below 0 (length ?es)"
  have mono: "?below i" if "0 \<le> i" "i \<le> j" "j < 0 + length ?es" "?below j" for i j
  proof (cases "i = j")
    case False
    then have "fsid_at heap (?es ! i) < fsid_at heap (?es ! j)" using that by (intro set_ok_nth [OF assms]) simp_all
    then show ?thesis using that(4) unfolding fsid_at_def by (rule less_trans)
  qed (use that in simp)
  note spec = lower_bound_spec [of 0 "length ?es" ?below, OF mono, folded r_def]
  have r: "r \<le> length ?es" "\<And>i. i < r \<Longrightarrow> ?below i" "\<And>i. r \<le> i \<Longrightarrow> i < length ?es \<Longrightarrow> \<not> ?below i"
    using spec by simp_all
  have eq: "by_fsid heap s f = (if r \<noteq> length ?es \<and> ee_fsid (heap (?es ! r)) = f then Some (?es ! r) else None)"
    by (simp add: by_fsid_def r_def Let_def)
  show ?thesis
  proof
    assume "by_fsid heap s f = Some a"
    then show "a \<in> set ?es \<and> fsid_at heap a = f"
      using r(1) unfolding eq by (auto simp: fsid_at_def split: if_splits)
  next
    assume a: "a \<in> set ?es \<and> fsid_at heap a = f"
    then obtain i where i: "i < length ?es" "?es ! i = a" by (auto simp: in_set_conv_nth)
    have f: "ee_fsid (heap (?es ! i)) = f" using a i by (simp add: fsid_at_def)
    have "r \<le> i" using r(2) [of i] f by (meson less_irrefl not_le)
    moreover have "\<not> r < i"
    proof
      assume "r < i"
      then have "?below r" using set_ok_nth [OF assms, of r i] i f by (simp add: fsid_at_def)
      then show False using r(3) [of r] \<open>r < i\<close> i by simp
    qed
    ultimately have "r = i" by simp
    then show "by_fsid heap s f = Some a" using i f unfolding eq by simp
  qed
qed

lemma by_fsid_None:
  assumes "set_ok heap s"
  shows "by_fsid heap s f = None \<longleftrightarrow> f \<notin> fsid_at heap ` set (es_entries s)"
proof (cases "by_fsid heap s f")
  case None
  then have "\<not> (a \<in> set (es_entries s) \<and> fsid_at heap a = f)" for a using by_fsid_iff [OF assms, of f a] by simp
  then show ?thesis using None by blast
next
  case (Some a)
  then show ?thesis using by_fsid_iff [OF assms, of f a] by force
qed

section \<open>Plans\<close>

lemma parse_clients_err: "parse_clients pt cs = Inl e \<Longrightarrow> e = EINVAL"
proof (induction cs)
  case (Cons c cs)
  have "cidr_parse pt c = Inl e \<Longrightarrow> e = EINVAL" for e
    by (auto simp: cidr_parse_def cidr_prefix_def uint_value_def Let_def try_res_def split: option.splits if_splits sum.splits)
  with Cons show ?case by (auto simp: try_res_eq_Inl)
qed simp

definition parsable :: "pton \<Rightarrow> ExportConfig \<Rightarrow> bool" where
  "parsable pt c \<longleftrightarrow> (\<exists>x. parse_clients pt (ec_clients c) = Inr x)"

definition clients_of :: "pton \<Rightarrow> ExportConfig \<Rightarrow> Cidr list" where
  "clients_of pt c = projr (parse_clients pt (ec_clients c))"

lemma parse_clients_cases:
  "parse_clients pt (ec_clients c) = (if parsable pt c then Inr (clients_of pt c) else Inl EINVAL)"
  using parse_clients_err [of pt "ec_clients c"]
  by (cases "parse_clients pt (ec_clients c)") (auto simp: parsable_def clients_of_def)

lemma check_removes_eq:
  "check_removes lookup_fsid removed fs =
     (if distinct fs \<and> set fs \<inter> set removed = {} \<and> (\<forall>f\<in>set fs. lookup_fsid f \<noteq> None) then Inr (rev fs @ removed) else Inl EINVAL)"
  by (induction fs arbitrary: removed) auto

lemma check_updates_eq:
  "check_updates pt heap lookup_fsid removed updated cs =
     (if distinct (map ec_fsid cs) \<and> ec_fsid ` set cs \<inter> (set removed \<union> set updated) = {} \<and>
         (\<forall>c\<in>set cs. parsable pt c \<and> (\<exists>a. lookup_fsid (ec_fsid c) = Some a \<and> normalize_path (ec_path c) = ee_path (heap a)))
      then Inr (rev (map ec_fsid cs) @ updated, map (clients_of pt) cs) else Inl EINVAL)"
  by (induction cs arbitrary: updated) (auto simp: parse_clients_cases split: option.split)

lemma check_adds_eq:
  "check_adds pt lookup_fsid removed updated added cs =
     (if distinct (map ec_fsid cs) \<and> ec_fsid ` set cs \<inter> set added = {} \<and> ec_fsid ` set cs \<inter> set updated = {} \<and>
         (\<forall>c\<in>set cs. ec_fsid c \<noteq> 0 \<and> parsable pt c \<and> (lookup_fsid (ec_fsid c) \<noteq> None \<longrightarrow> ec_fsid c \<in> set removed))
      then Inr () else Inl EINVAL)"
  by (induction cs arbitrary: added) (auto simp: parse_clients_cases)

lemma add_all_ok:
  assumes "\<And>a. a \<in> set as \<Longrightarrow> a < xt_next t"
    and "distinct (map (\<lambda>p. ec_fsid (fst p)) ps)"
    and "fsid_at (xt_heap t) ` set as \<inter> (\<lambda>p. ec_fsid (fst p)) ` set ps = {}"
    and "\<And>p. p \<in> set ps \<Longrightarrow> ec_fsid (fst p) \<noteq> 0 \<and> parsable pt (fst p) \<and> snd p \<noteq> None"
  shows "\<exists>t'. add_all pt ps as t = Inr (as @ [xt_next t..<xt_next t + length ps], t') \<and>
           xt_next t' = xt_next t + length ps \<and> xt_set t' = xt_set t \<and> xt_retired t' = xt_retired t \<and>
           (\<forall>a<xt_next t. xt_heap t' a = xt_heap t a) \<and>
           map (xt_heap t') [xt_next t..<xt_next t + length ps] =
             map (\<lambda>p. new_export_entry (fst p) (the (snd p)) (clients_of pt (fst p))) ps"
  using assms
proof (induction ps arbitrary: as t)
  case (Cons p ps)
  define n where "n = xt_next t"
  define e where "e = new_export_entry (fst p) (the (snd p)) (clients_of pt (fst p))"
  define t1 where "t1 = t\<lparr>xt_heap := (xt_heap t)(n := e), xt_next := n + 1\<rparr>"
  have p: "ec_fsid (fst p) \<noteq> 0" "parsable pt (fst p)" "snd p \<noteq> None" using Cons.prems(4) [of p] by simp_all
  have new: "\<not> list_ex (\<lambda>a. ee_fsid (xt_heap t a) = ec_fsid (fst p)) as"
    using Cons.prems(3) unfolding list_ex_iff fsid_at_def by force
  have step: "builder_add pt (fst p) (snd p) as t = Inr (as @ [n], t1)"
    using p new by (auto simp: builder_add_def parse_clients_cases t1_def e_def n_def)
  have below: "fsid_at (xt_heap t1) a = fsid_at (xt_heap t) a" if "a < n" for a
    using that by (simp add: t1_def fsid_at_def)
  have fresh: "fsid_at (xt_heap t1) n = ec_fsid (fst p)" by (simp add: t1_def fsid_at_def e_def new_export_entry_def)
  have img: "fsid_at (xt_heap t1) ` set (as @ [n]) = insert (ec_fsid (fst p)) (fsid_at (xt_heap t) ` set as)"
    using image_cong [of "set as" "set as" "fsid_at (xt_heap t1)" "fsid_at (xt_heap t)"] below Cons.prems(1) fresh
    by (simp add: n_def)
  have p1: "a < xt_next t1" if "a \<in> set (as @ [n])" for a
    using that Cons.prems(1) [of a] by (auto simp: t1_def n_def)
  have p2: "distinct (map (\<lambda>p. ec_fsid (fst p)) ps)" using Cons.prems(2) by simp
  have p3: "fsid_at (xt_heap t1) ` set (as @ [n]) \<inter> (\<lambda>p. ec_fsid (fst p)) ` set ps = {}"
    unfolding img using Cons.prems(2,3) by auto
  have next1: "xt_next t1 = n + 1" by (simp add: t1_def)
  obtain t' where t': "add_all pt ps (as @ [n]) t1 = Inr ((as @ [n]) @ [n + 1..<n + 1 + length ps], t')"
    "xt_next t' = n + 1 + length ps" "xt_set t' = xt_set t1" "xt_retired t' = xt_retired t1"
    "\<forall>a<n + 1. xt_heap t' a = xt_heap t1 a"
    "map (xt_heap t') [n + 1..<n + 1 + length ps] =
       map (\<lambda>p. new_export_entry (fst p) (the (snd p)) (clients_of pt (fst p))) ps"
    using Cons.IH [OF p1 p2 p3 Cons.prems(4) [OF list.set_intros(2)], unfolded next1] by blast
  have upt: "[n..<n + length (p # ps)] = n # [n + 1..<n + 1 + length ps]"
    using upt_conv_Cons [of n "n + 1 + length ps"] by (simp del: upt_Suc)
  have "xt_heap t' n = e" using t'(5) by (simp add: t1_def)
  then show ?case
    unfolding n_def [symmetric] upt using step t'
    by (intro exI [of _ t']) (simp add: e_def t1_def del: upt_Suc)
qed auto

definition update_spec :: "(u32 \<Rightarrow> nat option) \<Rightarrow> (ExportConfig \<times> Cidr list) list \<Rightarrow> (nat \<Rightarrow> ExportEntry) \<Rightarrow> nat \<Rightarrow> ExportEntry" where
  "update_spec look ps heap a =
     fold (\<lambda>(cfg, clients) e. if look (ec_fsid cfg) = Some a then update_entry cfg clients e else e) ps (heap a)"

lemma update_all_eq: "update_all look ps t = t\<lparr>xt_heap := update_spec look ps (xt_heap t)\<rparr>"
proof (induction ps arbitrary: t)
  case Nil
  then show ?case by (simp add: update_all_def update_spec_def)
next
  case (Cons p ps)
  obtain cfg clients where p: "p = (cfg, clients)" by (cases p)
  show ?case
  proof (cases "look (ec_fsid cfg)")
    case None
    then show ?thesis using Cons [of t] by (simp add: update_all_def update_spec_def p)
  next
    case (Some a)
    have "update_spec look ps ((xt_heap t)(a := update_entry cfg clients (xt_heap t a))) =
          update_spec look (p # ps) (xt_heap t)"
      using Some by (auto simp: update_spec_def p fun_eq_iff)
    then show ?thesis using Some Cons [of "t\<lparr>xt_heap := (xt_heap t)(a := update_entry cfg clients (xt_heap t a))\<rparr>"]
      by (simp add: update_all_def p fun_upd_def)
  qed
qed

lemma update_entry_identity [simp]:
  "ee_fsid (update_entry c cl e) = ee_fsid e" "ee_path (update_entry c cl e) = ee_path e"
  "ee_backend (update_entry c cl e) = ee_backend e"
  by (simp_all add: update_entry_def)

lemma update_spec_identity:
  "ee_fsid (update_spec look ps heap a) = ee_fsid (heap a)" "ee_path (update_spec look ps heap a) = ee_path (heap a)"
  "ee_backend (update_spec look ps heap a) = ee_backend (heap a)"
proof -
  have "ee_fsid (fold f ps e) = ee_fsid e \<and> ee_path (fold f ps e) = ee_path e \<and> ee_backend (fold f ps e) = ee_backend e"
    if "f = (\<lambda>(cfg, clients) e. if look (ec_fsid cfg) = Some a then update_entry cfg clients e else e)" for f e
    using that by (induction ps arbitrary: e) auto
  then show "ee_fsid (update_spec look ps heap a) = ee_fsid (heap a)"
    "ee_path (update_spec look ps heap a) = ee_path (heap a)"
    "ee_backend (update_spec look ps heap a) = ee_backend (heap a)"
    by (simp_all add: update_spec_def)
qed

lemma update_spec_other:
  assumes "\<And>c cl. (c, cl) \<in> set ps \<Longrightarrow> look (ec_fsid c) \<noteq> Some a"
  shows "update_spec look ps heap a = heap a"
proof -
  have "fold (\<lambda>(cfg, clients) e. if look (ec_fsid cfg) = Some a then update_entry cfg clients e else e) ps e = e" for e
    using assms by (induction ps) fastforce+
  then show ?thesis by (simp add: update_spec_def)
qed

lemma update_spec_at:
  assumes "distinct (map (\<lambda>p. ec_fsid (fst p)) ps)" "(c, cl) \<in> set ps" "look (ec_fsid c) = Some a"
    and "\<And>f g. look f = Some a \<Longrightarrow> look g = Some a \<Longrightarrow> f = g"
  shows "update_spec look ps heap a = update_entry c cl (heap a)"
  using assms(1,2)
proof (induction ps arbitrary: heap)
  case (Cons p ps)
  show ?case
  proof (cases "p = (c, cl)")
    case True
    have "look (ec_fsid d) \<noteq> Some a" if "(d, dl) \<in> set ps" for d dl
      using Cons.prems(1) True assms(3,4) that by force
    then have "update_spec look ps (\<lambda>_. update_entry c cl (heap a)) a = update_entry c cl (heap a)"
      by (rule update_spec_other)
    then show ?thesis using True assms(3) by (simp add: update_spec_def)
  next
    case False
    then have m: "(c, cl) \<in> set ps" using Cons.prems(2) by auto
    then have "look (ec_fsid (fst p)) \<noteq> Some a" using Cons.prems(1) assms(3,4) by force
    then have "update_spec look (p # ps) heap a = update_spec look ps heap a"
      by (cases p) (simp add: update_spec_def)
    then show ?thesis using Cons.IH m Cons.prems(1) by simp
  qed
qed simp

section \<open>Replacing the published set\<close>

definition fsids :: "ExportTable \<Rightarrow> u32 list" where
  "fsids t = map (fsid_at (xt_heap t)) (es_entries (xt_set t))"

definition table_ok :: "ExportTable \<Rightarrow> bool" where
  "table_ok t \<longleftrightarrow>
     set_ok (xt_heap t) (xt_set t) \<and>
     list_all (\<lambda>a. a < xt_next t) (es_entries (xt_set t) @ map fst (xt_retired t)) \<and>
     distinct (es_entries (xt_set t) @ map fst (xt_retired t))"

text \<open>The plans \<^verbatim>\<open>apply\<close> accepts, as its comment lists them.\<close>

definition plan_ok :: "pton \<Rightarrow> ExportSetPlan \<Rightarrow> nat option list \<Rightarrow> ExportTable \<Rightarrow> bool" where
  "plan_ok pt plan started t \<longleftrightarrow>
     length started = length (pl_add plan) \<and> None \<notin> set started \<and>
     distinct (pl_remove plan) \<and> set (pl_remove plan) \<subseteq> set (fsids t) \<and>
     distinct (map ec_fsid (pl_update plan)) \<and>
     list_all (\<lambda>c. parsable pt c \<and> ec_fsid c \<notin> set (pl_remove plan) \<and>
        list_ex (\<lambda>a. fsid_at (xt_heap t) a = ec_fsid c \<and> normalize_path (ec_path c) = ee_path (xt_heap t a))
          (es_entries (xt_set t))) (pl_update plan) \<and>
     distinct (map ec_fsid (pl_add plan)) \<and>
     list_all (\<lambda>c. parsable pt c \<and> ec_fsid c \<noteq> 0 \<and> ec_fsid c \<notin> ec_fsid ` set (pl_update plan) \<and>
        (ec_fsid c \<in> set (fsids t) \<longrightarrow> ec_fsid c \<in> set (pl_remove plan))) (pl_add plan)"

definition kept :: "ExportSetPlan \<Rightarrow> ExportTable \<Rightarrow> nat list" where
  "kept plan t = filter (\<lambda>a. fsid_at (xt_heap t) a \<notin> set (pl_remove plan)) (es_entries (xt_set t))"

definition gone :: "ExportSetPlan \<Rightarrow> ExportTable \<Rightarrow> nat list" where
  "gone plan t = filter (\<lambda>a. fsid_at (xt_heap t) a \<in> set (pl_remove plan)) (es_entries (xt_set t))"

abbreviation look :: "ExportTable \<Rightarrow> u32 \<Rightarrow> nat option" where
  "look t \<equiv> by_fsid (xt_heap t) (xt_set t)"

text \<open>What an accepted plan computes: new entries at the next addresses, then the updates in place.\<close>

lemma table_apply_eq:
  assumes "set_ok (xt_heap t) (xt_set t)"
  shows "table_apply pt plan started epoch now t =
     (if \<not> plan_ok pt plan started t then Inl EINVAL
      else try_res (add_all pt (zip (pl_add plan) started) (kept plan t) t) (\<lambda>(as, t1).
             let heap = update_spec (look t) (zip (pl_update plan) (map (clients_of pt) (pl_update plan))) (xt_heap t1)
             in Inr (t1\<lparr>xt_heap := heap,
                       xt_set := builder_finish epoch (es_generation (xt_set t) + 1) as heap,
                       xt_retired := xt_retired t1 @ map (\<lambda>a. (a, now)) (gone plan t)\<rparr>)))"
proof -
  have look: "look t f \<noteq> None \<longleftrightarrow> f \<in> set (fsids t)" for f
    using by_fsid_None [OF assms, of f] by (simp add: fsids_def)
  have upd: "(\<exists>a. look t (ec_fsid c) = Some a \<and> P a) \<longleftrightarrow>
             list_ex (\<lambda>a. fsid_at (xt_heap t) a = ec_fsid c \<and> P a) (es_entries (xt_set t))" for c P
    using by_fsid_iff [OF assms, of "ec_fsid c"] by (auto simp: list_ex_iff)
  define L where "L \<longleftrightarrow> length started = length (pl_add plan)"
  define S where "S \<longleftrightarrow> None \<notin> set started"
  define R where "R \<longleftrightarrow> distinct (pl_remove plan) \<and> set (pl_remove plan) \<subseteq> set (fsids t)"
  define U where "U \<longleftrightarrow> distinct (map ec_fsid (pl_update plan)) \<and>
     list_all (\<lambda>c. parsable pt c \<and> ec_fsid c \<notin> set (pl_remove plan) \<and>
        list_ex (\<lambda>a. fsid_at (xt_heap t) a = ec_fsid c \<and> normalize_path (ec_path c) = ee_path (xt_heap t a))
          (es_entries (xt_set t))) (pl_update plan)"
  define A where "A \<longleftrightarrow> distinct (map ec_fsid (pl_add plan)) \<and>
     list_all (\<lambda>c. parsable pt c \<and> ec_fsid c \<noteq> 0 \<and> ec_fsid c \<notin> ec_fsid ` set (pl_update plan) \<and>
        (ec_fsid c \<in> set (fsids t) \<longrightarrow> ec_fsid c \<in> set (pl_remove plan))) (pl_add plan)"
  have plan: "plan_ok pt plan started t \<longleftrightarrow> L \<and> S \<and> R \<and> U \<and> A"
    unfolding plan_ok_def L_def S_def R_def U_def A_def by simp
  have s: "list_ex (\<lambda>b. b = None) started \<longleftrightarrow> \<not> S" by (auto simp: list_ex_iff S_def)
  have r: "check_removes (look t) [] (pl_remove plan) = (if R then Inr (rev (pl_remove plan)) else Inl EINVAL)"
    unfolding check_removes_eq look R_def by auto
  have u: "check_updates pt (xt_heap t) (look t) (rev (pl_remove plan)) [] (pl_update plan) =
      (if U then Inr (rev (map ec_fsid (pl_update plan)), map (clients_of pt) (pl_update plan)) else Inl EINVAL)"
    unfolding check_updates_eq upd U_def list_all_iff by auto
  have a: "check_adds pt (look t) (rev (pl_remove plan)) (rev (map ec_fsid (pl_update plan))) [] (pl_add plan) =
      (if A then Inr () else Inl EINVAL)"
    unfolding check_adds_eq look A_def list_all_iff by auto
  have keep: "filter (\<lambda>a. ee_fsid (xt_heap t a) \<notin> set (rev (pl_remove plan))) (es_entries (xt_set t)) = kept plan t"
    "filter (\<lambda>a. ee_fsid (xt_heap t a) \<in> set (rev (pl_remove plan))) (es_entries (xt_set t)) = gone plan t"
    by (simp_all add: kept_def gone_def fsid_at_def)
  show ?thesis
    unfolding table_apply_def Let_def r s plan L_def [symmetric]
    by (cases L; cases S; cases R; cases U; cases A)
       (simp_all only: if_True if_False simp_thms try_res_simps u a keep prod.case update_all_eq publish_def
          split: if_split, simp_all add: try_res_def split: sum.split)
qed

lemma adds_disjoint:
  assumes "plan_ok pt plan started t"
  shows "fsid_at (xt_heap t) ` set (kept plan t) \<inter> ec_fsid ` set (pl_add plan) = {}"
proof -
  have "fsid_at (xt_heap t) a \<noteq> ec_fsid c" if "a \<in> set (kept plan t)" "c \<in> set (pl_add plan)" for a c
  proof
    assume eq: "fsid_at (xt_heap t) a = ec_fsid c"
    have a: "a \<in> set (es_entries (xt_set t))" "ec_fsid c \<notin> set (pl_remove plan)"
      using that(1) by (simp_all add: kept_def flip: eq)
    then have "ec_fsid c \<in> set (fsids t)" unfolding eq [symmetric] by (simp add: fsids_def)
    then show False using assms that(2) a(2) by (simp add: plan_ok_def list_all_iff)
  qed
  then show ?thesis by blast
qed

lemma mapas_distinct:
  assumes "set_ok (xt_heap t) (xt_set t)" "plan_ok pt plan started t"
  shows "distinct (map (fsid_at (xt_heap t)) (kept plan t) @ map ec_fsid (pl_add plan))"
proof -
  have "distinct (map (fsid_at (xt_heap t)) (kept plan t))"
    using set_ok_inj [OF assms(1)] by (auto simp: distinct_map kept_def inj_on_def)
  moreover have "distinct (map ec_fsid (pl_add plan))" using assms(2) by (simp add: plan_ok_def)
  moreover have "set (map (fsid_at (xt_heap t)) (kept plan t)) \<inter> set (map ec_fsid (pl_add plan)) = {}"
    using adds_disjoint [OF assms(2)] by simp
  ultimately show ?thesis by simp
qed

lemma sort_strict: "distinct (map f xs) \<Longrightarrow> sorted_wrt (<) (map f (sort_key f xs))"
  by (simp add: strict_sorted_iff distinct_map)

text \<open>The parts of a successful \<^verbatim>\<open>apply\<close>, for an accepted plan on a well-formed table.\<close>

lemma apply_accepted:
  assumes ok: "table_ok t" and plan: "plan_ok pt plan started t"
  shows "\<exists>t' as. table_apply pt plan started epoch now t = Inr t' \<and>
     as = kept plan t @ [xt_next t..<xt_next t + length (pl_add plan)] \<and>
     xt_next t' = xt_next t + length (pl_add plan) \<and>
     xt_set t' = builder_finish epoch (es_generation (xt_set t) + 1) as (xt_heap t') \<and>
     xt_retired t' = xt_retired t @ map (\<lambda>a. (a, now)) (gone plan t) \<and>
     (\<forall>a<xt_next t. xt_heap t' a = update_spec (look t) (zip (pl_update plan) (map (clients_of pt) (pl_update plan))) (xt_heap t) a) \<and>
     map (fsid_at (xt_heap t')) [xt_next t..<xt_next t + length (pl_add plan)] = map ec_fsid (pl_add plan)"
proof -
  have set: "set_ok (xt_heap t) (xt_set t)" using ok by (simp add: table_ok_def)
  let ?ps = "zip (pl_add plan) started"
  let ?n = "xt_next t"
  have started: "length started = length (pl_add plan)" using plan by (simp add: plan_ok_def)
  have len: "length ?ps = length (pl_add plan)" "map fst ?ps = pl_add plan" using started by simp_all
  have cfg: "map (\<lambda>p. ec_fsid (fst p)) ?ps = map ec_fsid (pl_add plan)"
    using arg_cong [OF len(2), of "map ec_fsid"] by (simp add: comp_def)
  have p1: "a < ?n" if "a \<in> set (kept plan t)" for a
    using ok that by (auto simp: table_ok_def kept_def list_all_iff)
  have p2: "distinct (map (\<lambda>p. ec_fsid (fst p)) ?ps)" unfolding cfg using plan by (simp add: plan_ok_def)
  have img: "(\<lambda>p. ec_fsid (fst p)) ` set ?ps = ec_fsid ` set (pl_add plan)"
    using arg_cong [OF cfg, of set] by simp
  have p3: "fsid_at (xt_heap t) ` set (kept plan t) \<inter> (\<lambda>p. ec_fsid (fst p)) ` set ?ps = {}"
    unfolding img by (rule adds_disjoint [OF plan])
  have p4: "ec_fsid (fst p) \<noteq> 0 \<and> parsable pt (fst p) \<and> snd p \<noteq> None" if "p \<in> set ?ps" for p
  proof -
    have "fst p \<in> set (pl_add plan)" "snd p \<in> set started"
      using that set_zip_leftD [of "fst p" "snd p"] set_zip_rightD [of "fst p" "snd p"] by (metis prod.collapse)+
    moreover have "None \<notin> set started" "\<forall>c\<in>set (pl_add plan). parsable pt c \<and> ec_fsid c \<noteq> 0"
      using plan by (simp_all add: plan_ok_def list_all_iff)
    ultimately show ?thesis by metis
  qed
  obtain t1 where t1: "add_all pt ?ps (kept plan t) t = Inr (kept plan t @ [?n..<?n + length ?ps], t1)"
    "xt_next t1 = ?n + length ?ps" "xt_set t1 = xt_set t" "xt_retired t1 = xt_retired t"
    "\<forall>a<?n. xt_heap t1 a = xt_heap t a"
    "map (xt_heap t1) [?n..<?n + length ?ps] = map (\<lambda>p. new_export_entry (fst p) (the (snd p)) (clients_of pt (fst p))) ?ps"
    using add_all_ok [OF p1 p2 p3 p4] by blast
  let ?us = "zip (pl_update plan) (map (clients_of pt) (pl_update plan))"
  define heap where "heap = update_spec (look t) ?us (xt_heap t1)"
  have new: "map (fsid_at heap) [?n..<?n + length ?ps] = map ec_fsid (pl_add plan)"
    using arg_cong [OF t1(6), of "map ee_fsid"] cfg
    by (simp add: comp_def heap_def fsid_at_def [abs_def] update_spec_identity new_export_entry_def del: upt_Suc)
  have old: "\<forall>a<?n. heap a = update_spec (look t) ?us (xt_heap t) a"
    using t1(5) by (simp add: heap_def update_spec_def)
  show ?thesis
    unfolding table_apply_eq [OF set] using plan t1 new old len(1)
    by (simp add: Let_def heap_def [symmetric])
qed

text \<open>The new set is well formed and serves what the plan says.\<close>

lemma apply_set:
  assumes ok: "table_ok t" and plan: "plan_ok pt plan started t"
    and t': "xt_next t' = xt_next t + length (pl_add plan)"
      "xt_set t' = builder_finish epoch g (kept plan t @ [xt_next t..<xt_next t + length (pl_add plan)]) (xt_heap t')"
      "xt_retired t' = xt_retired t @ map (\<lambda>a. (a, now)) (gone plan t)"
      "map (fsid_at (xt_heap t')) [xt_next t..<xt_next t + length (pl_add plan)] = map ec_fsid (pl_add plan)"
    and same: "\<And>a. a < xt_next t \<Longrightarrow> fsid_at (xt_heap t') a = fsid_at (xt_heap t) a"
  shows "table_ok t'" "set (fsids t') = set (fsids t) - set (pl_remove plan) \<union> ec_fsid ` set (pl_add plan)"
    "set (kept plan t) = set (es_entries (xt_set t)) \<inter> set (es_entries (xt_set t'))"
proof -
  let ?n = "xt_next t" and ?as = "kept plan t @ [xt_next t..<xt_next t + length (pl_add plan)]"
  have set: "set_ok (xt_heap t) (xt_set t)" using ok by (simp add: table_ok_def)
  have bound: "a < ?n" if "a \<in> set (es_entries (xt_set t))" for a
    using ok that by (simp add: table_ok_def list_all_iff)
  have keptf: "map (fsid_at (xt_heap t')) (kept plan t) = map (fsid_at (xt_heap t)) (kept plan t)"
    using same bound by (auto simp: kept_def)
  have mapas: "map (fsid_at (xt_heap t')) ?as = map (fsid_at (xt_heap t)) (kept plan t) @ map ec_fsid (pl_add plan)"
    using keptf t'(4) by simp
  have dist: "distinct (map (fsid_at (xt_heap t')) ?as)"
    using mapas_distinct [OF set plan] unfolding mapas .
  have entries: "es_entries (xt_set t') = sort_key (fsid_at (xt_heap t')) ?as"
    unfolding t'(2) by (simp add: builder_finish_def fsid_at_def [abs_def])
  have "set (fsids t') = set (map (fsid_at (xt_heap t')) ?as)" by (simp add: fsids_def entries image_Un)
  also have "\<dots> = set (map (fsid_at (xt_heap t)) (kept plan t)) \<union> ec_fsid ` set (pl_add plan)" unfolding mapas by simp
  also have "set (map (fsid_at (xt_heap t)) (kept plan t)) = set (fsids t) - set (pl_remove plan)"
    by (auto simp: fsids_def kept_def)
  finally show fs: "set (fsids t') = set (fsids t) - set (pl_remove plan) \<union> ec_fsid ` set (pl_add plan)" .
  have "0 \<notin> set (fsids t)" "\<forall>c\<in>set (pl_add plan). ec_fsid c \<noteq> 0"
    using set plan by (simp_all add: set_ok_def fsids_def plan_ok_def list_all_iff)
  then have "0 \<notin> set (fsids t')" unfolding fs by force
  then have setok: "set_ok (xt_heap t') (xt_set t')"
    using sort_strict [OF dist] by (simp add: set_ok_def fsids_def entries)
  show "table_ok t'"
  proof -
    have old: "list_all (\<lambda>a. a < ?n) (es_entries (xt_set t) @ map fst (xt_retired t))"
      "distinct (es_entries (xt_set t) @ map fst (xt_retired t))" using ok by (simp_all add: table_ok_def)
    have perm: "set (es_entries (xt_set t')) = set (kept plan t) \<union> {?n..<?n + length (pl_add plan)}" by (simp add: entries)
    have ret: "map fst (xt_retired t') = map fst (xt_retired t) @ gone plan t" using t'(3) by (simp add: comp_def)
    have sub: "set (kept plan t) \<subseteq> set (es_entries (xt_set t))" "set (gone plan t) \<subseteq> set (es_entries (xt_set t))"
      "set (kept plan t) \<inter> set (gone plan t) = {}" "distinct (gone plan t)"
      using old(2) by (auto simp: kept_def gone_def)
    have lt: "a < ?n" if "a \<in> set (es_entries (xt_set t)) \<union> set (map fst (xt_retired t))" for a
      using old(1) that unfolding list_all_iff set_append by blast
    have "a < xt_next t'" if "a \<in> set (es_entries (xt_set t')) \<union> set (map fst (xt_retired t) @ gone plan t)" for a
    proof -
      have "a < ?n \<or> a < ?n + length (pl_add plan)" using that lt sub unfolding perm set_append by auto
      then show ?thesis unfolding t'(1) by linarith
    qed
    then have b: "list_all (\<lambda>a. a < xt_next t') (es_entries (xt_set t') @ map fst (xt_retired t'))"
      unfolding ret list_all_iff set_append by blast
    have apart: "set (es_entries (xt_set t)) \<inter> set (map fst (xt_retired t)) = {}" "distinct (map fst (xt_retired t))"
      using old(2) by simp_all
    have "a \<notin> set (map fst (xt_retired t)) \<union> set (gone plan t)" if "a \<in> set (es_entries (xt_set t'))" for a
    proof (cases "a < ?n")
      case True
      then have "a \<in> set (kept plan t)" using that unfolding perm by simp
      then show ?thesis using sub apart(1) by blast
    next
      case False
      then show ?thesis using lt [of a] sub(2) by blast
    qed
    then have d: "distinct (es_entries (xt_set t') @ map fst (xt_retired t'))"
      unfolding ret distinct_append using apart sub set_ok_inj [OF setok] by auto
    show ?thesis using setok b d by (simp add: table_ok_def)
  qed
  show "set (kept plan t) = set (es_entries (xt_set t)) \<inter> set (es_entries (xt_set t'))"
    using bound unfolding entries by (fastforce simp: kept_def)
qed


section \<open>Address prefixes\<close>

definition byte_bits :: "u8 \<Rightarrow> bool list" where
  "byte_bits b = map (\<lambda>i. bit b (7 - i)) [0..<8]"

definition addr_bits :: "bytes \<Rightarrow> bool list" where
  "addr_bits bs = concat (map byte_bits bs)"

lemma length_byte_bits [simp]: "length (byte_bits b) = 8"
  by (simp add: byte_bits_def)

lemma length_addr_bits [simp]: "length (addr_bits bs) = 8 * length bs"
  by (induction bs) (simp_all add: addr_bits_def)

lemma addr_bits_Cons: "addr_bits (b # bs) = byte_bits b @ addr_bits bs"
  by (simp add: addr_bits_def)

lemma take_byte_bits: "p \<le> 8 \<Longrightarrow> take p (byte_bits b) = take p (byte_bits c) \<longleftrightarrow> (\<forall>i<p. bit b (7 - i) = bit c (7 - i))"
  by (auto simp: byte_bits_def take_map list_eq_iff_nth_eq)

lemma byte_bits_inj: "byte_bits b = byte_bits c \<longleftrightarrow> b = c"
proof
  assume "byte_bits b = byte_bits c"
  then have h: "\<forall>i<8. bit b (7 - i) = bit c (7 - i)" using take_byte_bits [of 8 b c] by simp
  show "b = c"
  proof (rule bit_word_eqI)
    fix n assume "n < LENGTH(8)"
    then show "bit b n \<longleftrightarrow> bit c n" using h [rule_format, of "7 - n"] by simp
  qed
qed simp

lemma mask_bits:
  fixes b c :: u8
  assumes "p \<le> 8"
  shows "b AND push_bit (8 - p) 0xff = c AND push_bit (8 - p) 0xff \<longleftrightarrow> take p (byte_bits b) = take p (byte_bits c)"
proof -
  have ff: "bit (0xff :: u8) n \<longleftrightarrow> n < 8" for n
  proof -
    have "(0xff :: u8) = mask 8" by (simp add: mask_eq_exp_minus_1)
    then show ?thesis by (simp only: bit_mask_iff) auto
  qed
  have m: "bit (x AND push_bit (8 - p) 0xff) n \<longleftrightarrow> 8 - p \<le> n \<and> n < 8 \<and> bit x n" for x :: u8 and n
    using bit_imp_le_length [of x n] unfolding bit_and_iff bit_push_bit_iff ff by auto
  have "b AND push_bit (8 - p) 0xff = c AND push_bit (8 - p) 0xff \<longleftrightarrow> (\<forall>n. 8 - p \<le> n \<and> n < 8 \<longrightarrow> bit b n = bit c n)"
    unfolding bit_eq_iff m by auto
  also have "\<dots> \<longleftrightarrow> (\<forall>i<p. bit b (7 - i) = bit c (7 - i))"
  proof safe
    fix i assume "\<forall>n. 8 - p \<le> n \<and> n < 8 \<longrightarrow> bit b n = bit c n" "i < p"
    moreover have "8 - p \<le> 7 - i" "7 - i < 8" using \<open>i < p\<close> assms by auto
    ultimately show "bit b (7 - i) \<Longrightarrow> bit c (7 - i)" "bit c (7 - i) \<Longrightarrow> bit b (7 - i)" by blast+
  next
    fix n assume h: "\<forall>i<p. bit b (7 - i) = bit c (7 - i)" "8 - p \<le> n" "n < 8"
    have "7 - n < p" "7 - (7 - n) = n" using h(2,3) assms by auto
    then show "bit b n \<Longrightarrow> bit c n" "bit c n \<Longrightarrow> bit b n" using h(1) by metis+
  qed
  finally show ?thesis using take_byte_bits [OF assms] by simp
qed

lemma prefix_bits:
  assumes "n \<le> 8 * length xs" "n \<le> 8 * length ys"
  shows "take n (addr_bits xs) = take n (addr_bits ys) \<longleftrightarrow>
     take (n div 8) xs = take (n div 8) ys \<and>
     (n mod 8 = 0 \<or> take (n mod 8) (byte_bits (xs ! (n div 8))) = take (n mod 8) (byte_bits (ys ! (n div 8))))"
  using assms
proof (induction xs arbitrary: n ys)
  case Nil
  then show ?case by simp
next
  case (Cons x xs)
  show ?case
  proof (cases "n < 8")
    case True
    then show ?thesis using Cons.prems by (cases ys) (auto simp: addr_bits_Cons)
  next
    case False
    then obtain m where n: "n = m + 8" by (metis add.commute le_Suc_ex not_less)
    obtain y ys' where ys: "ys = y # ys'" using Cons.prems False by (cases ys) auto
    have t: "take n (addr_bits (x # xs)) = byte_bits x @ take m (addr_bits xs)"
      "take n (addr_bits (y # ys')) = byte_bits y @ take m (addr_bits ys')"
      by (simp_all add: addr_bits_Cons n)
    have dm: "n div 8 = Suc (m div 8)" "n mod 8 = m mod 8" by (simp_all add: n)
    have m: "m \<le> 8 * length xs" "m \<le> 8 * length ys'" using Cons.prems by (simp_all add: n ys)
    show ?thesis unfolding ys t dm using Cons.IH [OF m] by (simp add: byte_bits_inj)
  qed
qed


section \<open>Squashing\<close>


section \<open>Witnesses\<close>

definition demo_pton :: pton where
  "demo_pton fam host = (if fam = AF_INET \<and> host = ''10.0.0.0'' then Some [10, 0, 0, 0] else None)"

definition demo_export :: ExportConfig where
  "demo_export = default_export_config\<lparr>ec_path := ''/data'', ec_fsid := 7, ec_clients := [''10.0.0.0/9'']\<rparr>"

definition demo_table :: ExportTable where
  "demo_table = empty_table (\<lambda>_. new_export_entry demo_export 0 [])"

definition demo_plan :: ExportSetPlan where
  "demo_plan = \<lparr>pl_add = [demo_export], pl_update = [], pl_remove = []\<rparr>"

definition demo_cidr :: Cidr where
  "demo_cidr = \<lparr>ci_family = AF_INET, ci_address = pad_address [10, 0, 0, 0], ci_prefix = 9, ci_text = ''10.0.0.0/9''\<rparr>"

lemma demo_parsed: "cidr_parse demo_pton ''10.0.0.0/9'' = Inr demo_cidr"
  by (simp add: cidr_parse_def demo_pton_def c_str_def cidr_prefix_def uint_value_def trim_def isspace_def isdigit_def
      dec_value_def demo_cidr_def Let_def)

lemma demo_table_ok: "table_ok demo_table"
  by (simp add: table_ok_def set_ok_def demo_table_def empty_table_def builder_finish_def)

lemma demo_plan_ok: "plan_ok demo_pton demo_plan [Some 1] demo_table"
  by (simp add: plan_ok_def demo_plan_def demo_table_def empty_table_def builder_finish_def fsids_def parsable_def
      demo_export_def demo_parsed)



definition demo_squashing :: ExportEntry where
  "demo_squashing = new_export_entry demo_export 1 [demo_cidr]"


section \<open>Hot reload\<close>

text \<open>The lines of the report \<^verbatim>\<open>reload_dynamic\<close> returns, without their wording.\<close>

datatype ReloadNote =
    NewExport u32
  | IdentityChanged u32
  | NodesChanged u32
  | Applied u32 nat
  | RemovedFromConfig u32

text \<open>
  One configured export.  The client list is dereferenced without a check, which relies on an earlier
  validation: the value None stands for a list that does not parse.
\<close>

definition reload_one ::
  "pton \<Rightarrow> (u32 \<Rightarrow> nat option) \<Rightarrow> ExportConfig \<Rightarrow> ReloadNote list \<times> ExportTable \<Rightarrow> (ReloadNote list \<times> ExportTable) option" where
  "reload_one inet_pton lookup_fsid cfg = (\<lambda>(report, t).
     case lookup_fsid (ec_fsid cfg) of
       None \<Rightarrow> Some (report @ [NewExport (ec_fsid cfg)], t)
     | Some a \<Rightarrow>
         let e = xt_heap t a;
             changed = (normalize_path (ec_path cfg) \<noteq> ee_path e \<or> ec_squash cfg \<noteq> ee_squash e \<or>
               ec_readonly cfg \<noteq> ee_readonly e \<or> ec_anon_uid cfg \<noteq> ee_anon_uid e \<or> ec_anon_gid cfg \<noteq> ee_anon_gid e)
         in case parse_clients inet_pton (ec_clients cfg) of
              Inl err \<Rightarrow> None
            | Inr clients \<Rightarrow>
                Some (report @ (if changed then [IdentityChanged (ec_fsid cfg)] else []) @
                        (if ec_nodes cfg \<noteq> ee_nodes e then [NodesChanged (ec_fsid cfg)] else []) @
                        [Applied (ec_fsid cfg) (length (ec_clients cfg))],
                      t\<lparr>xt_heap := (xt_heap t)(a := e\<lparr>ee_clients := clients,
                          ee_qos := (ec_read_bps cfg, ec_write_bps cfg, ec_iops cfg)\<rparr>)\<rparr>))"

primrec reload_all ::
  "pton \<Rightarrow> (u32 \<Rightarrow> nat option) \<Rightarrow> ExportConfig list \<Rightarrow> ReloadNote list \<times> ExportTable \<Rightarrow> (ReloadNote list \<times> ExportTable) option" where
  "reload_all inet_pton lookup_fsid [] r = Some r"
| "reload_all inet_pton lookup_fsid (c # cs) r =
     (case reload_one inet_pton lookup_fsid c r of None \<Rightarrow> None | Some r1 \<Rightarrow> reload_all inet_pton lookup_fsid cs r1)"

definition reload_dynamic :: "pton \<Rightarrow> ExportConfig list \<Rightarrow> ExportTable \<Rightarrow> (ReloadNote list \<times> ExportTable) option" where
  "reload_dynamic inet_pton fresh t =
     (case reload_all inet_pton (by_fsid (xt_heap t) (xt_set t)) fresh ([], t) of
        None \<Rightarrow> None
      | Some (report, t1) \<Rightarrow>
          Some (report @ map RemovedFromConfig
                  (filter (\<lambda>f. f \<notin> set (map ec_fsid fresh)) (map (\<lambda>a. ee_fsid (xt_heap t1 a)) (es_entries (xt_set t1)))), t1))"

text \<open>The settings of an entry a reload may not touch.\<close>

definition fixed_part :: "ExportEntry \<Rightarrow> ExportEntry" where
  "fixed_part e = e\<lparr>ee_clients := [], ee_qos := (0, 0, 0)\<rparr>"

lemma reload_one_fixed:
  "reload_one pt lk cfg (r, t) = Some (r1, t1) \<Longrightarrow>
   xt_set t1 = xt_set t \<and> xt_retired t1 = xt_retired t \<and> fixed_part (xt_heap t1 a) = fixed_part (xt_heap t a)"
  by (auto simp: reload_one_def Let_def fixed_part_def split: option.splits sum.splits)

lemma reload_all_fixed:
  "reload_all pt lk cfgs (r, t) = Some (r1, t1) \<Longrightarrow>
   xt_set t1 = xt_set t \<and> xt_retired t1 = xt_retired t \<and> fixed_part (xt_heap t1 a) = fixed_part (xt_heap t a)"
proof (induction cfgs arbitrary: r t)
  case (Cons c cs)
  obtain r2 t2 where one: "reload_one pt lk c (r, t) = Some (r2, t2)" and rest: "reload_all pt lk cs (r2, t2) = Some (r1, t1)"
    using Cons.prems by (auto split: option.splits)
  show ?case using Cons.IH [OF rest] reload_one_fixed [OF one, of a] by simp
qed simp

text \<open>A reload publishes no new set and changes nothing of an entry but its clients and rates.\<close>

lemma reload_fixed:
  "reload_dynamic pt cfgs t = Some (r, t1) \<Longrightarrow>
   xt_set t1 = xt_set t \<and> xt_retired t1 = xt_retired t \<and> fixed_part (xt_heap t1 a) = fixed_part (xt_heap t a)"
  unfolding reload_dynamic_def using reload_all_fixed [of pt _ cfgs "[]" t] by (fastforce split: option.splits)

end
