(* ===== verification/Catalog.thy ===== *)
theory Catalog
  imports Exports
begin

text \<open>
  The shared export catalog (\<^verbatim>\<open>src/src/core/catalog.cpp\<close>): its parser and canonical writer, the
  merge with the local configuration, validation and the difference of two versions.  The
  registry of backends is a parameter; the texts of messages are left out.
\<close>

section \<open>Documents\<close>

record CatalogMeta =
  cm_version :: u64
  cm_updated_at :: string
  cm_updated_by :: string
  cm_comment :: string

record CatalogExport =
  ce_cfg :: ExportConfig
  ce_disabled :: bool

record Catalog =
  cat_meta :: CatalogMeta
  cat_exports :: "CatalogExport list"

definition default_meta :: CatalogMeta where
  "default_meta = \<lparr>cm_version = 0, cm_updated_at = [], cm_updated_by = [], cm_comment = []\<rparr>"

definition kPerNodeBackendKeys :: "string list" where
  "kPerNodeBackendKeys = [''conf'', ''keyring'', ''id'', ''user'', ''name'', ''log_file'', ''fd_cache'', ''mon_host'']"

definition per_node_backend_key :: "string \<Rightarrow> bool" where
  "per_node_backend_key key \<longleftrightarrow> key \<in> set kPerNodeBackendKeys"

definition ce_fsid :: "CatalogExport \<Rightarrow> u32" where
  "ce_fsid e = ec_fsid (ce_cfg e)"

definition sort_by_fsid :: "CatalogExport list \<Rightarrow> CatalogExport list" where
  "sort_by_fsid = sort_key ce_fsid"

definition cluster_backend_keys :: "ExportConfig \<Rightarrow> (string \<times> string) list" where
  "cluster_backend_keys cfg = filter (\<lambda>(k, v). \<not> per_node_backend_key k) (be_values (ec_backend_config cfg))"

definition strip_per_node_keys :: "ExportConfig \<Rightarrow> ExportConfig" where
  "strip_per_node_keys cfg =
     cfg\<lparr>ec_backend_config := (ec_backend_config cfg)\<lparr>be_values := cluster_backend_keys cfg\<rparr>\<rparr>"

definition nested_path :: "string \<Rightarrow> string \<Rightarrow> bool" where
  "nested_path outer inner \<longleftrightarrow>
     length inner > length outer \<and> take (length outer) inner = outer \<and> (outer = ''/'' \<or> inner ! length outer = CHR ''/'')"

definition catalog_by_fsid :: "Catalog \<Rightarrow> u32 \<Rightarrow> CatalogExport option" where
  "catalog_by_fsid c fsid = List.find (\<lambda>e. ce_fsid e = fsid) (cat_exports c)"

section \<open>Parsing\<close>

text \<open>The lines \<^verbatim>\<open>std::getline\<close> delivers: a last line without a newline counts when it is not empty.\<close>

fun split_lines :: "string \<Rightarrow> string list" where
  "split_lines [] = []"
| "split_lines (c # cs) =
     (if c = NEWLINE then [] # split_lines cs
      else case split_lines cs of
             [] \<Rightarrow> [[c]]
           | l # ls \<Rightarrow> (c # l) # ls)"

text \<open>
  The state of the parser.  The open block, when there is one, edits the last export; its value says
  whether the backend table has begun.
\<close>

record CatParser =
  cp_catalog :: Catalog
  cp_header :: bool
  cp_version :: bool
  cp_in_header :: bool
  cp_block :: "bool option"

definition set_last :: "CatalogExport \<Rightarrow> CatalogExport list \<Rightarrow> CatalogExport list" where
  "set_last e es = butlast es @ [e]"

definition block_of :: "bool \<Rightarrow> CatalogExport \<Rightarrow> ExportBlock" where
  "block_of table e = \<lparr>eb_exp = ce_cfg e, eb_disabled = Some (ce_disabled e), eb_backend_table = table\<rparr>"

definition unblock :: "ExportBlock \<Rightarrow> CatalogExport" where
  "unblock b = \<lparr>ce_cfg = eb_exp b, ce_disabled = the (eb_disabled b)\<rparr>"

definition meta_key :: "string \<Rightarrow> string \<Rightarrow> CatParser \<Rightarrow> CatParser res" where
  "meta_key key value p =
     (let c = cp_catalog p; meta = cat_meta c; put = (\<lambda>m. p\<lparr>cp_catalog := c\<lparr>cat_meta := m\<rparr>\<rparr>)
      in if key = ''version''
         then try_res (uint_value value) (\<lambda>v. Inr ((put (meta\<lparr>cm_version := v\<rparr>))\<lparr>cp_version := True\<rparr>))
         else if key = ''updated_at'' then try_res (string_value value) (\<lambda>v. Inr (put (meta\<lparr>cm_updated_at := v\<rparr>)))
         else if key = ''updated_by'' then try_res (string_value value) (\<lambda>v. Inr (put (meta\<lparr>cm_updated_by := v\<rparr>)))
         else if key = ''comment'' then try_res (string_value value) (\<lambda>v. Inr (put (meta\<lparr>cm_comment := v\<rparr>)))
         else Inl EINVAL)"

text \<open>A line outside every export block.\<close>

definition outer_line :: "string \<Rightarrow> CatParser \<Rightarrow> CatParser res" where
  "outer_line line p =
     (if line = ''[[export]]''
      then Inr (p\<lparr>cp_catalog := (cp_catalog p)\<lparr>cat_exports := cat_exports (cp_catalog p) @
                     [\<lparr>ce_cfg = default_export_config, ce_disabled = False\<rparr>]\<rparr>,
                  cp_block := Some False, cp_in_header := False\<rparr>)
      else if hd line = CHR ''['' \<and> last line = CHR '']''
      then if line \<noteq> ''[catalog]'' \<or> cp_header p then Inl EINVAL else Inr (p\<lparr>cp_header := True, cp_in_header := True\<rparr>)
      else if \<not> cp_in_header p \<or> CHR ''='' \<notin> set line then Inl EINVAL
      else meta_key (trim (takeWhile (\<lambda>c. c \<noteq> CHR ''='') line)) (trim (tl (dropWhile (\<lambda>c. c \<noteq> CHR ''='') line))) p)"

definition parse_line :: "string \<Rightarrow> CatParser \<Rightarrow> CatParser res" where
  "parse_line raw p =
     (let line = trim (strip_comment raw)
      in if line = [] then Inr p
         else case cp_block p of
                None \<Rightarrow> outer_line line p
              | Some table \<Rightarrow>
                  try_res (export_block_line line (block_of table (last (cat_exports (cp_catalog p))))) (\<lambda>(consumed, b).
                    if consumed
                    then Inr (p\<lparr>cp_catalog := (cp_catalog p)\<lparr>cat_exports := set_last (unblock b) (cat_exports (cp_catalog p))\<rparr>,
                                cp_block := Some (eb_backend_table b)\<rparr>)
                    else outer_line line (p\<lparr>cp_block := None\<rparr>)))"

primrec parse_lines :: "string list \<Rightarrow> CatParser \<Rightarrow> CatParser res" where
  "parse_lines [] p = Inr p"
| "parse_lines (l # ls) p = try_res (parse_line l p) (parse_lines ls)"

definition new_parser :: CatParser where
  "new_parser = \<lparr>cp_catalog = \<lparr>cat_meta = default_meta, cat_exports = []\<rparr>, cp_header = False, cp_version = False,
     cp_in_header = False, cp_block = None\<rparr>"

definition parse_catalog :: "string \<Rightarrow> Catalog res" where
  "parse_catalog text =
     try_res (parse_lines (split_lines text) new_parser) (\<lambda>p.
       if \<not> cp_header p \<or> \<not> cp_version p then Inl EINVAL
       else Inr ((cp_catalog p)\<lparr>cat_exports :=
              sort_by_fsid (map (\<lambda>e. e\<lparr>ce_cfg := strip_per_node_keys (ce_cfg e)\<rparr>) (cat_exports (cp_catalog p)))\<rparr>))"

primrec peek_lines :: "bool \<Rightarrow> string list \<Rightarrow> u64 res" where
  "peek_lines in_header [] = Inl EINVAL"
| "peek_lines in_header (raw # ls) =
     (let line = trim (strip_comment raw)
      in if line = [] then peek_lines in_header ls
         else if hd line = CHR ''['' then peek_lines (line = ''[catalog]'') ls
         else if \<not> in_header \<or> CHR ''='' \<notin> set line then peek_lines in_header ls
         else if trim (takeWhile (\<lambda>c. c \<noteq> CHR ''='') line) = ''version''
         then uint_value (tl (dropWhile (\<lambda>c. c \<noteq> CHR ''='') line))
         else peek_lines in_header ls)"

definition peek_catalog_version :: "string \<Rightarrow> u64 res" where
  "peek_catalog_version text = peek_lines False (split_lines text)"

section \<open>Writing\<close>

definition key_line :: "string \<Rightarrow> string \<Rightarrow> string" where
  "key_line key text = key @ '' = '' @ text @ [NEWLINE]"

definition squash_text :: "Squash \<Rightarrow> string" where
  "squash_text s = (case s of SquashNone \<Rightarrow> ''none'' | SquashAll \<Rightarrow> ''all'' | SquashRoot \<Rightarrow> ''root'')"

definition serialize_export :: "CatalogExport \<Rightarrow> string" where
  "serialize_export e =
     (let cfg = ce_cfg e; keys = cluster_backend_keys cfg
      in [NEWLINE] @ ''[[export]]'' @ [NEWLINE] @
         key_line ''path'' (quote (ec_path cfg)) @
         key_line ''fsid'' (to_string (unat (ec_fsid cfg))) @
         key_line ''backend'' (quote (ec_backend cfg)) @
         key_line ''nodes'' (quote_array (ec_nodes cfg)) @
         key_line ''clients'' (quote_array (ec_clients cfg)) @
         key_line ''readonly'' (bool_text (ec_readonly cfg)) @
         key_line ''secure_ports'' (bool_text (ec_secure_ports cfg)) @
         key_line ''strict_readdir_cookies'' (bool_text (ec_strict_readdir_cookies cfg)) @
         key_line ''squash'' ([QUOTE] @ squash_text (ec_squash cfg) @ [QUOTE]) @
         key_line ''anon_uid'' (to_string (unat (ec_anon_uid cfg))) @
         key_line ''anon_gid'' (to_string (unat (ec_anon_gid cfg))) @
         key_line ''read_bps'' (to_string (unat (ec_read_bps cfg))) @
         key_line ''write_bps'' (to_string (unat (ec_write_bps cfg))) @
         key_line ''iops'' (to_string (unat (ec_iops cfg))) @
         key_line ''disabled'' (bool_text (ce_disabled e)) @
         (if keys = [] then []
          else ''[export.'' @ ec_backend cfg @ '']'' @ [NEWLINE] @
               concat (map (\<lambda>(k, v). key_line k (backend_value_text v)) keys)))"

definition serialize_catalog :: "Catalog \<Rightarrow> string" where
  "serialize_catalog c =
     (let meta = cat_meta c
      in ''[catalog]'' @ [NEWLINE] @
         key_line ''version'' (to_string (unat (cm_version meta))) @
         key_line ''updated_at'' (quote (cm_updated_at meta)) @
         key_line ''updated_by'' (quote (cm_updated_by meta)) @
         key_line ''comment'' (quote (cm_comment meta)) @
         concat (map serialize_export (sort_by_fsid (cat_exports c))))"

section \<open>The catalog and this host\<close>

text \<open>The part of \<^verbatim>\<open>Config\<close> the catalog uses: the exports, and the defaults of each backend.\<close>

record LocalConfig =
  lc_exports :: "ExportConfig list"
  lc_backend_defaults :: "(string \<times> BackendConfig) list"

primrec merge_defaults :: "(string \<times> string) list \<Rightarrow> ExportConfig \<Rightarrow> ExportConfig res" where
  "merge_defaults [] cfg = Inr cfg"
| "merge_defaults (kv # kvs) cfg =
     (if \<not> per_node_backend_key (fst kv) then Inl EINVAL
      else merge_defaults kvs (set_backend_value (fst kv) (snd kv) cfg))"

primrec merge_exports :: "(string \<times> BackendConfig) list \<Rightarrow> CatalogExport list \<Rightarrow> ExportConfig list res" where
  "merge_exports defaults [] = Inr []"
| "merge_exports defaults (e # es) =
     (if ce_disabled e then merge_exports defaults es
      else let cfg = strip_per_node_keys (ce_cfg e)
           in try_res (case map_of defaults (ec_backend cfg) of
                         None \<Rightarrow> Inr cfg
                       | Some d \<Rightarrow> merge_defaults (be_values d) cfg) (\<lambda>merged.
              try_res (merge_exports defaults es) (\<lambda>rest. Inr (merged # rest))))"

definition merge_with_local :: "Catalog \<Rightarrow> LocalConfig \<Rightarrow> ExportConfig list res" where
  "merge_with_local c local =
     try_res (merge_exports (lc_backend_defaults local) (cat_exports c)) (\<lambda>out. Inr (sort_key ec_fsid out))"

definition catalog_from_config :: "LocalConfig \<Rightarrow> Catalog" where
  "catalog_from_config config =
     \<lparr>cat_meta = default_meta,
      cat_exports = sort_by_fsid (map (\<lambda>cfg. \<lparr>ce_cfg = strip_per_node_keys cfg, ce_disabled = False\<rparr>) (lc_exports config))\<rparr>"

section \<open>Validation\<close>

definition isalnum :: "char \<Rightarrow> bool" where
  "isalnum c \<longleftrightarrow> isdigit c \<or> (let n = (of_char c :: nat) in 65 \<le> n \<and> n \<le> 90 \<or> 97 \<le> n \<and> n \<le> 122)"

definition valid_cluster_node_name :: "string \<Rightarrow> bool" where
  "valid_cluster_node_name name \<longleftrightarrow>
     name \<noteq> [] \<and> length name \<le> 64 \<and>
     list_all (\<lambda>c. isalnum c \<or> c = CHR ''_'' \<or> c = CHR ''.'' \<or> c = CHR ''-'') name"

definition valid_export_nodes :: "ExportConfig \<Rightarrow> bool" where
  "valid_export_nodes cfg \<longleftrightarrow> list_all valid_cluster_node_name (ec_nodes cfg) \<and> distinct (ec_nodes cfg)"

text \<open>The group of exports that share one connection, when the backend has such groups.\<close>

definition volume_group :: "ExportConfig \<Rightarrow> string option" where
  "volume_group cfg =
     (let group = (\<lambda>key. Some (ec_backend cfg @ '':'' @
                     (case map_of (be_values (ec_backend_config cfg)) key of None \<Rightarrow> [] | Some v \<Rightarrow> v)))
      in if ec_backend cfg = ''gluster'' then group ''volume''
         else if ec_backend cfg = ''lustre'' then group ''mount'' else None)"

definition group_members :: "ExportConfig list \<Rightarrow> string \<Rightarrow> ExportConfig list" where
  "group_members es g = filter (\<lambda>e. volume_group e = Some g) es"

definition check_same_volume_nodes :: "ExportConfig list \<Rightarrow> bool" where
  "check_same_volume_nodes es \<longleftrightarrow>
     list_all (\<lambda>g. list_all (\<lambda>e. ec_nodes e = ec_nodes (hd (group_members es g))) (group_members es g))
       (List.map_filter volume_group es)"

definition paths_clash :: "string \<Rightarrow> string \<Rightarrow> bool" where
  "paths_clash p q \<longleftrightarrow> p = q \<or> nested_path p q \<or> nested_path q p"

primrec validate_exports ::
  "(string \<Rightarrow> bool) \<Rightarrow> pton \<Rightarrow> bool \<Rightarrow> ExportConfig list \<Rightarrow> ExportConfig list \<Rightarrow> ExportConfig list res" where
  "validate_exports known inet_pton aa seen [] = Inr seen"
| "validate_exports known inet_pton aa seen (cfg # cfgs) =
     (if ec_fsid cfg = 0 \<or> ec_fsid cfg \<in> set (map ec_fsid seen) then Inl EINVAL
      else if ec_path cfg = [] \<or> hd (ec_path cfg) \<noteq> CHR ''/'' \<or> normalize_path (ec_path cfg) \<noteq> ec_path cfg then Inl EINVAL
      else if \<not> known (ec_backend cfg) then Inl ENODEV
      else if list_ex (\<lambda>(k, v). per_node_backend_key k) (be_values (ec_backend_config cfg)) then Inl EINVAL
      else if aa \<and> ec_nodes cfg = [] then Inl EINVAL
      else if \<not> valid_export_nodes cfg then Inl EINVAL
      else if ec_clients cfg = [] \<or> list_ex (\<lambda>c. isl (cidr_parse inet_pton c)) (ec_clients cfg) then Inl EINVAL
      else if list_ex (\<lambda>other. paths_clash (ec_path other) (ec_path cfg)) seen then Inl EINVAL
      else validate_exports known inet_pton aa (seen @ [cfg]) cfgs)"

definition validate_catalog ::
  "(string \<Rightarrow> bool) \<Rightarrow> pton \<Rightarrow> Catalog \<Rightarrow> bool \<Rightarrow> unit res" where
  "validate_catalog known inet_pton c aa =
     try_res (validate_exports known inet_pton aa [] (map ce_cfg (cat_exports c))) (\<lambda>exports.
       if aa \<and> \<not> check_same_volume_nodes exports then Inl EINVAL else Inr ())"

section \<open>Differences\<close>

record CatalogDiff =
  cd_added :: "u32 list"
  cd_removed :: "u32 list"
  cd_disabled :: "u32 list"
  cd_enabled :: "u32 list"
  cd_nodes_changed :: "u32 list"
  cd_dynamic_changed :: "u32 list"
  cd_rejected :: "u32 list"

definition diff_empty :: "CatalogDiff \<Rightarrow> bool" where
  "diff_empty d \<longleftrightarrow>
     cd_added d = [] \<and> cd_removed d = [] \<and> cd_disabled d = [] \<and> cd_enabled d = [] \<and> cd_nodes_changed d = [] \<and>
     cd_dynamic_changed d = [] \<and> cd_rejected d = []"

text \<open>The map from fsid to export: the last one listed wins, and the keys ascend.\<close>

definition fsid_map :: "Catalog \<Rightarrow> u32 \<Rightarrow> CatalogExport option" where
  "fsid_map c = map_of (rev (map (\<lambda>e. (ce_fsid e, e)) (cat_exports c)))"

definition fsid_keys :: "Catalog \<Rightarrow> u32 list" where
  "fsid_keys c = sort (remdups (map ce_fsid (cat_exports c)))"

definition identity_changed :: "ExportConfig \<Rightarrow> ExportConfig \<Rightarrow> bool" where
  "identity_changed a b \<longleftrightarrow>
     ec_path a \<noteq> ec_path b \<or> ec_backend a \<noteq> ec_backend b \<or> cluster_backend_keys a \<noteq> cluster_backend_keys b"

definition dynamics_changed :: "ExportConfig \<Rightarrow> ExportConfig \<Rightarrow> bool" where
  "dynamics_changed a b \<longleftrightarrow>
     ec_clients a \<noteq> ec_clients b \<or> ec_read_bps a \<noteq> ec_read_bps b \<or> ec_write_bps a \<noteq> ec_write_bps b \<or>
     ec_iops a \<noteq> ec_iops b \<or> ec_readonly a \<noteq> ec_readonly b \<or> ec_secure_ports a \<noteq> ec_secure_ports b \<or>
     ec_strict_readdir_cookies a \<noteq> ec_strict_readdir_cookies b \<or> ec_squash a \<noteq> ec_squash b \<or>
     ec_anon_uid a \<noteq> ec_anon_uid b \<or> ec_anon_gid a \<noteq> ec_anon_gid b"

definition diff_step :: "Catalog \<Rightarrow> Catalog \<Rightarrow> u32 \<Rightarrow> CatalogDiff \<Rightarrow> CatalogDiff" where
  "diff_step from now fsid d =
     (case (fsid_map from fsid, fsid_map now fsid) of
        (None, _) \<Rightarrow> d\<lparr>cd_added := cd_added d @ [fsid]\<rparr>
      | (Some old, None) \<Rightarrow> d
      | (Some old, Some new) \<Rightarrow>
          let a = ce_cfg old; b = ce_cfg new; flag = (\<lambda>c xs. if c then xs @ [fsid] else xs)
          in if identity_changed a b then d\<lparr>cd_rejected := cd_rejected d @ [fsid]\<rparr>
             else d\<lparr>cd_disabled := flag (\<not> ce_disabled old \<and> ce_disabled new) (cd_disabled d),
                    cd_enabled := flag (ce_disabled old \<and> \<not> ce_disabled new) (cd_enabled d),
                    cd_nodes_changed := flag (ec_nodes a \<noteq> ec_nodes b) (cd_nodes_changed d),
                    cd_dynamic_changed := flag (dynamics_changed a b) (cd_dynamic_changed d)\<rparr>)"

definition diff_catalog :: "Catalog \<Rightarrow> Catalog \<Rightarrow> CatalogDiff" where
  "diff_catalog from now =
     fold (diff_step from now) (fsid_keys now)
       \<lparr>cd_added = [], cd_removed = filter (\<lambda>f. f \<notin> set (fsid_keys now)) (fsid_keys from), cd_disabled = [],
        cd_enabled = [], cd_nodes_changed = [], cd_dynamic_changed = [], cd_rejected = []\<rparr>"

section \<open>What is written is read back\<close>

subsection \<open>Lines\<close>

lemma split_lines_line: "NEWLINE \<notin> set l \<Longrightarrow> split_lines (l @ NEWLINE # rest) = l # split_lines rest"
  by (induction l) auto

definition key_ok :: "string \<Rightarrow> bool" where
  "key_ok k \<longleftrightarrow>
     k \<noteq> [] \<and> \<not> isspace (hd k) \<and> \<not> isspace (last k) \<and> hd k \<noteq> CHR ''['' \<and>
     list_all (\<lambda>c. c \<noteq> CHR ''='' \<and> c \<noteq> QUOTE \<and> c \<noteq> CHR ''#'' \<and> c \<noteq> NEWLINE) k"

lemma drop_nonspace: "xs \<noteq> [] \<Longrightarrow> \<not> isspace (hd xs) \<Longrightarrow> dropWhile isspace xs = xs"
  by (cases xs) simp_all

lemma trim_snoc_space:
  assumes "k \<noteq> []" "\<not> isspace (hd k)" "\<not> isspace (last k)"
  shows "trim (k @ '' '') = k"
proof -
  have "dropWhile isspace (k @ '' '') = k @ '' ''" using assms by (intro drop_nonspace) simp_all
  moreover have "dropWhile isspace (CHR '' '' # rev k) = dropWhile isspace (rev k)" by (simp add: isspace_def)
  moreover have "dropWhile isspace (rev k) = rev k" using assms by (intro drop_nonspace) (simp_all add: hd_rev)
  ultimately show ?thesis by (simp add: trim_def)
qed

lemma trim_cons_space: "trim (CHR '' '' # t) = trim t"
  by (simp add: trim_def isspace_def)

lemma key_line_parts:
  assumes "key_ok k" "value_text t"
  shows "trim (strip_comment (k @ '' = '' @ t)) = k @ '' = '' @ t"
    and "trim (takeWhile (\<lambda>c. c \<noteq> CHR ''='') (k @ '' = '' @ t)) = k"
    and "trim (tl (dropWhile (\<lambda>c. c \<noteq> CHR ''='') (k @ '' = '' @ t))) = t"
    and "split_lines (key_line k t @ rest) = (k @ '' = '' @ t) # split_lines rest"
proof -
  have k: "k \<noteq> []" "\<not> isspace (hd k)" "\<not> isspace (last k)" "\<forall>c\<in>set k. c \<noteq> CHR ''=''"
    "\<forall>c\<in>set k. c \<noteq> QUOTE \<and> c \<noteq> CHR ''#''" "NEWLINE \<notin> set k"
    using assms(1) by (auto simp: key_ok_def list_all_iff)
  have t: "t \<noteq> []" "\<not> isspace (hd t)" "\<not> isspace (last t)" "NEWLINE \<notin> set t" "strip_go False (Some (CHR '' '')) t = t"
    using assms(2) by (simp_all add: value_text_def)
  have "strip_comment ((k @ '' = '') @ t) = (k @ '' = '') @ t"
    unfolding strip_comment_def using strip_plain [of "k @ '' = ''" False None t] k(5) t(5) by auto
  moreover have "trim (k @ '' = '' @ t) = k @ '' = '' @ t" using k t by (intro trim_id) simp
  ultimately show "trim (strip_comment (k @ '' = '' @ t)) = k @ '' = '' @ t" by simp
  have tw: "takeWhile (\<lambda>c. c \<noteq> CHR ''='') (k @ '' = '' @ t) = k @ '' ''"
    and dw: "dropWhile (\<lambda>c. c \<noteq> CHR ''='') (k @ '' = '' @ t) = ''= '' @ t"
    using k(4) by (simp_all add: takeWhile_append2 dropWhile_append2)
  show "trim (takeWhile (\<lambda>c. c \<noteq> CHR ''='') (k @ '' = '' @ t)) = k"
    unfolding tw using k by (intro trim_snoc_space)
  show "trim (tl (dropWhile (\<lambda>c. c \<noteq> CHR ''='') (k @ '' = '' @ t))) = t"
    unfolding dw using t by (simp add: trim_cons_space trim_id)
  show "split_lines (key_line k t @ rest) = (k @ '' = '' @ t) # split_lines rest"
    using split_lines_line [of "k @ '' = '' @ t" rest] k(6) t(4) by (simp add: key_line_def)
qed

subsection \<open>The parser between blocks and within one\<close>

definition run :: "string \<Rightarrow> CatParser \<Rightarrow> CatParser res" where
  "run text = parse_lines (split_lines text)"

definition between :: "CatalogMeta \<Rightarrow> CatalogExport list \<Rightarrow> bool \<Rightarrow> bool option \<Rightarrow> CatParser" where
  "between m es hdr blk =
     \<lparr>cp_catalog = \<lparr>cat_meta = m, cat_exports = es\<rparr>, cp_header = True, cp_version = True, cp_in_header = hdr, cp_block = blk\<rparr>"

definition within :: "CatalogMeta \<Rightarrow> CatalogExport list \<Rightarrow> bool \<Rightarrow> CatalogExport \<Rightarrow> CatParser" where
  "within m es table e = between m (es @ [e]) False (Some table)"

lemma run_line: "NEWLINE \<notin> set l \<Longrightarrow> run (l @ NEWLINE # rest) p = try_res (parse_line l p) (run rest)"
  by (simp add: run_def split_lines_line)

lemma run_nil [simp]: "run [] p = Inr p"
  by (simp add: run_def)

lemma block_key:
  assumes "key_ok k" "value_text t"
  shows "export_block_line (k @ '' = '' @ t) b =
    (if eb_backend_table b then try_res (backend_value t) (\<lambda>v. Inr (True, upd_exp (set_backend_value k v) b))
     else try_res (export_key k t b) (\<lambda>b1. Inr (True, b1)))"
proof -
  have "hd (k @ '' = '' @ t) \<noteq> CHR ''[''" using assms(1) by (simp add: key_ok_def)
  moreover have "CHR ''='' \<in> set (k @ '' = '' @ t)" by simp
  ultimately show ?thesis
    unfolding export_block_line_def Let_def key_line_parts [OF assms] by simp
qed

lemma run_block_key:
  assumes "key_ok k" "value_text t" "export_key k t (block_of False e) = Inr b" "eb_backend_table b = False"
  shows "run (key_line k t @ rest) (within m es False e) = run rest (within m es False (unblock b))"
proof -
  have "parse_line (k @ '' = '' @ t) (within m es False e) = Inr (within m es False (unblock b))"
    unfolding parse_line_def Let_def key_line_parts(1) [OF assms(1,2)]
    using assms(3,4) block_key [OF assms(1,2), of "block_of False e"]
    by (simp add: within_def between_def block_of_def set_last_def)
  then show ?thesis
    unfolding run_def key_line_parts(4) [OF assms(1,2)] by simp
qed

lemma run_table_key:
  assumes "key_ok k"
  shows "run (key_line k (backend_value_text v) @ rest) (within m es True e) =
    run rest (within m es True (e\<lparr>ce_cfg := set_backend_value k v (ce_cfg e)\<rparr>))"
proof -
  note parts = key_line_parts [OF assms value_text_backend [of v]]
  have "parse_line (k @ '' = '' @ backend_value_text v) (within m es True e) =
      Inr (within m es True (e\<lparr>ce_cfg := set_backend_value k v (ce_cfg e)\<rparr>))"
    unfolding parse_line_def Let_def parts(1)
    using block_key [OF assms value_text_backend [of v], of "block_of True e"]
    by (simp add: within_def between_def block_of_def set_last_def backend_value_roundtrip upd_exp_def unblock_def)
  then show ?thesis
    unfolding run_def parts(4) by simp
qed

lemma run_open:
  "run (NEWLINE # ''[[export]]'' @ NEWLINE # rest) (between m es hdr blk) =
   run rest (within m es False \<lparr>ce_cfg = default_export_config, ce_disabled = False\<rparr>)"
proof -
  have e: "parse_line [] p = Inr p" for p by (simp add: parse_line_def strip_comment_def trim_def)
  have l: "trim (strip_comment ''[[export]]'') = ''[[export]]''"
    by (simp add: strip_comment_def trim_def isspace_def)
  have "parse_line ''[[export]]'' (between m es hdr blk) =
      Inr (within m es False \<lparr>ce_cfg = default_export_config, ce_disabled = False\<rparr>)"
    unfolding parse_line_def Let_def l
    by (cases blk) (simp_all add: between_def within_def outer_line_def export_block_line_def)
  then show ?thesis
    using run_line [of "[]" "''[[export]]'' @ NEWLINE # rest"] run_line [of "''[[export]]''" rest] e by simp
qed

subsection \<open>One export\<close>

definition values_ok :: "(string \<times> string) list \<Rightarrow> bool" where
  "values_ok vs \<longleftrightarrow> sorted_wrt (\<lambda>a b. fst a < fst b) vs \<and> list_all (\<lambda>kv. key_ok (fst kv) \<and> \<not> per_node_backend_key (fst kv)) vs"

definition backend_name_ok :: "string \<Rightarrow> bool" where
  "backend_name_ok n \<longleftrightarrow> list_all (\<lambda>c. c \<noteq> QUOTE \<and> c \<noteq> CHR ''#'' \<and> c \<noteq> NEWLINE) n"

definition catalog_export_ok :: "CatalogExport \<Rightarrow> bool" where
  "catalog_export_ok e \<longleftrightarrow>
     (let cfg = ce_cfg e; bc = ec_backend_config cfg
      in normalize_path (ec_path cfg) = ec_path cfg \<and> list_all item_ok (ec_clients cfg) \<and> list_all item_ok (ec_nodes cfg) \<and>
         be_path bc = [] \<and> be_fsid bc = 0 \<and> values_ok (be_values bc) \<and> backend_name_ok (ec_backend cfg))"

lemma set_value_last: "\<forall>p\<in>set vs. fst p < k \<Longrightarrow> set_value k v vs = vs @ [(k, v)]"
  by (induction vs) auto

lemma keys_kept: "values_ok (be_values (ec_backend_config cfg)) \<Longrightarrow> cluster_backend_keys cfg = be_values (ec_backend_config cfg)"
  by (auto simp: values_ok_def cluster_backend_keys_def list_all_iff intro!: filter_True)

lemma strip_kept: "values_ok (be_values (ec_backend_config cfg)) \<Longrightarrow> strip_per_node_keys cfg = cfg"
  by (simp add: strip_per_node_keys_def keys_kept)

abbreviation with_values :: "CatalogExport \<Rightarrow> (string \<times> string) list \<Rightarrow> CatalogExport" where
  "with_values e vs \<equiv> e\<lparr>ce_cfg := (ce_cfg e)\<lparr>ec_backend_config := \<lparr>be_path = [], be_fsid = 0, be_values = vs\<rparr>\<rparr>\<rparr>"

lemma run_table:
  assumes "values_ok (us @ vs)"
  shows "run (concat (map (\<lambda>(k, v). key_line k (backend_value_text v)) vs) @ rest) (within m es True (with_values e us)) =
    run rest (within m es True (with_values e (us @ vs)))"
  using assms
proof (induction vs arbitrary: us)
  case (Cons kv vs)
  obtain k v where kv: "kv = (k, v)" by (cases kv)
  have "key_ok k" "\<forall>p\<in>set us. fst p < k"
    using Cons.prems by (auto simp: values_ok_def kv sorted_wrt_append)
  then show ?case
    using Cons.IH [of "us @ [kv]"] Cons.prems
    by (simp add: kv run_table_key set_backend_value_def set_value_last)
qed simp

lemma run_subtable:
  assumes "backend_name_ok n"
  shows "run (''[export.'' @ n @ '']'' @ NEWLINE # rest) (within m es False e) = run rest (within m es True e)"
proof -
  let ?l = "''[export.'' @ n @ '']''"
  have "strip_comment ?l = ?l"
    using strip_plain [of ?l False None "[]"] assms
    by (auto simp: strip_comment_def backend_name_ok_def list_all_iff)
  moreover have "trim ?l = ?l" by (rule trim_id) (simp add: isspace_def)
  ultimately have "parse_line ?l (within m es False e) = Inr (within m es True e)"
    unfolding parse_line_def Let_def
    by (simp add: within_def between_def export_block_line_def block_of_def unblock_def set_last_def)
  moreover have "NEWLINE \<notin> set ?l" using assms by (auto simp: backend_name_ok_def list_all_iff)
  ultimately show ?thesis using run_line [of ?l rest "within m es False e"] by simp
qed

lemma value_text_squash: "[QUOTE] @ squash_text s @ [QUOTE] = quote (squash_text s)"
  by (cases s) (simp_all add: squash_text_def quote_def escape_char_def)

lemma squash_value_text: "squash_value (quote (squash_text s)) = Inr s"
  by (cases s) (simp_all add: squash_value_def string_value_quote squash_text_def)

lemmas written_values =
  string_value_quote u32_value_to_string size_value_to_string bool_value_text string_array_quote squash_value_text uint_value_u64

lemmas written_texts =
  value_text_quote value_text_number value_text_bool value_text_array

lemma run_keys:
  assumes "catalog_export_ok e"
  shows "run (key_line ''path'' (quote (ec_path (ce_cfg e))) @
         key_line ''fsid'' (to_string (unat (ec_fsid (ce_cfg e)))) @
         key_line ''backend'' (quote (ec_backend (ce_cfg e))) @
         key_line ''nodes'' (quote_array (ec_nodes (ce_cfg e))) @
         key_line ''clients'' (quote_array (ec_clients (ce_cfg e))) @
         key_line ''readonly'' (bool_text (ec_readonly (ce_cfg e))) @
         key_line ''secure_ports'' (bool_text (ec_secure_ports (ce_cfg e))) @
         key_line ''strict_readdir_cookies'' (bool_text (ec_strict_readdir_cookies (ce_cfg e))) @
         key_line ''squash'' (quote (squash_text (ec_squash (ce_cfg e)))) @
         key_line ''anon_uid'' (to_string (unat (ec_anon_uid (ce_cfg e)))) @
         key_line ''anon_gid'' (to_string (unat (ec_anon_gid (ce_cfg e)))) @
         key_line ''read_bps'' (to_string (unat (ec_read_bps (ce_cfg e)))) @
         key_line ''write_bps'' (to_string (unat (ec_write_bps (ce_cfg e)))) @
         key_line ''iops'' (to_string (unat (ec_iops (ce_cfg e)))) @
         key_line ''disabled'' (bool_text (ce_disabled e)) @ rest)
        (within m es False \<lparr>ce_cfg = default_export_config, ce_disabled = False\<rparr>) =
       run rest (within m es False (with_values e []))"
proof -
  have key: "key_ok ''path''" "key_ok ''fsid''" "key_ok ''backend''" "key_ok ''nodes''" "key_ok ''clients''"
    "key_ok ''readonly''" "key_ok ''secure_ports''" "key_ok ''strict_readdir_cookies''" "key_ok ''squash''"
    "key_ok ''anon_uid''" "key_ok ''anon_gid''" "key_ok ''read_bps''" "key_ok ''write_bps''" "key_ok ''iops''"
    "key_ok ''disabled''"
    by (simp_all add: key_ok_def isspace_def)
  have ok: "normalize_path (ec_path (ce_cfg e)) = ec_path (ce_cfg e)" "list_all item_ok (ec_clients (ce_cfg e))"
    "list_all item_ok (ec_nodes (ce_cfg e))"
    using assms by (simp_all add: catalog_export_ok_def Let_def)
  have w: "with_values e [] = \<lparr>ce_cfg =
      \<lparr>ec_path = ec_path (ce_cfg e), ec_backend = ec_backend (ce_cfg e), ec_fsid = ec_fsid (ce_cfg e),
       ec_clients = ec_clients (ce_cfg e), ec_squash = ec_squash (ce_cfg e), ec_anon_uid = ec_anon_uid (ce_cfg e),
       ec_anon_gid = ec_anon_gid (ce_cfg e), ec_readonly = ec_readonly (ce_cfg e),
       ec_secure_ports = ec_secure_ports (ce_cfg e), ec_strict_readdir_cookies = ec_strict_readdir_cookies (ce_cfg e),
       ec_read_bps = ec_read_bps (ce_cfg e), ec_write_bps = ec_write_bps (ce_cfg e), ec_iops = ec_iops (ce_cfg e),
       ec_nodes = ec_nodes (ce_cfg e), ec_backend_config = \<lparr>be_path = [], be_fsid = 0, be_values = []\<rparr>\<rparr>,
      ce_disabled = ce_disabled e\<rparr>"
    by (cases e; cases "ce_cfg e") simp
  show ?thesis
    unfolding w
    by (simp add: run_block_key [OF key(1)] run_block_key [OF key(2)] run_block_key [OF key(3)] run_block_key [OF key(4)]
      run_block_key [OF key(5)] run_block_key [OF key(6)] run_block_key [OF key(7)] run_block_key [OF key(8)]
      run_block_key [OF key(9)] run_block_key [OF key(10)] run_block_key [OF key(11)] run_block_key [OF key(12)]
      run_block_key [OF key(13)] run_block_key [OF key(14)] run_block_key [OF key(15)]
      written_texts written_values ok export_key_def block_of_def upd_exp_def unblock_def default_export_config_def
      default_backend_config_def)
qed

lemma run_export:
  assumes "catalog_export_ok e"
  obtains table where
    "run (serialize_export e @ rest) (between m es hdr blk) = run rest (between m (es @ [e]) False (Some table))"
proof -
  let ?vs = "be_values (ec_backend_config (ce_cfg e))"
  have ok: "values_ok ([] @ ?vs)" "backend_name_ok (ec_backend (ce_cfg e))" and e: "with_values e ?vs = e"
    using assms by (simp_all add: catalog_export_ok_def Let_def)
  have keys: "cluster_backend_keys (ce_cfg e) = ?vs" using ok(1) by (simp add: keys_kept)
  show ?thesis
  proof (cases "?vs = []")
    case True
    then show ?thesis
      using that [of False] e run_keys [OF assms, of rest m es] run_open
      by (simp add: serialize_export_def Let_def keys value_text_squash [simplified] within_def)
  next
    case False
    have "run (''[export.'' @ ec_backend (ce_cfg e) @ '']'' @ NEWLINE # concat (map (\<lambda>(k, v). key_line k (backend_value_text v)) ?vs) @ rest)
        (within m es False (with_values e [])) = run rest (within m es True e)"
      unfolding run_subtable [OF ok(2)] run_table [OF ok(1)] using e by simp
    then show ?thesis
      using that [of True] False run_keys [OF assms, of _ m es] run_open
      by (simp add: serialize_export_def Let_def keys value_text_squash [simplified] within_def)
  qed
qed

subsection \<open>The document\<close>

definition catalog_ok :: "Catalog \<Rightarrow> bool" where
  "catalog_ok c \<longleftrightarrow> sorted (map ce_fsid (cat_exports c)) \<and> list_all catalog_export_ok (cat_exports c)"

lemma run_exports:
  assumes "list_all catalog_export_ok xs"
  shows "\<exists>h b. run (concat (map serialize_export xs)) (between m es hdr blk) = Inr (between m (es @ xs) h b)"
  using assms
proof (induction xs arbitrary: es hdr blk)
  case (Cons x xs)
  obtain table where "run (serialize_export x @ concat (map serialize_export xs)) (between m es hdr blk) =
      run (concat (map serialize_export xs)) (between m (es @ [x]) False (Some table))"
    by (rule run_export [of x "concat (map serialize_export xs)" m es hdr blk]) (use Cons.prems in auto)
  then show ?case using Cons.IH [of "es @ [x]" False "Some table"] Cons.prems by simp
qed auto

lemma header_line: "run (''[catalog]'' @ NEWLINE # rest) new_parser = run rest (new_parser\<lparr>cp_header := True, cp_in_header := True\<rparr>)"
proof -
  have "parse_line ''[catalog]'' new_parser = Inr (new_parser\<lparr>cp_header := True, cp_in_header := True\<rparr>)"
    by (simp add: parse_line_def strip_comment_def trim_def isspace_def new_parser_def outer_line_def)
  then show ?thesis using run_line [of "''[catalog]''" rest new_parser] by simp
qed

lemma run_meta_key:
  assumes "key_ok k" "value_text t" "cp_block p = None" "cp_in_header p"
  shows "run (key_line k t @ rest) p = try_res (meta_key k t p) (run rest)"
proof -
  have "hd (k @ '' = '' @ t) \<noteq> CHR ''[''" "CHR ''='' \<in> set (k @ '' = '' @ t)" "k @ '' = '' @ t \<noteq> ''[[export]]''"
    using assms(1) by (auto simp: key_ok_def append_eq_Cons_conv)
  then have "outer_line (k @ '' = '' @ t) p = meta_key k t p"
    unfolding outer_line_def key_line_parts [OF assms(1,2)] using assms(4) by simp
  then have "parse_line (k @ '' = '' @ t) p = meta_key k t p"
    unfolding parse_line_def Let_def key_line_parts(1) [OF assms(1,2)] using assms(3) by simp
  then show ?thesis unfolding run_def key_line_parts(4) [OF assms(1,2)] by simp
qed

lemma run_header:
  "run (''[catalog]'' @ [NEWLINE] @
         key_line ''version'' (to_string (unat (cm_version m))) @
         key_line ''updated_at'' (quote (cm_updated_at m)) @
         key_line ''updated_by'' (quote (cm_updated_by m)) @
         key_line ''comment'' (quote (cm_comment m)) @ rest) new_parser = run rest (between m [] True None)"
proof -
  have key: "key_ok ''version''" "key_ok ''updated_at''" "key_ok ''updated_by''" "key_ok ''comment''"
    by (simp_all add: key_ok_def isspace_def)
  have m: "m = \<lparr>cm_version = cm_version m, cm_updated_at = cm_updated_at m, cm_updated_by = cm_updated_by m,
      cm_comment = cm_comment m\<rparr>" by simp
  have "run (key_line ''version'' (to_string (unat (cm_version m))) @
         key_line ''updated_at'' (quote (cm_updated_at m)) @
         key_line ''updated_by'' (quote (cm_updated_by m)) @
         key_line ''comment'' (quote (cm_comment m)) @ rest) (new_parser\<lparr>cp_header := True, cp_in_header := True\<rparr>) =
      run rest (between \<lparr>cm_version = cm_version m, cm_updated_at = cm_updated_at m, cm_updated_by = cm_updated_by m,
        cm_comment = cm_comment m\<rparr> [] True None)"
    by (simp add: run_meta_key [OF key(1)] run_meta_key [OF key(2)] run_meta_key [OF key(3)] run_meta_key [OF key(4)]
      written_texts written_values meta_key_def new_parser_def between_def default_meta_def Let_def)
  then show ?thesis using header_line m by simp
qed

lemma sort_by_fsid_sorted: "sorted (map ce_fsid es) \<Longrightarrow> sort_by_fsid es = es"
  by (simp add: sort_by_fsid_def sorted_sort_id sort_key_id_if_sorted)

text \<open>C35: The text written for a catalog is parsed back to the same catalog: every header field, and every
  export with all its keys, its backend table and its disabled flag.  The exports are in fsid order, hold no
  per-node key, and have normalized paths; keys and backend names fit on a line; no client or
  node name ends in a backslash.\<close>

theorem catalog_roundtrip:
  assumes "catalog_ok c"
  shows "parse_catalog (serialize_catalog c) = Inr c"
proof -
  have s: "sort_by_fsid (cat_exports c) = cat_exports c" and ok: "list_all catalog_export_ok (cat_exports c)"
    using assms by (simp_all add: catalog_ok_def sort_by_fsid_sorted)
  obtain h b where "run (serialize_catalog c) new_parser = Inr (between (cat_meta c) (cat_exports c) h b)"
    using run_exports [OF ok, of "cat_meta c" "[]" True None]
    by (auto simp: serialize_catalog_def Let_def s run_header [simplified])
  moreover have "map (\<lambda>e. e\<lparr>ce_cfg := strip_per_node_keys (ce_cfg e)\<rparr>) (cat_exports c) = cat_exports c"
    using ok by (intro map_idI) (simp add: list_all_iff catalog_export_ok_def Let_def strip_kept)
  ultimately show ?thesis by (simp add: parse_catalog_def run_def between_def s)
qed

definition demo_catalog :: Catalog where
  "demo_catalog = \<lparr>cat_meta = \<lparr>cm_version = 7, cm_updated_at = ''now'', cm_updated_by = ''gw1'', cm_comment = ''a # b''\<rparr>,
     cat_exports = [\<lparr>ce_cfg = default_export_config\<lparr>ec_path := ''/a'', ec_fsid := 3, ec_backend := ''gluster'', ec_nodes := [''gw1'', ''gw2''],
        ec_backend_config := \<lparr>be_path = [], be_fsid = 0, be_values = [(''server'', ''h 1''), (''volume'', ''12'')]\<rparr>\<rparr>,
        ce_disabled = True\<rparr>]\<rparr>"

lemma demo_catalog_ok: "catalog_ok demo_catalog"
  by code_simp

theorem catalog_roundtrip_witness: "parse_catalog (serialize_catalog demo_catalog) = Inr demo_catalog"
  by (rule catalog_roundtrip [OF demo_catalog_ok])

section \<open>What a difference means\<close>

text \<open>What happened to an export both versions hold.\<close>

definition kept_pair :: "Catalog \<Rightarrow> Catalog \<Rightarrow> (CatalogExport \<Rightarrow> CatalogExport \<Rightarrow> bool) \<Rightarrow> u32 \<Rightarrow> bool" where
  "kept_pair from now P f =
     (case (fsid_map from f, fsid_map now f) of (Some old, Some new) \<Rightarrow> P old new | _ \<Rightarrow> False)"

definition same_identity :: "CatalogExport \<Rightarrow> CatalogExport \<Rightarrow> bool" where
  "same_identity old new \<longleftrightarrow> \<not> identity_changed (ce_cfg old) (ce_cfg new)"

lemma diff_fold:
  "fold (diff_step from now) ks d =
   \<lparr>cd_added = cd_added d @ filter (\<lambda>f. fsid_map from f = None) ks, cd_removed = cd_removed d,
    cd_disabled = cd_disabled d @
      filter (kept_pair from now (\<lambda>old new. same_identity old new \<and> \<not> ce_disabled old \<and> ce_disabled new)) ks,
    cd_enabled = cd_enabled d @
      filter (kept_pair from now (\<lambda>old new. same_identity old new \<and> ce_disabled old \<and> \<not> ce_disabled new)) ks,
    cd_nodes_changed = cd_nodes_changed d @
      filter (kept_pair from now (\<lambda>old new. same_identity old new \<and> ec_nodes (ce_cfg old) \<noteq> ec_nodes (ce_cfg new))) ks,
    cd_dynamic_changed = cd_dynamic_changed d @
      filter (kept_pair from now (\<lambda>old new. same_identity old new \<and> dynamics_changed (ce_cfg old) (ce_cfg new))) ks,
    cd_rejected = cd_rejected d @ filter (kept_pair from now (\<lambda>old new. \<not> same_identity old new)) ks\<rparr>"
proof (induction ks arbitrary: d)
  case (Cons f ks)
  show ?case
  proof (cases "fsid_map from f")
    case None
    then have "kept_pair from now P f = False" for P by (simp add: kept_pair_def)
    moreover have "diff_step from now f d = d\<lparr>cd_added := cd_added d @ [f]\<rparr>" by (simp add: diff_step_def None)
    ultimately show ?thesis using None by (simp add: Cons.IH)
  next
    case (Some old)
    show ?thesis
    proof (cases "fsid_map now f")
      case None
      then have "kept_pair from now P f = False" for P by (simp add: kept_pair_def Some)
      moreover have "diff_step from now f d = d" by (simp add: diff_step_def None Some)
      ultimately show ?thesis using Some by (simp add: Cons.IH)
    next
      fix new assume new: "fsid_map now f = Some new"
      then have k: "kept_pair from now P f = P old new" for P by (simp add: kept_pair_def Some)
      show ?thesis
      proof (cases "same_identity old new")
        case True
        then have "diff_step from now f d =
            (let flag = (\<lambda>c xs. if c then xs @ [f] else xs)
             in d\<lparr>cd_disabled := flag (\<not> ce_disabled old \<and> ce_disabled new) (cd_disabled d),
                  cd_enabled := flag (ce_disabled old \<and> \<not> ce_disabled new) (cd_enabled d),
                  cd_nodes_changed := flag (ec_nodes (ce_cfg old) \<noteq> ec_nodes (ce_cfg new)) (cd_nodes_changed d),
                  cd_dynamic_changed := flag (dynamics_changed (ce_cfg old) (ce_cfg new)) (cd_dynamic_changed d)\<rparr>)"
          by (simp add: diff_step_def Some new same_identity_def Let_def)
        then show ?thesis using Some True k by (simp add: Cons.IH Let_def)
      next
        case False
        then have "diff_step from now f d = d\<lparr>cd_rejected := cd_rejected d @ [f]\<rparr>"
          by (simp add: diff_step_def Some new same_identity_def)
        then show ?thesis using Some False k by (simp add: Cons.IH)
      qed
    qed
  qed
qed simp

lemma set_fsid_keys: "set (fsid_keys c) = ce_fsid ` set (cat_exports c)"
  by (simp add: fsid_keys_def)

lemma fsid_map_Some:
  assumes "distinct (map ce_fsid (cat_exports c))"
  shows "fsid_map c f = Some e \<longleftrightarrow> e \<in> set (cat_exports c) \<and> ce_fsid e = f"
proof -
  have "distinct (map fst (rev (map (\<lambda>e. (ce_fsid e, e)) (cat_exports c))))"
    using assms by (simp add: rev_map [symmetric] comp_def)
  then have "fsid_map c f = Some e \<longleftrightarrow> (f, e) \<in> set (map (\<lambda>e. (ce_fsid e, e)) (cat_exports c))"
    by (simp add: fsid_map_def)
  then show ?thesis by auto
qed

lemma unchanged_export:
  assumes "catalog_export_ok a" "catalog_export_ok b" "ce_fsid a = ce_fsid b"
    and "same_identity a b" "ce_disabled a = ce_disabled b" "ec_nodes (ce_cfg a) = ec_nodes (ce_cfg b)"
    and "\<not> dynamics_changed (ce_cfg a) (ce_cfg b)"
  shows "a = b"
proof -
  have va: "values_ok (be_values (ec_backend_config (ce_cfg a)))" and vb: "values_ok (be_values (ec_backend_config (ce_cfg b)))"
    using assms(1,2) by (simp_all add: catalog_export_ok_def Let_def)
  have "ec_backend_config (ce_cfg a) = ec_backend_config (ce_cfg b)"
    using assms(1,2,4) keys_kept [OF va] keys_kept [OF vb]
    by (simp add: catalog_export_ok_def Let_def same_identity_def identity_changed_def)
  then have "ce_cfg a = ce_cfg b"
    using assms(3,4,6,7) by (simp add: same_identity_def identity_changed_def dynamics_changed_def ce_fsid_def)
  then show ?thesis using assms(5) by simp
qed

text \<open>C36: The difference of two catalogs is empty exactly when they list the same exports: for catalogs in canonical
  form with distinct fsids, no change of any field of any export escapes the comparison.\<close>

theorem diff_exact:
  assumes a: "catalog_ok a" "distinct (map ce_fsid (cat_exports a))"
    and b: "catalog_ok b" "distinct (map ce_fsid (cat_exports b))"
  shows "diff_empty (diff_catalog a b) \<longleftrightarrow> cat_exports a = cat_exports b"
proof
  assume same: "cat_exports a = cat_exports b"
  have "fsid_map a = fsid_map b" "fsid_keys a = fsid_keys b" using same by (simp_all add: fsid_map_def fsid_keys_def)
  moreover have "fsid_map b f \<noteq> None" if "f \<in> set (fsid_keys b)" for f
    using that b(2) fsid_map_Some [of b f] by (auto simp: set_fsid_keys)
  ultimately show "diff_empty (diff_catalog a b)"
    by (auto simp: diff_empty_def diff_catalog_def diff_fold filter_empty_conv kept_pair_def same_identity_def
      identity_changed_def dynamics_changed_def split: option.splits)
next
  assume d: "diff_empty (diff_catalog a b)"
  have keys: "set (fsid_keys a) \<subseteq> set (fsid_keys b)"
    using d by (auto simp: diff_empty_def diff_catalog_def diff_fold filter_empty_conv)
  have sub: "e \<in> set (cat_exports a)" if e: "e \<in> set (cat_exports b)" for e
  proof -
    let ?f = "ce_fsid e"
    have f: "?f \<in> set (fsid_keys b)" and eb: "fsid_map b ?f = Some e"
      using e b(2) by (simp_all add: set_fsid_keys fsid_map_Some)
    obtain old where old: "fsid_map a ?f = Some old"
      using d f by (auto simp: diff_empty_def diff_catalog_def diff_fold filter_empty_conv)
    have "old \<in> set (cat_exports a)" "ce_fsid old = ?f" using old a(2) by (simp_all add: fsid_map_Some)
    moreover have "catalog_export_ok old" "catalog_export_ok e"
      using a(1) b(1) e calculation(1) by (simp_all add: catalog_ok_def list_all_iff)
    moreover have "same_identity old e \<and> ce_disabled old = ce_disabled e \<and> ec_nodes (ce_cfg old) = ec_nodes (ce_cfg e)
        \<and> \<not> dynamics_changed (ce_cfg old) (ce_cfg e)"
      using d f old eb unfolding diff_empty_def diff_catalog_def diff_fold
      by (auto simp: filter_empty_conv kept_pair_def dest!: bspec)
    ultimately show ?thesis using unchanged_export [of old e] by blast
  qed
  have "set (cat_exports a) \<subseteq> set (cat_exports b)"
  proof
    fix x assume x: "x \<in> set (cat_exports a)"
    then obtain y where y: "y \<in> set (cat_exports b)" "ce_fsid y = ce_fsid x"
      using keys by (auto simp: set_fsid_keys image_iff subset_iff)
    then have "y = x" using sub [OF y(1)] x a(2) by (auto simp: distinct_map inj_on_def)
    then show "x \<in> set (cat_exports b)" using y by simp
  qed
  then have sets: "set (cat_exports a) = set (cat_exports b)" using sub by blast
  have inj: "inj_on ce_fsid (set (cat_exports a) \<union> set (cat_exports b))" using a(2) sets by (simp add: distinct_map)
  have "map ce_fsid (cat_exports a) = map ce_fsid (cat_exports b)"
    using a b sets by (intro sorted_distinct_set_unique) (simp_all add: catalog_ok_def)
  then show "cat_exports a = cat_exports b" using inj by (rule map_inj_on)
qed

definition demo_update :: Catalog where
  "demo_update = demo_catalog\<lparr>cat_exports := map (\<lambda>e. e\<lparr>ce_disabled := False\<rparr>) (cat_exports demo_catalog)\<rparr>"

theorem diff_exact_witness:
  "diff_empty (diff_catalog demo_catalog demo_update) \<longleftrightarrow> cat_exports demo_catalog = cat_exports demo_update"
proof -
  have "catalog_ok demo_update" by code_simp
  moreover have "distinct (map ce_fsid (cat_exports demo_catalog))" "distinct (map ce_fsid (cat_exports demo_update))"
    by code_simp+
  ultimately show ?thesis by (intro diff_exact demo_catalog_ok)
qed

end
