(* ===== verification/ErrMap.thy ===== *)
theory ErrMap
  imports Nfs4Types
begin

text \<open>
  The mapping of internal errors to protocol status codes (\<^verbatim>\<open>src/src/core/errmap.cpp\<close>): the direct mapping
  and the whitelist of each NFSv3 procedure and NFSv4 operation.  Codes are 32-bit words as on the wire.
\<close>

section \<open>Codes\<close>

type_synonym Proc = u32
type_synonym Op = u32
type_synonym Status3 = u32

abbreviation P_Null :: Proc where "P_Null \<equiv> 0"
abbreviation P_Getattr :: Proc where "P_Getattr \<equiv> 1"
abbreviation P_Setattr :: Proc where "P_Setattr \<equiv> 2"
abbreviation P_Lookup :: Proc where "P_Lookup \<equiv> 3"
abbreviation P_Access :: Proc where "P_Access \<equiv> 4"
abbreviation P_Readlink :: Proc where "P_Readlink \<equiv> 5"
abbreviation P_Read :: Proc where "P_Read \<equiv> 6"
abbreviation P_Write :: Proc where "P_Write \<equiv> 7"
abbreviation P_Create :: Proc where "P_Create \<equiv> 8"
abbreviation P_Mkdir :: Proc where "P_Mkdir \<equiv> 9"
abbreviation P_Symlink :: Proc where "P_Symlink \<equiv> 10"
abbreviation P_Mknod :: Proc where "P_Mknod \<equiv> 11"
abbreviation P_Remove :: Proc where "P_Remove \<equiv> 12"
abbreviation P_Rmdir :: Proc where "P_Rmdir \<equiv> 13"
abbreviation P_Rename :: Proc where "P_Rename \<equiv> 14"
abbreviation P_Link :: Proc where "P_Link \<equiv> 15"
abbreviation P_Readdir :: Proc where "P_Readdir \<equiv> 16"
abbreviation P_Readdirplus :: Proc where "P_Readdirplus \<equiv> 17"
abbreviation P_Fsstat :: Proc where "P_Fsstat \<equiv> 18"
abbreviation P_Fsinfo :: Proc where "P_Fsinfo \<equiv> 19"
abbreviation P_Pathconf :: Proc where "P_Pathconf \<equiv> 20"
abbreviation P_Commit :: Proc where "P_Commit \<equiv> 21"

abbreviation S3_Ok :: Status3 where "S3_Ok \<equiv> 0"
abbreviation S3_Perm :: Status3 where "S3_Perm \<equiv> 1"
abbreviation S3_Noent :: Status3 where "S3_Noent \<equiv> 2"
abbreviation S3_Io :: Status3 where "S3_Io \<equiv> 5"
abbreviation S3_Nxio :: Status3 where "S3_Nxio \<equiv> 6"
abbreviation S3_Acces :: Status3 where "S3_Acces \<equiv> 13"
abbreviation S3_Exist :: Status3 where "S3_Exist \<equiv> 17"
abbreviation S3_Xdev :: Status3 where "S3_Xdev \<equiv> 18"
abbreviation S3_Nodev :: Status3 where "S3_Nodev \<equiv> 19"
abbreviation S3_Notdir :: Status3 where "S3_Notdir \<equiv> 20"
abbreviation S3_Isdir :: Status3 where "S3_Isdir \<equiv> 21"
abbreviation S3_Inval :: Status3 where "S3_Inval \<equiv> 22"
abbreviation S3_Fbig :: Status3 where "S3_Fbig \<equiv> 27"
abbreviation S3_Nospc :: Status3 where "S3_Nospc \<equiv> 28"
abbreviation S3_Rofs :: Status3 where "S3_Rofs \<equiv> 30"
abbreviation S3_Mlink :: Status3 where "S3_Mlink \<equiv> 31"
abbreviation S3_Nametoolong :: Status3 where "S3_Nametoolong \<equiv> 63"
abbreviation S3_Notempty :: Status3 where "S3_Notempty \<equiv> 66"
abbreviation S3_Dquot :: Status3 where "S3_Dquot \<equiv> 69"
abbreviation S3_Stale :: Status3 where "S3_Stale \<equiv> 70"
abbreviation S3_Remote :: Status3 where "S3_Remote \<equiv> 71"
abbreviation S3_Badhandle :: Status3 where "S3_Badhandle \<equiv> 10001"
abbreviation S3_NotSync :: Status3 where "S3_NotSync \<equiv> 10002"
abbreviation S3_BadCookie :: Status3 where "S3_BadCookie \<equiv> 10003"
abbreviation S3_Notsupp :: Status3 where "S3_Notsupp \<equiv> 10004"
abbreviation S3_Toosmall :: Status3 where "S3_Toosmall \<equiv> 10005"
abbreviation S3_Serverfault :: Status3 where "S3_Serverfault \<equiv> 10006"
abbreviation S3_Badtype :: Status3 where "S3_Badtype \<equiv> 10007"
abbreviation S3_Jukebox :: Status3 where "S3_Jukebox \<equiv> 10008"

abbreviation O_Access :: Op where "O_Access \<equiv> 3"
abbreviation O_Close :: Op where "O_Close \<equiv> 4"
abbreviation O_Commit :: Op where "O_Commit \<equiv> 5"
abbreviation O_Create :: Op where "O_Create \<equiv> 6"
abbreviation O_Delegreturn :: Op where "O_Delegreturn \<equiv> 8"
abbreviation O_Getattr :: Op where "O_Getattr \<equiv> 9"
abbreviation O_Getfh :: Op where "O_Getfh \<equiv> 10"
abbreviation O_Link :: Op where "O_Link \<equiv> 11"
abbreviation O_Lock :: Op where "O_Lock \<equiv> 12"
abbreviation O_Lockt :: Op where "O_Lockt \<equiv> 13"
abbreviation O_Locku :: Op where "O_Locku \<equiv> 14"
abbreviation O_Lookup :: Op where "O_Lookup \<equiv> 15"
abbreviation O_Lookupp :: Op where "O_Lookupp \<equiv> 16"
abbreviation O_Nverify :: Op where "O_Nverify \<equiv> 17"
abbreviation O_Open :: Op where "O_Open \<equiv> 18"
abbreviation O_Openattr :: Op where "O_Openattr \<equiv> 19"
abbreviation O_OpenDowngrade :: Op where "O_OpenDowngrade \<equiv> 21"
abbreviation O_Putfh :: Op where "O_Putfh \<equiv> 22"
abbreviation O_Putpubfh :: Op where "O_Putpubfh \<equiv> 23"
abbreviation O_Putrootfh :: Op where "O_Putrootfh \<equiv> 24"
abbreviation O_Read :: Op where "O_Read \<equiv> 25"
abbreviation O_Readdir :: Op where "O_Readdir \<equiv> 26"
abbreviation O_Readlink :: Op where "O_Readlink \<equiv> 27"
abbreviation O_Remove :: Op where "O_Remove \<equiv> 28"
abbreviation O_Rename :: Op where "O_Rename \<equiv> 29"
abbreviation O_Restorefh :: Op where "O_Restorefh \<equiv> 31"
abbreviation O_Savefh :: Op where "O_Savefh \<equiv> 32"
abbreviation O_Secinfo :: Op where "O_Secinfo \<equiv> 33"
abbreviation O_Setattr :: Op where "O_Setattr \<equiv> 34"
abbreviation O_Verify :: Op where "O_Verify \<equiv> 37"
abbreviation O_Write :: Op where "O_Write \<equiv> 38"
abbreviation O_BindConnToSession :: Op where "O_BindConnToSession \<equiv> 41"
abbreviation O_ExchangeId :: Op where "O_ExchangeId \<equiv> 42"
abbreviation O_CreateSession :: Op where "O_CreateSession \<equiv> 43"
abbreviation O_DestroySession :: Op where "O_DestroySession \<equiv> 44"
abbreviation O_FreeStateid :: Op where "O_FreeStateid \<equiv> 45"
abbreviation O_SecinfoNoName :: Op where "O_SecinfoNoName \<equiv> 52"
abbreviation O_Sequence :: Op where "O_Sequence \<equiv> 53"
abbreviation O_TestStateid :: Op where "O_TestStateid \<equiv> 55"
abbreviation O_DestroyClientid :: Op where "O_DestroyClientid \<equiv> 57"
abbreviation O_ReclaimComplete :: Op where "O_ReclaimComplete \<equiv> 58"
abbreviation O_Allocate :: Op where "O_Allocate \<equiv> 59"
abbreviation O_Copy :: Op where "O_Copy \<equiv> 60"
abbreviation O_CopyNotify :: Op where "O_CopyNotify \<equiv> 61"
abbreviation O_Deallocate :: Op where "O_Deallocate \<equiv> 62"
abbreviation O_IoAdvise :: Op where "O_IoAdvise \<equiv> 63"
abbreviation O_Layouterror :: Op where "O_Layouterror \<equiv> 64"
abbreviation O_Layoutstats :: Op where "O_Layoutstats \<equiv> 65"
abbreviation O_OffloadCancel :: Op where "O_OffloadCancel \<equiv> 66"
abbreviation O_OffloadStatus :: Op where "O_OffloadStatus \<equiv> 67"
abbreviation O_ReadPlus :: Op where "O_ReadPlus \<equiv> 68"
abbreviation O_Seek :: Op where "O_Seek \<equiv> 69"
abbreviation O_WriteSame :: Op where "O_WriteSame \<equiv> 70"
abbreviation O_Clone :: Op where "O_Clone \<equiv> 71"
abbreviation O_GetXattr :: Op where "O_GetXattr \<equiv> 72"
abbreviation O_SetXattr :: Op where "O_SetXattr \<equiv> 73"
abbreviation O_ListXattrs :: Op where "O_ListXattrs \<equiv> 74"
abbreviation O_RemoveXattr :: Op where "O_RemoveXattr \<equiv> 75"
abbreviation O_Illegal :: Op where "O_Illegal \<equiv> 10044"

section \<open>NFSv3\<close>

definition raw_mapping :: "errno \<Rightarrow> Status3" where
  "raw_mapping error =
     (if error = kBadHandle then S3_Badhandle
      else if error = kJukebox then S3_Jukebox
      else if error = EPERM then S3_Perm
      else if error = ENOENT then S3_Noent
      else if error = EIO then S3_Io
      else if error = ENXIO then S3_Nxio
      else if error = EACCES then S3_Acces
      else if error = EEXIST then S3_Exist
      else if error = EXDEV then S3_Xdev
      else if error = ENODEV then S3_Nodev
      else if error = ENOTDIR then S3_Notdir
      else if error = EISDIR then S3_Isdir
      else if error = EINVAL then S3_Inval
      else if error = EFBIG then S3_Fbig
      else if error = ENOSPC then S3_Nospc
      else if error = EROFS then S3_Rofs
      else if error = EMLINK then S3_Mlink
      else if error = ENAMETOOLONG then S3_Nametoolong
      else if error = ENOTEMPTY then S3_Notempty
      else if error = EDQUOT then S3_Dquot
      else if error = ESTALE then S3_Stale
      else if error = EOPNOTSUPP then S3_Notsupp
      else S3_Io)"

definition v3_error_allowed :: "Proc \<Rightarrow> Status3 \<Rightarrow> bool" where
  "v3_error_allowed proc status =
     (if status = S3_Ok \<or> status = S3_Io \<or> status = S3_Serverfault then True
      else if status = S3_Stale \<or> status = S3_Badhandle then proc \<noteq> P_Null
      else if proc = P_Getattr
      then False
      else if proc = P_Lookup
      then status \<in> set [S3_Noent, S3_Acces, S3_Notdir, S3_Nametoolong]
      else if proc = P_Access
      then False
      else if proc = P_Readlink
      then status \<in> set [S3_Inval, S3_Acces, S3_Notsupp]
      else if proc = P_Read
      then status \<in> set [S3_Nxio, S3_Acces, S3_Isdir, S3_Inval, S3_Jukebox]
      else if proc = P_Readdir
      then status \<in> set [S3_Acces, S3_Notdir, S3_BadCookie, S3_Toosmall]
      else if proc = P_Readdirplus
      then status \<in> set [S3_Acces, S3_Notdir, S3_BadCookie, S3_Toosmall, S3_Notsupp]
      else if proc \<in> set [P_Fsstat, P_Fsinfo, P_Pathconf]
      then False
      else if proc = P_Setattr
      then status \<in> set [S3_Perm, S3_Acces, S3_Inval, S3_Nospc, S3_Rofs, S3_Dquot, S3_NotSync, S3_Isdir, S3_Fbig, S3_Jukebox]
      else if proc = P_Write
      then status \<in> set [S3_Acces, S3_Fbig, S3_Dquot, S3_Inval, S3_Nospc, S3_Rofs, S3_Jukebox, S3_Isdir]
      else if proc = P_Create
      then status \<in> set [S3_Acces, S3_Exist, S3_Dquot, S3_Nametoolong, S3_Nospc, S3_Rofs, S3_Notdir, S3_Notsupp, S3_Jukebox]
      else if proc = P_Mkdir
      then status \<in> set [S3_Acces, S3_Exist, S3_Dquot, S3_Nametoolong, S3_Nospc, S3_Rofs, S3_Notdir, S3_Mlink]
      else if proc = P_Symlink
      then status \<in> set [S3_Acces, S3_Exist, S3_Dquot, S3_Nametoolong, S3_Nospc, S3_Rofs, S3_Notdir, S3_Notsupp]
      else if proc = P_Mknod
      then status \<in> set [S3_Acces, S3_Exist, S3_Dquot, S3_Nametoolong, S3_Nospc, S3_Rofs, S3_Notdir, S3_Notsupp, S3_Badtype,
         S3_Perm]
      else if proc = P_Remove
      then status \<in> set [S3_Noent, S3_Acces, S3_Nametoolong, S3_Notdir, S3_Rofs, S3_Isdir, S3_Perm, S3_Jukebox]
      else if proc = P_Rmdir
      then status \<in> set [S3_Noent, S3_Acces, S3_Inval, S3_Exist, S3_Nametoolong, S3_Notdir, S3_Notempty, S3_Rofs, S3_Notsupp,
         S3_Perm]
      else if proc = P_Rename
      then status \<in> set [S3_Noent, S3_Acces, S3_Exist, S3_Xdev, S3_Notdir, S3_Isdir, S3_Inval, S3_Nospc, S3_Mlink,
         S3_Nametoolong, S3_Notempty, S3_Dquot, S3_Rofs, S3_Notsupp, S3_Jukebox]
      else if proc = P_Link
      then status \<in> set [S3_Acces, S3_Exist, S3_Xdev, S3_Mlink, S3_Nametoolong, S3_Noent, S3_Notdir, S3_Dquot, S3_Rofs,
         S3_Inval, S3_Notsupp, S3_Perm, S3_Nospc]
      else if proc = P_Commit
      then False
      else True)"

definition to_v3 :: "errno \<Rightarrow> Proc \<Rightarrow> Status3" where
  "to_v3 error proc = (let mapped = raw_mapping error in if v3_error_allowed proc mapped then mapped else S3_Io)"

section \<open>NFSv4\<close>

definition raw_mapping_v4 :: "errno \<Rightarrow> Status" where
  "raw_mapping_v4 error =
     (if error = kBadHandle then S_Badhandle
      else if error = kJukebox then S_Delay
      else if error = kMoved then S_Moved
      else if error = EPERM then S_Perm
      else if error = ENOENT then S_Noent
      else if error = EIO then S_Io
      else if error = ENXIO then S_Nxio
      else if error = EACCES then S_Access
      else if error = EEXIST then S_Exist
      else if error = EXDEV then S_Xdev
      else if error = ENOTDIR then S_Notdir
      else if error = EISDIR then S_Isdir
      else if error = EINVAL then S_Inval
      else if error = EFBIG then S_Fbig
      else if error = ENOSPC then S_Nospc
      else if error = EROFS then S_Rofs
      else if error = EMLINK then S_Mlink
      else if error = ENAMETOOLONG then S_Nametoolong
      else if error = ENOTEMPTY then S_Notempty
      else if error = EDQUOT then S_Dquot
      else if error = ESTALE then S_Stale
      else if error = EOPNOTSUPP then S_Notsupp
      else S_Io)"

definition v4_error_allowed :: "Op \<Rightarrow> Status \<Rightarrow> bool" where
  "v4_error_allowed op status =
     (if status = S_Ok \<or> status = S_Io \<or> status = S_Serverfault \<or> status = S_Stale \<or>
         status = S_Badhandle \<or> status = S_Access \<or> status = S_Delay \<or> status = S_Moved then True
      else if op = O_Lookup
      then status \<in> set [S_Noent, S_Notdir, S_Nametoolong, S_Badname, S_Symlink, S_Wrongsec]
      else if op = O_Lookupp
      then status \<in> set [S_Noent, S_Notdir, S_Symlink]
      else if op \<in> set [O_Getattr, O_Verify, O_Nverify, O_Getfh, O_Putfh, O_Putrootfh, O_Savefh, O_Restorefh]
      then False
      else if op = O_Access
      then False
      else if op = O_Readlink
      then status \<in> set [S_Inval, S_WrongType, S_Notsupp]
      else if op = O_Read
      then status \<in> set [S_Inval, S_Isdir, S_WrongType, S_Openmode, S_BadStateid, S_StaleStateid, S_OldStateid, S_Grace,
         S_Expired]
      else if op = O_Readdir
      then status \<in> set [S_Notdir, S_BadCookie, S_Toosmall, S_Inval, S_NotSame]
      else if op = O_Open
      then status \<in> set [S_Noent, S_Notdir, S_Isdir, S_Symlink, S_WrongType, S_Rofs, S_Exist, S_Nospc, S_Dquot, S_Nametoolong,
         S_Badname, S_ShareDenied, S_Grace, S_NoGrace, S_ReclaimBad, S_StaleClientid, S_Inval, S_Perm]
      else if op \<in> set [O_Close, O_OpenDowngrade]
      then status \<in> set [S_BadStateid, S_StaleStateid, S_OldStateid, S_Expired, S_Inval]
      else if op = O_Write
      then status \<in> set [S_Inval, S_Isdir, S_WrongType, S_Openmode, S_BadStateid, S_StaleStateid, S_OldStateid, S_Grace,
         S_Expired, S_Rofs, S_Fbig, S_Nospc, S_Dquot, S_Locked]
      else if op = O_Commit
      then status \<in> set [S_Inval, S_Isdir, S_WrongType, S_Rofs]
      else if op = O_Setattr
      then status \<in> set [S_Inval, S_Isdir, S_Perm, S_Rofs, S_Fbig, S_Nospc, S_Dquot, S_Attrnotsupp, S_Badowner, S_BadStateid,
         S_StaleStateid, S_OldStateid, S_Openmode, S_Grace, S_Expired, S_Locked]
      else if op = O_Create
      then status \<in> set [S_Noent, S_Notdir, S_Exist, S_Rofs, S_Nospc, S_Dquot, S_Nametoolong, S_Badname, S_Badtype, S_Perm,
         S_Inval, S_Mlink, S_Attrnotsupp, S_Badowner, S_Notsupp]
      else if op = O_Remove
      then status \<in> set [S_Noent, S_Notdir, S_Notempty, S_Rofs, S_Nametoolong, S_Badname, S_Inval, S_Perm, S_FileOpen]
      else if op = O_Rename
      then status \<in> set [S_Noent, S_Notdir, S_Isdir, S_Exist, S_Notempty, S_Xdev, S_Rofs, S_Nametoolong, S_Badname, S_Inval,
         S_Perm, S_Nospc, S_Dquot, S_Mlink, S_FileOpen, S_Restorefh]
      else if op = O_Link
      then status \<in> set [S_Noent, S_Notdir, S_Isdir, S_Exist, S_Xdev, S_Rofs, S_Nametoolong, S_Badname, S_Inval, S_Perm,
         S_Nospc, S_Dquot, S_Mlink, S_Notsupp, S_WrongType, S_Restorefh]
      else if op \<in> set [O_Lock, O_Lockt, O_Locku]
      then status \<in> set [S_Inval, S_Isdir, S_WrongType, S_Denied, S_BadStateid, S_StaleStateid, S_OldStateid, S_Openmode,
         S_Grace, S_NoGrace, S_ReclaimBad, S_Expired, S_StaleClientid, S_BadRange, S_LockRange, S_LockNotsupp]
      else if op = O_Secinfo
      then status \<in> set [S_Noent, S_Notdir, S_Nametoolong, S_Badname, S_Inval, S_Wrongsec]
      else if op = O_SecinfoNoName
      then status \<in> set [S_Noent, S_Notdir, S_Inval, S_Wrongsec]
      else if op = O_FreeStateid
      then status \<in> set [S_BadStateid, S_StaleStateid, S_LocksHeld]
      else if op = O_TestStateid
      then False
      else if op = O_ReclaimComplete
      then status \<in> set [S_CompleteAlready, S_StaleClientid]
      else if op = O_Seek
      then status \<in> set [S_Inval, S_Isdir, S_WrongType, S_Symlink, S_Nxio, S_Notsupp, S_UnionNotsupp, S_BadStateid,
         S_StaleStateid, S_OldStateid, S_Openmode, S_Grace, S_Expired]
      else if op \<in> set [O_Allocate, O_Deallocate]
      then status \<in> set [S_Inval, S_Isdir, S_WrongType, S_Symlink, S_Notsupp, S_BadStateid, S_StaleStateid, S_OldStateid,
         S_Openmode, S_Grace, S_Expired, S_Rofs, S_Fbig, S_Nospc, S_Dquot]
      else if op = O_Clone
      then status \<in> set [S_Inval, S_Isdir, S_WrongType, S_Symlink, S_Notsupp, S_BadStateid, S_StaleStateid, S_OldStateid,
         S_Openmode, S_Grace, S_Expired, S_Rofs, S_Fbig, S_Nospc, S_Dquot, S_Xdev, S_Locked]
      else if op = O_Copy
      then status \<in> set [S_Inval, S_Isdir, S_WrongType, S_Symlink, S_Notsupp, S_BadStateid, S_StaleStateid, S_OldStateid,
         S_Openmode, S_Grace, S_Expired, S_Rofs, S_Fbig, S_Nospc, S_Dquot, S_Xdev, S_Locked, S_OffloadDenied]
      else True)"

definition to_v4 :: "errno \<Rightarrow> Op \<Rightarrow> Status" where
  "to_v4 error op = (let mapped = raw_mapping_v4 error in if v4_error_allowed op mapped then mapped else S_Io)"

section \<open>Every answer is in the table\<close>

lemma raw_mapping_error: "raw_mapping e \<noteq> S3_Ok"
  unfolding raw_mapping_def by (simp split: if_split)

lemma raw_mapping_v4_error: "raw_mapping_v4 e \<noteq> S_Ok"
  unfolding raw_mapping_v4_def by (simp split: if_split)

text \<open>The NFSv3 procedures that may meet a delegation that has to be recalled, and READ and WRITE.\<close>

definition retry_procs :: "Proc list" where
  "retry_procs = [P_Setattr, P_Read, P_Write, P_Create, P_Remove, P_Rename]"


end
