(* ===== verification/Names.thy ===== *)
theory Names
  imports Prelude
begin

text \<open>
  Names of directory entries (\<^verbatim>\<open>src/src/core/names.cpp\<close>): the discipline for one path component and the
  strict UTF-8 check, with its specification by code points.
\<close>

section \<open>Components\<close>

definition kMaxNameLen :: nat where "kMaxNameLen = 255"

datatype NameCheck = NameOk | NameEmpty | NameTooLong | NameBadChar | NameDot

text \<open>A name is its bytes; 47 is the slash and 46 the dot.\<close>

definition check_component :: "bytes \<Rightarrow> nat \<Rightarrow> NameCheck" where
  "check_component name max_len =
     (if name = [] then NameEmpty
      else if length name > max_len then NameTooLong
      else if 47 \<in> set name \<or> 0 \<in> set name then NameBadChar
      else if name = [46] \<or> name = [46, 46] then NameDot
      else NameOk)"

definition valid_component :: "bytes \<Rightarrow> bool \<Rightarrow> nat \<Rightarrow> bool" where
  "valid_component name allow_dots max_len =
     (let c = check_component name max_len in c = NameOk \<or> (allow_dots \<and> c = NameDot))"

section \<open>UTF-8\<close>

definition utf8_len :: "u8 \<Rightarrow> nat" where
  "utf8_len c =
     (if c < 0x80 then 1 else if drop_bit 5 c = 0x6 then 2 else if drop_bit 4 c = 0xE then 3
      else if drop_bit 3 c = 0x1E then 4 else 0)"

text \<open>What one turn of the loop refuses about the character at the front of the bytes.\<close>

definition utf8_bad :: "nat \<Rightarrow> bytes \<Rightarrow> bool" where
  "utf8_bad len bs =
     (let c = bs ! 0
      in list_ex (\<lambda>b. b AND 0xC0 \<noteq> 0x80) (take (len - 1) (tl bs)) \<or>
         len = 2 \<and> c < 0xC2 \<or>
         len = 3 \<and> c = 0xE0 \<and> bs ! 1 < 0xA0 \<or>
         len = 3 \<and> c = 0xED \<and> bs ! 1 > 0x9F \<or>
         len = 3 \<and> c = 0xEF \<and> bs ! 1 = 0xBF \<and> (bs ! 2 = 0xBE \<or> bs ! 2 = 0xBF) \<or>
         len = 4 \<and> c = 0xF0 \<and> bs ! 1 < 0x90 \<or>
         len = 4 \<and> (c > 0xF4 \<or> c = 0xF4 \<and> bs ! 1 > 0x8F))"

function valid_utf8 :: "bytes \<Rightarrow> bool" where
  "valid_utf8 bs =
     (if bs = [] then True
      else let len = utf8_len (hd bs)
           in if len = 0 \<or> len > length bs then False
              else if utf8_bad len bs then False
              else valid_utf8 (drop len bs))"
  by pat_completeness auto
termination by (relation "measure length") auto

declare valid_utf8.simps [simp del]

section \<open>The specification\<close>

text \<open>The code points a name may hold, and the encoding of one.\<close>

definition name_point :: "nat \<Rightarrow> bool" where
  "name_point p \<longleftrightarrow> p \<le> 0x10FFFF \<and> \<not> (0xD800 \<le> p \<and> p \<le> 0xDFFF) \<and> p \<noteq> 0xFFFE \<and> p \<noteq> 0xFFFF"

definition utf8_point :: "nat \<Rightarrow> bytes" where
  "utf8_point p =
     (if p < 0x80 then [of_nat p]
      else if p < 0x800 then [of_nat (0xC0 + p div 64), of_nat (0x80 + p mod 64)]
      else if p < 0x10000 then [of_nat (0xE0 + p div 4096), of_nat (0x80 + p div 64 mod 64), of_nat (0x80 + p mod 64)]
      else [of_nat (0xF0 + p div 262144), of_nat (0x80 + p div 4096 mod 64), of_nat (0x80 + p div 64 mod 64), of_nat (0x80 + p mod 64)])"

subsection \<open>Bytes as numbers\<close>

lemma u8_bound: "unat (c :: u8) < 256"
  using unsigned_less [of c, where ?'a = nat] by simp

text \<open>A fact about one byte can be checked on the 256 bytes.\<close>

lemma u8_cases:
  assumes "list_all (\<lambda>n. P (of_nat n) n) [0..<256]"
  shows "P (c :: u8) (unat c)"
proof -
  have "\<forall>n\<in>set [0..<256]. P (of_nat n) n" using assms by (simp only: list_all_iff)
  moreover have "unat c \<in> set [0..<256]" using u8_bound [of c] by simp
  ultimately have "P (of_nat (unat c)) (unat c)" by blast
  then show ?thesis by simp
qed

lemma u8_class:
  "drop_bit 5 (c :: u8) = 0x6 \<longleftrightarrow> 192 \<le> unat c \<and> unat c < 224"
  "drop_bit 4 (c :: u8) = 0xE \<longleftrightarrow> 224 \<le> unat c \<and> unat c < 240"
  "drop_bit 3 (c :: u8) = 0x1E \<longleftrightarrow> 240 \<le> unat c \<and> unat c < 248"
  by (rule u8_cases; code_simp)+

lemma u8_cont: "(c :: u8) AND 0xC0 = 0x80 \<longleftrightarrow> 128 \<le> unat c \<and> unat c < 192"
  by (rule u8_cases) code_simp

lemmas u8_nat = word_less_nat_alt word_unat_eq_iff u8_class u8_cont

lemma unat_u8: "n < 256 \<Longrightarrow> unat (of_nat n :: u8) = n"
  by (simp add: unat_of_nat take_bit_eq_mod)

subsection \<open>One character\<close>

lemma utf8_len_nat:
  "utf8_len c = (if unat c < 128 then 1 else if 192 \<le> unat c \<and> unat c < 224 then 2
     else if 224 \<le> unat c \<and> unat c < 240 then 3 else if 240 \<le> unat c \<and> unat c < 248 then 4 else 0)"
  by (simp add: utf8_len_def word_less_nat_alt u8_class)

lemma valid_utf8_nil [simp]: "valid_utf8 []"
  by (simp add: valid_utf8.simps)

lemma valid_utf8_cons:
  "valid_utf8 (c # r) \<longleftrightarrow>
     utf8_len c \<noteq> 0 \<and> utf8_len c \<le> length (c # r) \<and> \<not> utf8_bad (utf8_len c) (c # r) \<and> valid_utf8 (drop (utf8_len c) (c # r))"
  by (subst valid_utf8.simps) (auto simp: Let_def)

text \<open>The numbers of the bytes of each length that the check accepts.\<close>

definition ok2 :: "nat \<Rightarrow> nat \<Rightarrow> bool" where
  "ok2 c d \<longleftrightarrow> 194 \<le> c \<and> c < 224 \<and> 128 \<le> d \<and> d < 192"

definition ok3 :: "nat \<Rightarrow> nat \<Rightarrow> nat \<Rightarrow> bool" where
  "ok3 c d e \<longleftrightarrow> 224 \<le> c \<and> c < 240 \<and> 128 \<le> d \<and> d < 192 \<and> 128 \<le> e \<and> e < 192 \<and>
     (c = 224 \<longrightarrow> 160 \<le> d) \<and> (c = 237 \<longrightarrow> d \<le> 159) \<and> \<not> (c = 239 \<and> d = 191 \<and> 190 \<le> e)"

definition ok4 :: "nat \<Rightarrow> nat \<Rightarrow> nat \<Rightarrow> nat \<Rightarrow> bool" where
  "ok4 c d e f \<longleftrightarrow> 240 \<le> c \<and> c \<le> 244 \<and> 128 \<le> d \<and> d < 192 \<and> 128 \<le> e \<and> e < 192 \<and> 128 \<le> f \<and> f < 192 \<and>
     (c = 240 \<longrightarrow> 144 \<le> d) \<and> (c = 244 \<longrightarrow> d \<le> 143)"

lemma u8_cont_nat: "unat ((c :: u8) AND 192) = 128 \<longleftrightarrow> 128 \<le> unat c \<and> unat c < 192"
  using u8_cont [of c] by (simp add: word_unat_eq_iff)

lemma step1: "unat c < 128 \<Longrightarrow> valid_utf8 (c # r) \<longleftrightarrow> valid_utf8 r"
  by (simp add: valid_utf8_cons utf8_len_nat utf8_bad_def)

lemma step2: "192 \<le> unat c \<Longrightarrow> unat c < 224 \<Longrightarrow> valid_utf8 (c # d # r) \<longleftrightarrow> ok2 (unat c) (unat d) \<and> valid_utf8 r"
  by (auto simp: valid_utf8_cons [of c] utf8_len_nat utf8_bad_def ok2_def word_less_nat_alt u8_cont)

lemma step3:
  "224 \<le> unat c \<Longrightarrow> unat c < 240 \<Longrightarrow>
   valid_utf8 (c # d # e # r) \<longleftrightarrow> ok3 (unat c) (unat d) (unat e) \<and> valid_utf8 r"
  by (auto simp: valid_utf8_cons [of c] utf8_len_nat utf8_bad_def ok3_def word_less_nat_alt word_unat_eq_iff u8_cont_nat)

lemma step4:
  "240 \<le> unat c \<Longrightarrow> unat c < 248 \<Longrightarrow>
   valid_utf8 (c # d # e # f # r) \<longleftrightarrow> ok4 (unat c) (unat d) (unat e) (unat f) \<and> valid_utf8 r"
  by (auto simp: valid_utf8_cons [of c] utf8_len_nat utf8_bad_def ok4_def word_less_nat_alt word_unat_eq_iff u8_cont_nat)

subsection \<open>Digits of a code point\<close>

lemma digits3: "p = 4096 * (p div 4096) + 64 * (p div 64 mod 64) + p mod 64" for p :: nat
proof -
  have "p div 4096 = p div 64 div 64" by (simp add: div_mult2_eq [symmetric])
  moreover have "p div 64 = 64 * (p div 64 div 64) + p div 64 mod 64" "p = 64 * (p div 64) + p mod 64" by simp_all
  ultimately show ?thesis by linarith
qed

lemma digits4: "p = 262144 * (p div 262144) + 4096 * (p div 4096 mod 64) + 64 * (p div 64 mod 64) + p mod 64" for p :: nat
proof -
  have "p div 262144 = p div 4096 div 64" by (simp add: div_mult2_eq [symmetric])
  moreover have "p div 4096 = 64 * (p div 4096 div 64) + p div 4096 mod 64" by simp
  ultimately show ?thesis using digits3 [of p] by linarith
qed

lemma digits_of3:
  assumes "y < 64" "z < (64 :: nat)" and p: "p = 4096 * x + 64 * y + z"
  shows "p div 4096 = x" "p div 64 mod 64 = y" "p mod 64 = z"
proof -
  have e: "p = z + 64 * (64 * x + y)" using p by simp
  have "p div 64 = 64 * x + y" unfolding e div_mult_self2 [OF zero_neq_numeral [symmetric]] using assms(2) by simp
  moreover have "p mod 64 = z" unfolding e mod_mult_self2 using assms(2) by simp
  moreover have "p div 4096 = p div 64 div 64" by (simp add: div_mult2_eq [symmetric])
  ultimately show "p div 4096 = x" "p div 64 mod 64 = y" "p mod 64 = z" using assms(1) by simp_all
qed

lemma digits_of4:
  assumes "x < 64" "y < 64" "z < (64 :: nat)" and p: "p = 262144 * w + 4096 * x + 64 * y + z"
  shows "p div 262144 = w" "p div 4096 mod 64 = x" "p div 64 mod 64 = y" "p mod 64 = z"
proof -
  have d: "p div 4096 = 64 * w + x" "p div 64 mod 64 = y" "p mod 64 = z"
    using digits_of3 [of y z p "64 * w + x"] assms by simp_all
  have "p div 262144 = p div 4096 div 64" by (simp add: div_mult2_eq [symmetric])
  then show "p div 262144 = w" "p div 4096 mod 64 = x" "p div 64 mod 64 = y" "p mod 64 = z" using d assms(1) by simp_all
qed

lemma ok3_point:
  assumes "x < 16" "y < 64" "z < 64" and p: "p = 4096 * x + 64 * y + z"
  shows "ok3 (224 + x) (128 + y) (128 + z) \<longleftrightarrow> 2048 \<le> p \<and> name_point p"
proof -
  have "2048 \<le> p \<longleftrightarrow> (x = 0 \<longrightarrow> 32 \<le> y)" using assms by linarith
  moreover have "55296 \<le> p \<and> p \<le> 57343 \<longleftrightarrow> x = 13 \<and> 32 \<le> y"
  proof (cases "x = 13")
    case False
    then have "x \<le> 12 \<or> 14 \<le> x" by linarith
    then have "\<not> (55296 \<le> p \<and> p \<le> 57343)" using assms by (elim disjE) linarith+
    then show ?thesis using False by blast
  qed (use assms in auto)
  moreover have "65534 \<le> p \<longleftrightarrow> x = 15 \<and> y = 63 \<and> 62 \<le> z"
  proof (cases "x = 15 \<and> y = 63")
    case False
    then have "x \<le> 14 \<or> x = 15 \<and> y \<le> 62" using assms by linarith
    then have "p < 65534" using assms by (elim disjE) linarith+
    then show ?thesis using False by auto
  qed (use assms in auto)
  moreover have "p < 65536" using assms by linarith
  moreover from this have "65534 \<le> p \<longleftrightarrow> p = 65534 \<or> p = 65535" by linarith
  ultimately show ?thesis using assms(1-3) unfolding ok3_def name_point_def by auto
qed

lemma ok4_point:
  assumes "x < 64" "y < 64" "z < 64" and p: "p = 262144 * w + 4096 * x + 64 * y + z"
  shows "ok4 (240 + w) (128 + x) (128 + y) (128 + z) \<longleftrightarrow> 65536 \<le> p \<and> name_point p"
proof -
  have "65536 \<le> p \<longleftrightarrow> (w = 0 \<longrightarrow> 16 \<le> x)" using assms by linarith
  moreover have "p \<le> 1114111 \<longleftrightarrow> w < 4 \<or> w = 4 \<and> x \<le> 15"
  proof -
    consider "w < 4" | "w = 4" | "4 < w" by linarith
    then show ?thesis using assms by cases (simp_all, linarith+)
  qed
  ultimately show ?thesis using assms(1-3) unfolding ok4_def name_point_def by auto
qed

subsection \<open>Accepted exactly when encoded\<close>

lemma encoded_valid:
  assumes "name_point p"
  shows "valid_utf8 (utf8_point p @ r) \<longleftrightarrow> valid_utf8 r"
proof -
  consider "p < 128" | "128 \<le> p" "p < 2048" | "2048 \<le> p" "p < 65536" | "65536 \<le> p" "p \<le> 1114111"
    using assms by (force simp: name_point_def)
  then show ?thesis
  proof cases
    case 1
    then show ?thesis by (simp add: utf8_point_def step1 unat_u8)
  next
    case 2
    then have "ok2 (192 + p div 64) (128 + p mod 64)" by (auto simp: ok2_def)
    then show ?thesis using 2 by (simp add: utf8_point_def step2 unat_u8 ok2_def del: of_nat_add)
  next
    case 3
    have "ok3 (224 + p div 4096) (128 + p div 64 mod 64) (128 + p mod 64)"
      using ok3_point [OF _ _ _ digits3 [of p]] assms 3 by (simp add: less_mult_imp_div_less)
    then show ?thesis using 3 by (simp add: utf8_point_def step3 unat_u8 ok3_def del: of_nat_add)
  next
    case 4
    have "ok4 (240 + p div 262144) (128 + p div 4096 mod 64) (128 + p div 64 mod 64) (128 + p mod 64)"
      using ok4_point [OF _ _ _ digits4 [of p]] assms 4 by simp
    then show ?thesis using 4 by (simp add: utf8_point_def step4 unat_u8 ok4_def del: of_nat_add)
  qed
qed


lemma decode2:
  assumes "ok2 (unat c) (unat d)"
  shows "\<exists>p. name_point p \<and> utf8_point p = [c, d]"
proof -
  obtain x y where xy: "unat c = 192 + x" "unat d = 128 + y" "2 \<le> x" "x < 32" "y < 64"
    using assms by (auto simp: ok2_def le_iff_add)
  let ?p = "y + 64 * x"
  have p: "?p div 64 = x" "?p mod 64 = y" using xy(5) by simp_all
  have q: "128 \<le> ?p" "?p < 2048" using xy(3-5) by linarith+
  have "[of_nat (192 + ?p div 64), of_nat (128 + ?p mod 64)] = [c, d]" unfolding p xy(1,2) [symmetric] by simp
  then have "utf8_point ?p = [c, d]" using q unfolding utf8_point_def by simp
  moreover have "name_point ?p" using q by (simp add: name_point_def)
  ultimately show ?thesis by blast
qed

lemma decode3:
  assumes "ok3 (unat c) (unat d) (unat e)"
  shows "\<exists>p. name_point p \<and> utf8_point p = [c, d, e]"
proof -
  obtain x y z where xyz: "unat c = 224 + x" "unat d = 128 + y" "unat e = 128 + z" "x < 16" "y < 64" "z < 64"
    using assms by (auto simp: ok3_def le_iff_add)
  let ?p = "4096 * x + 64 * y + z"
  have p: "?p div 4096 = x" "?p div 64 mod 64 = y" "?p mod 64 = z" by (rule digits_of3 [OF xyz(5,6) refl])+
  have q: "2048 \<le> ?p" "name_point ?p" using ok3_point [OF xyz(4-6) refl] assms by (simp_all add: xyz(1-3))
  have q1: "?p < 65536" using xyz(4-6) by linarith
  have "[of_nat (224 + ?p div 4096), of_nat (128 + ?p div 64 mod 64), of_nat (128 + ?p mod 64)] = [c, d, e]"
    unfolding p xyz(1-3) [symmetric] by simp
  then have "utf8_point ?p = [c, d, e]" using q(1) q1 unfolding utf8_point_def by simp
  then show ?thesis using q(2) by blast
qed

lemma decode4:
  assumes "ok4 (unat c) (unat d) (unat e) (unat f)"
  shows "\<exists>p. name_point p \<and> utf8_point p = [c, d, e, f]"
proof -
  obtain w x y z where xyz: "unat c = 240 + w" "unat d = 128 + x" "unat e = 128 + y" "unat f = 128 + z"
      "w < 5" "x < 64" "y < 64" "z < 64"
    using assms by (auto simp: ok4_def le_iff_add)
  let ?p = "262144 * w + 4096 * x + 64 * y + z"
  have p: "?p div 262144 = w" "?p div 4096 mod 64 = x" "?p div 64 mod 64 = y" "?p mod 64 = z"
    by (rule digits_of4 [OF xyz(6-8) refl])+
  have q: "65536 \<le> ?p" "name_point ?p" using ok4_point [OF xyz(6-8) refl] assms by (simp_all add: xyz(1-4))
  have "[of_nat (240 + ?p div 262144), of_nat (128 + ?p div 4096 mod 64), of_nat (128 + ?p div 64 mod 64),
      of_nat (128 + ?p mod 64)] = [c, d, e, f]"
    unfolding p xyz(1-4) [symmetric] by simp
  then have "utf8_point ?p = [c, d, e, f]" using q(1) unfolding utf8_point_def by simp
  then show ?thesis using q(2) by blast
qed

lemma valid_encoded:
  assumes v: "valid_utf8 (c # r1)"
  shows "\<exists>p r. name_point p \<and> c # r1 = utf8_point p @ r \<and> valid_utf8 r"
proof -
  have len: "utf8_len c \<noteq> 0" "utf8_len c \<le> Suc (length r1)" using v by (auto simp: valid_utf8_cons)
  consider "unat c < 128" | "192 \<le> unat c" "unat c < 224" | "224 \<le> unat c" "unat c < 240" | "240 \<le> unat c" "unat c < 248"
    using len(1) by (auto simp: utf8_len_nat split: if_splits)
  then show ?thesis
  proof cases
    case 1
    then have "name_point (unat c)" "utf8_point (unat c) = [c]" by (simp_all add: name_point_def utf8_point_def)
    then show ?thesis using v 1 by (intro exI [of _ "unat c"] exI [of _ r1]) (simp add: step1)
  next
    case 2
    then obtain d r where r1: "r1 = d # r" using len(2) by (cases r1) (auto simp: utf8_len_nat)
    have ok: "ok2 (unat c) (unat d)" "valid_utf8 r" using v step2 [OF 2] by (simp_all add: r1)
    then show ?thesis using decode2 [OF ok(1)] by (force simp: r1)
  next
    case 3
    then obtain d e r where r1: "r1 = d # e # r"
      using len(2) by (cases r1; cases "tl r1") (auto simp: utf8_len_nat)
    have ok: "ok3 (unat c) (unat d) (unat e)" "valid_utf8 r" using v step3 [OF 3] by (simp_all add: r1)
    then show ?thesis using decode3 [OF ok(1)] by (force simp: r1)
  next
    case 4
    then obtain d e f r where r1: "r1 = d # e # f # r"
      using len(2) by (cases r1; cases "tl r1"; cases "tl (tl r1)") (auto simp: utf8_len_nat)
    have ok: "ok4 (unat c) (unat d) (unat e) (unat f)" "valid_utf8 r" using v step4 [OF 4] by (simp_all add: r1)
    then show ?thesis using decode4 [OF ok(1)] by (force simp: r1)
  qed
qed

text \<open>C40: The UTF-8 check accepts exactly the encodings of permitted text: a byte string passes if and only if it is the
  concatenation of the shortest encodings of code points up to 10FFFF that are not surrogates and not FFFE
  or FFFF.\<close>

theorem valid_utf8_exact: "valid_utf8 bs \<longleftrightarrow> (\<exists>ps. list_all name_point ps \<and> bs = concat (map utf8_point ps))"
proof
  show "valid_utf8 bs \<Longrightarrow> \<exists>ps. list_all name_point ps \<and> bs = concat (map utf8_point ps)"
  proof (induction "length bs" arbitrary: bs rule: less_induct)
    case less
    show ?case
    proof (cases "bs = []")
      case True
      then show ?thesis by (intro exI [of _ "[]"]) simp
    next
      case False
      obtain p r where p: "name_point p" "bs = utf8_point p @ r" "valid_utf8 r"
        using valid_encoded less.prems False by (cases bs) blast+
      have "length r < length bs" using p(2) by (simp add: utf8_point_def)
      then obtain ps where "list_all name_point ps" "r = concat (map utf8_point ps)" using less.hyps p(3) by blast
      then show ?thesis using p by (intro exI [of _ "p # ps"]) simp
    qed
  qed
next
  assume "\<exists>ps. list_all name_point ps \<and> bs = concat (map utf8_point ps)"
  then obtain ps where "list_all name_point ps" "bs = concat (map utf8_point ps)" by blast
  then show "valid_utf8 bs" by (induction ps arbitrary: bs) (simp_all add: encoded_valid)
qed

end
