(* ===== verification/FileHandle.thy ===== *)
theory FileHandle
  imports Exports LockMgr
begin

text \<open>
  File handles (\<^verbatim>\<open>src/src/core/file_handle.cpp\<close>): version, export id and object id, authenticated by a
  SipHash-2-4 tag under the server's key.  The loading of the key file is not modelled; the key is
  an argument.
\<close>

section \<open>Object ids\<close>

definition oid_kMax :: nat where "oid_kMax = 51"

definition oid_from :: "bytes \<Rightarrow> ObjId res" where
  "oid_from v = (if v = [] \<or> length v > oid_kMax then Inl EINVAL else Inr v)"

section \<open>The tag\<close>

definition rotl :: "u64 \<Rightarrow> nat \<Rightarrow> u64" where
  "rotl v n = push_bit n v OR drop_bit (64 - n) v"

definition read64 :: "bytes \<Rightarrow> u64" where
  "read64 p = le_word (take 8 p)"

type_synonym sip = "u64 \<times> u64 \<times> u64 \<times> u64"

definition sip_round :: "sip \<Rightarrow> sip" where
  "sip_round = (\<lambda>(v0, v1, v2, v3).
     let v0 = v0 + v1; v1 = rotl v1 13 XOR v0; v0 = rotl v0 32;
         v2 = v2 + v3; v3 = rotl v3 16 XOR v2;
         v0 = v0 + v3; v3 = rotl v3 21 XOR v0;
         v2 = v2 + v1; v1 = rotl v1 17 XOR v2; v2 = rotl v2 32
     in (v0, v1, v2, v3))"

definition sip_absorb :: "u64 \<Rightarrow> sip \<Rightarrow> sip" where
  "sip_absorb m = (\<lambda>(v0, v1, v2, v3).
     let (w0, w1, w2, w3) = sip_round (sip_round (v0, v1, v2, v3 XOR m)) in (w0 XOR m, w1, w2, w3))"

text \<open>The loop over the whole 8-byte words; answers the state and the bytes left.\<close>

function sip_words :: "bytes \<Rightarrow> sip \<Rightarrow> sip \<times> bytes" where
  "sip_words bs v = (if length bs < 8 then (v, bs) else sip_words (drop 8 bs) (sip_absorb (read64 bs) v))"
  by pat_completeness auto
termination by (relation "measure (length \<circ> fst)") auto

declare sip_words.simps [simp del]

definition tag :: "bytes \<Rightarrow> bytes \<Rightarrow> u64" where
  "tag key bytes =
     (let k0 = read64 key; k1 = read64 (drop 8 key);
          v = (0x736f6d6570736575 XOR k0, 0x646f72616e646f6d XOR k1, 0x6c7967656e657261 XOR k0, 0x7465646279746573 XOR k1);
          (v, tail) = sip_words bytes v;
          end_word = push_bit 56 (of_nat (length bytes)) OR le_word tail;
          (v0, v1, v2, v3) = sip_absorb end_word v;
          (w0, w1, w2, w3) = (sip_round ^^ 4) (v0, v1, v2 XOR 0xff, v3)
      in w0 XOR w1 XOR w2 XOR w3)"

section \<open>Encoding and decoding\<close>

definition fh_kVersion :: u8 where "fh_kVersion = 1"

definition fsid_bytes :: "u32 \<Rightarrow> bytes" where
  "fsid_bytes f = [ucast (drop_bit 24 f), ucast (drop_bit 16 f), ucast (drop_bit 8 f), ucast f]"

definition load_be32 :: "bytes \<Rightarrow> u32" where
  "load_be32 p =
     push_bit 24 (ucast (p ! 0)) OR push_bit 16 (ucast (p ! 1)) OR push_bit 8 (ucast (p ! 2)) OR ucast (p ! 3)"

definition encode_raw :: "bytes \<Rightarrow> u32 \<Rightarrow> ObjId \<Rightarrow> bytes" where
  "encode_raw key fsid oid =
     (let out = [fh_kVersion] @ fsid_bytes fsid @ oid in out @ le_bytes 8 (tag key out))"

definition fh_encode :: "bytes \<Rightarrow> ExportEntry \<Rightarrow> ObjId \<Rightarrow> bytes" where
  "fh_encode key exp oid = encode_raw key (ee_fsid exp) oid"

definition fh_wellformed :: "bytes \<Rightarrow> bytes \<Rightarrow> bool" where
  "fh_wellformed key fh \<longleftrightarrow>
     \<not> (length fh < 14 \<or> length fh > 64 \<or> fh ! 0 \<noteq> fh_kVersion) \<and>
     tag key (take (length fh - 8) fh) = read64 (drop (length fh - 8) fh)"

definition fh_oid :: "bytes \<Rightarrow> bytes" where
  "fh_oid fh = take (length fh - 13) (drop 5 fh)"

text \<open>A handle of version 3: the address of the export and the object.\<close>

definition fh_decode ::
  "bytes \<Rightarrow> (nat \<Rightarrow> ExportEntry) \<Rightarrow> ExportSet \<Rightarrow> bytes \<Rightarrow> sockaddr \<Rightarrow> (nat \<times> ObjId) res" where
  "fh_decode key heap exports fh peer =
     (if \<not> fh_wellformed key fh then Inl kBadHandle
      else case by_fsid heap exports (load_be32 (drop 1 fh)) of
             None \<Rightarrow> Inl ESTALE
           | Some a \<Rightarrow>
               if \<not> check_client peer (heap a) then Inl EACCES
               else case oid_from (fh_oid fh) of Inl e \<Rightarrow> Inl kBadHandle | Inr oid \<Rightarrow> Inr (a, oid))"

record DecodedV4 =
  dv_fsid :: u32
  dv_oid :: ObjId
  dv_exp :: "nat option"

definition decode_v4 ::
  "bytes \<Rightarrow> (nat \<Rightarrow> ExportEntry) \<Rightarrow> ExportSet \<Rightarrow> bytes \<Rightarrow> sockaddr \<Rightarrow> DecodedV4 res" where
  "decode_v4 key heap exports fh peer =
     (if \<not> fh_wellformed key fh then Inl kBadHandle
      else case oid_from (fh_oid fh) of
             Inl e \<Rightarrow> Inl kBadHandle
           | Inr oid \<Rightarrow>
               let fsid = load_be32 (drop 1 fh)
               in if fsid = 0 then Inr \<lparr>dv_fsid = 0, dv_oid = oid, dv_exp = None\<rparr>
                  else case by_fsid heap exports fsid of
                         None \<Rightarrow> Inl ESTALE
                       | Some a \<Rightarrow>
                           if \<not> check_client peer (heap a) then Inl EACCES
                           else Inr \<lparr>dv_fsid = fsid, dv_oid = oid, dv_exp = Some a\<rparr>)"

record Inspection =
  in_version :: u8
  in_fsid :: u32
  in_oid :: ObjId
  in_hmac_ok :: bool

definition inspect :: "bytes \<Rightarrow> bytes \<Rightarrow> Inspection res" where
  "inspect key fh =
     (if length fh < 14 \<or> length fh > 64 then Inl kBadHandle
      else case oid_from (fh_oid fh) of
             Inl e \<Rightarrow> Inl kBadHandle
           | Inr oid \<Rightarrow>
               Inr \<lparr>in_version = fh ! 0, in_fsid = load_be32 (drop 1 fh), in_oid = oid,
                    in_hmac_ok = (tag key (take (length fh - 8) fh) = read64 (drop (length fh - 8) fh))\<rparr>)"

section \<open>Handles are read as they were written\<close>

lemma fsid_bytes_rev: "fsid_bytes f = rev (le_bytes 4 f)"
  by (simp add: fsid_bytes_def eval_nat_numeral)

lemma load_be32_word: "load_be32 (a # b # c # d # r) = le_word [d, c, b, a]"
  by (simp add: load_be32_def push_bit_or ac_simps)

lemma load_fsid: "load_be32 (fsid_bytes f @ r) = f"
proof -
  have "le_word (le_bytes 4 f) = f" by (rule le_word_le_bytes) simp
  moreover have "load_be32 (fsid_bytes f @ r) = le_word (le_bytes 4 f)"
    by (simp add: fsid_bytes_def load_be32_word) (simp add: eval_nat_numeral)
  ultimately show ?thesis by simp
qed

lemma fsid_load: "fsid_bytes (load_be32 (a # b # c # d # r)) = [a, b, c, d]"
proof -
  have "8 * length [d, c, b, a] \<le> LENGTH(32)" by simp
  note le_bytes_le_word [OF this]
  moreover have "length [d, c, b, a] = 4" by simp
  ultimately have x: "le_bytes 4 (le_word [d, c, b, a] :: u32) = [d, c, b, a]" by (simp only:)
  show ?thesis unfolding load_be32_word fsid_bytes_rev x by simp
qed

lemma five_Cons: "5 \<le> length xs \<Longrightarrow> \<exists>v a b c d r. xs = v # a # b # c # d # r"
  by (auto simp: Suc_le_length_iff numeral_eq_Suc)

lemma fh_shape:
  assumes "14 \<le> length fh" "fh ! 0 = fh_kVersion"
  shows "fh = ([fh_kVersion] @ fsid_bytes (load_be32 (drop 1 fh)) @ fh_oid fh) @ drop (length fh - 8) fh"
proof -
  obtain v a b c d r where fh: "fh = v # a # b # c # d # r" using five_Cons [of fh] assms(1) by auto
  then have r: "9 \<le> length r" using assms(1) by simp
  have "drop (length fh - 8) fh = drop (length r - 8) r" using r by (simp add: fh drop_Cons' numeral_eq_Suc)
  moreover have "fh_oid fh = take (length r - 8) r" by (simp add: fh_oid_def fh)
  ultimately show ?thesis using assms(2) by (simp add: fh fsid_load)
qed

lemma read64_le_bytes: "read64 (le_bytes 8 w) = w"
  by (simp add: read64_def le_word_le_bytes)

lemma le_bytes_read64: "length bs = 8 \<Longrightarrow> le_bytes 8 (read64 bs) = bs"
  using le_bytes_le_word [of bs, where 'a = 64] by (simp add: read64_def)

text \<open>A handle passes the checks exactly when it is the encoding of what it holds.\<close>

lemma wellformed_iff:
  "fh_wellformed key fh \<longleftrightarrow>
     14 \<le> length fh \<and> length fh \<le> 64 \<and> fh = encode_raw key (load_be32 (drop 1 fh)) (fh_oid fh)"
proof
  assume wf: "fh_wellformed key fh"
  then have len: "14 \<le> length fh" "length fh \<le> 64" "fh ! 0 = fh_kVersion"
    and t: "tag key (take (length fh - 8) fh) = read64 (drop (length fh - 8) fh)" by (auto simp: fh_wellformed_def)
  define body where "body = [fh_kVersion] @ fsid_bytes (load_be32 (drop 1 fh)) @ fh_oid fh"
  define trailer where "trailer = drop (length fh - 8) fh"
  have split: "fh = body @ trailer" using fh_shape [OF len(1,3)] by (simp add: body_def trailer_def)
  have l: "length trailer = 8" using len by (simp add: trailer_def)
  then have "length fh - 8 = length body" using split by (metis add_diff_cancel_right' length_append)
  then have "take (length fh - 8) fh = body" using split by (metis append_eq_conv_conj)
  then have "le_bytes 8 (tag key body) = trailer" using t le_bytes_read64 [OF l] by (simp add: trailer_def)
  then have "fh = body @ le_bytes 8 (tag key body)" using split by simp
  then show "14 \<le> length fh \<and> length fh \<le> 64 \<and> fh = encode_raw key (load_be32 (drop 1 fh)) (fh_oid fh)"
    using len by (simp add: encode_raw_def Let_def body_def)
next
  assume enc: "14 \<le> length fh \<and> length fh \<le> 64 \<and> fh = encode_raw key (load_be32 (drop 1 fh)) (fh_oid fh)"
  define body where "body = [fh_kVersion] @ fsid_bytes (load_be32 (drop 1 fh)) @ fh_oid fh"
  have fh: "fh = body @ le_bytes 8 (tag key body)" using enc by (simp add: encode_raw_def Let_def body_def)
  have "take (length fh - 8) fh = body" "drop (length fh - 8) fh = le_bytes 8 (tag key body)" by (subst fh, simp)+
  moreover have "fh ! 0 = fh_kVersion" by (subst fh) (simp add: body_def)
  ultimately show "fh_wellformed key fh" using enc by (simp add: fh_wellformed_def read64_le_bytes)
qed

lemma encode_parts:
  "load_be32 (drop 1 (encode_raw key fsid oid)) = fsid" "fh_oid (encode_raw key fsid oid) = oid"
  "length (encode_raw key fsid oid) = 13 + length oid"
  by (simp_all add: encode_raw_def Let_def load_fsid fh_oid_def) (simp_all add: fsid_bytes_def)

lemma wellformed_encode:
  "oid \<noteq> [] \<Longrightarrow> length oid \<le> oid_kMax \<Longrightarrow> fh_wellformed key (encode_raw key fsid oid)"
  by (cases oid) (simp_all add: wellformed_iff encode_parts oid_kMax_def del: One_nat_def)

lemma wellformed_oid: "fh_wellformed key fh \<Longrightarrow> oid_from (fh_oid fh) = Inr (fh_oid fh)"
  by (auto simp: wellformed_iff oid_from_def oid_kMax_def fh_oid_def)

text \<open>C31: Handles are unforgeable up to the tag and gated by the export.  A version 4 handle decodes to an
export id and object exactly when it is, byte for byte, the encoding of that pair under the
server's key and, outside the pseudo file system, the id names an export of the set that admits
the peer.
\<close>

theorem decode_v4_exact:
  assumes "set_ok heap exports"
  shows "decode_v4 key heap exports fh peer = Inr d \<longleftrightarrow>
     dv_oid d \<noteq> [] \<and> length (dv_oid d) \<le> oid_kMax \<and> fh = encode_raw key (dv_fsid d) (dv_oid d) \<and>
     (if dv_fsid d = 0 then dv_exp d = None
      else \<exists>a. dv_exp d = Some a \<and> a \<in> set (es_entries exports) \<and> ee_fsid (heap a) = dv_fsid d \<and> check_client peer (heap a))"
proof (cases "fh_wellformed key fh")
  case True
  define f where "f = load_be32 (drop 1 fh)"
  define oid where "oid = fh_oid fh"
  have enc: "fh = encode_raw key f oid" "oid \<noteq> []" "length oid \<le> oid_kMax"
    using True wellformed_oid [OF True] by (auto simp: wellformed_iff oid_from_def f_def oid_def split: if_splits)
  have uniq: "fh = encode_raw key (dv_fsid d) (dv_oid d) \<longleftrightarrow> dv_fsid d = f \<and> dv_oid d = oid"
    using enc(1) encode_parts by metis
  have dec: "decode_v4 key heap exports fh peer =
      (if f = 0 then Inr \<lparr>dv_fsid = 0, dv_oid = oid, dv_exp = None\<rparr>
       else case by_fsid heap exports f of
              None \<Rightarrow> Inl ESTALE
            | Some a \<Rightarrow> if \<not> check_client peer (heap a) then Inl EACCES else Inr \<lparr>dv_fsid = f, dv_oid = oid, dv_exp = Some a\<rparr>)"
    unfolding decode_v4_def f_def oid_def Let_def using True wellformed_oid [OF True] by simp
  have look: "by_fsid heap exports f = Some a \<longleftrightarrow> a \<in> set (es_entries exports) \<and> ee_fsid (heap a) = f" for a
    using by_fsid_iff [OF assms] by (simp add: fsid_at_def)
  have gate: "(\<exists>a. dv_exp d = Some a \<and> a \<in> set (es_entries exports) \<and> ee_fsid (heap a) = f \<and> check_client peer (heap a)) \<longleftrightarrow>
      (\<exists>a. dv_exp d = Some a \<and> by_fsid heap exports f = Some a \<and> check_client peer (heap a))"
    using look by blast
  have "decode_v4 key heap exports fh peer = Inr d \<longleftrightarrow>
      dv_fsid d = f \<and> dv_oid d = oid \<and>
      (if f = 0 then dv_exp d = None
       else \<exists>a. dv_exp d = Some a \<and> by_fsid heap exports f = Some a \<and> check_client peer (heap a))"
    unfolding dec by (cases d; cases "by_fsid heap exports f") auto
  then show ?thesis unfolding uniq using enc(2,3) gate by auto
next
  case False
  then have "\<not> (dv_oid d \<noteq> [] \<and> length (dv_oid d) \<le> oid_kMax \<and> fh = encode_raw key (dv_fsid d) (dv_oid d))"
    using wellformed_encode by metis
  then show ?thesis using False by (auto simp: decode_v4_def)
qed

text \<open>C32: What the server hands out it accepts again.  The handle of an object of an export in the set
decodes, from any admitted peer, to that export and object.
\<close>

theorem handle_roundtrip:
  assumes "set_ok heap exports" "a \<in> set (es_entries exports)" "check_client peer (heap a)"
    and "oid \<noteq> []" "length oid \<le> oid_kMax"
  shows "fh_decode key heap exports (fh_encode key (heap a) oid) peer = Inr (a, oid) \<and>
         decode_v4 key heap exports (fh_encode key (heap a) oid) peer =
           Inr \<lparr>dv_fsid = ee_fsid (heap a), dv_oid = oid, dv_exp = Some a\<rparr>"
proof -
  have look: "by_fsid heap exports (ee_fsid (heap a)) = Some a"
    using by_fsid_iff [OF assms(1)] assms(2) by (simp add: fsid_at_def)
  have nz: "ee_fsid (heap a) \<noteq> 0" using assms(1,2) by (force simp: set_ok_def fsid_at_def)
  have wf: "fh_wellformed key (encode_raw key (ee_fsid (heap a)) oid)" using wellformed_encode assms(4,5) by blast
  show ?thesis
    using look nz wf assms(3) wellformed_oid [OF wf]
    by (simp add: fh_decode_def decode_v4_def fh_encode_def encode_parts Let_def del: One_nat_def)
qed

section \<open>Witnesses\<close>

definition demo_heap :: "nat \<Rightarrow> ExportEntry" where
  "demo_heap a = new_export_entry demo_export 1 [demo_cidr]"

definition demo_set :: ExportSet where
  "demo_set = \<lparr>es_generation = 1, es_epoch = 5, es_entries = [0]\<rparr>"

lemma demo_set_ok: "set_ok demo_heap demo_set"
  by (simp add: set_ok_def demo_set_def demo_heap_def fsid_at_def new_export_entry_def demo_export_def)

lemma demo_client: "check_client (SockIn [10, 1, 2, 3] 700) (demo_heap 0)"
  by code_simp

theorem decode_v4_exact_witness:
  "decode_v4 (replicate 16 3) demo_heap demo_set (encode_raw (replicate 16 3) 7 [1, 2, 3]) (SockIn [10, 1, 2, 3] 700) =
     Inr \<lparr>dv_fsid = 7, dv_oid = [1, 2, 3], dv_exp = Some 0\<rparr>"
  using demo_client
  by (subst decode_v4_exact [OF demo_set_ok])
     (simp add: oid_kMax_def demo_set_def, simp add: demo_heap_def new_export_entry_def demo_export_def)

theorem handle_roundtrip_witness:
  "fh_decode (replicate 16 3) demo_heap demo_set (fh_encode (replicate 16 3) (demo_heap 0) [1, 2, 3]) (SockIn [10, 1, 2, 3] 700) =
     Inr (0, [1, 2, 3])"
proof -
  have "(0 :: nat) \<in> set (es_entries demo_set)" by (simp add: demo_set_def)
  from handle_roundtrip [OF demo_set_ok this demo_client, of "[1, 2, 3]"] show ?thesis by (simp add: oid_kMax_def)
qed

end
