(* ===== verification/BackendApi.thy ===== *)
theory BackendApi
  imports FileHandle
begin

text \<open>
  The interface of storage backends (\<^verbatim>\<open>src/src/backend/api.hpp\<close>, \<^verbatim>\<open>api.cpp\<close>): attributes, credentials,
  directory pages, the default permission check and the default scatter write.
\<close>

section \<open>Data\<close>

datatype FType = FtReg | FtDir | FtBlk | FtChr | FtLnk | FtSock | FtFifo

record DevT =
  dev_major :: u32
  dev_minor :: u32

text \<open>Seconds are the bits of a signed 64-bit number.\<close>

record Timespec =
  ts_sec :: u64
  ts_nsec :: u32

record Attr =
  at_type :: FType
  at_mode :: u32
  at_nlink :: u32
  at_uid :: u32
  at_gid :: u32
  at_size :: u64
  at_used :: u64
  at_rdev :: DevT
  at_fileid :: u64
  at_atime :: Timespec
  at_mtime :: Timespec
  at_ctime :: Timespec
  at_change :: u64

definition zero_time :: Timespec where
  "zero_time = \<lparr>ts_sec = 0, ts_nsec = 0\<rparr>"

definition default_attr :: Attr where
  "default_attr =
     \<lparr>at_type = FtReg, at_mode = 0, at_nlink = 0, at_uid = 0, at_gid = 0, at_size = 0, at_used = 0,
      at_rdev = \<lparr>dev_major = 0, dev_minor = 0\<rparr>, at_fileid = 0, at_atime = zero_time, at_mtime = zero_time,
      at_ctime = zero_time, at_change = 0\<rparr>"

datatype TimeHow = TimeOmit | TimeServer | TimeClient

record SetAttr =
  sa_mode :: "u32 option"
  sa_uid :: "u32 option"
  sa_gid :: "u32 option"
  sa_size :: "u64 option"
  sa_atime_how :: TimeHow
  sa_atime :: Timespec
  sa_mtime_how :: TimeHow
  sa_mtime :: Timespec

record BackendCred =
  bc_uid :: u32
  bc_gid :: u32
  bc_gids :: "u32 list"

definition in_group :: "BackendCred \<Rightarrow> u32 \<Rightarrow> bool" where
  "in_group cred grp \<longleftrightarrow> bc_gid cred = grp \<or> grp \<in> set (bc_gids cred)"

abbreviation A_Read :: u32 where "A_Read \<equiv> 0x01"
abbreviation A_Lookup :: u32 where "A_Lookup \<equiv> 0x02"
abbreviation A_Modify :: u32 where "A_Modify \<equiv> 0x04"
abbreviation A_Extend :: u32 where "A_Extend \<equiv> 0x08"
abbreviation A_Delete :: u32 where "A_Delete \<equiv> 0x10"
abbreviation A_Execute :: u32 where "A_Execute \<equiv> 0x20"

record DirEnt =
  de_name :: string
  de_cookie :: u64
  de_fileid :: u64
  de_attr :: "Attr option"
  de_oid :: "ObjId option"

record DirPage =
  dp_ents :: "DirEnt list"
  dp_eof :: bool

section \<open>Default operations\<close>

text \<open>The default permission check, once the attributes are read.\<close>

definition object_access :: "Attr \<Rightarrow> BackendCred \<Rightarrow> u32 \<Rightarrow> u32" where
  "object_access a cred want =
     (if bc_uid cred = 0 then want
      else let shift = (if bc_uid cred = at_uid a then 6 else if in_group cred (at_gid a) then 3 else 0);
               bits = drop_bit shift (at_mode a) AND 7;
               rd = (if bits AND 4 \<noteq> 0 then A_Read else 0);
               wr = (if bits AND 2 \<noteq> 0 then A_Modify OR A_Extend OR (if at_type a = FtDir then A_Delete else 0) else 0);
               ex = (if bits AND 1 \<noteq> 0 then (if at_type a = FtDir then A_Lookup else A_Execute) else 0)
           in (rd OR wr OR ex) AND want)"

text \<open>
  The default scatter write: one flat write per segment at the running offset.  The flat write of the
  backend is a state transformer; the count of bytes is 32 bits wide.
\<close>

primrec write_segments ::
  "(u64 \<Rightarrow> bytes \<Rightarrow> 's \<Rightarrow> u32 res \<times> 's) \<Rightarrow> u64 \<Rightarrow> u32 \<Rightarrow> bytes list \<Rightarrow> 's \<Rightarrow> u32 res \<times> 's" where
  "write_segments flat off done [] s = (Inr done, s)"
| "write_segments flat off done (v # vs) s =
     (case flat (off + ucast done) v s of
        (Inl e, s1) \<Rightarrow> (if done > 0 then Inr done else Inl e, s1)
      | (Inr n, s1) \<Rightarrow>
          if unat n < length v then (Inr (done + n), s1)
          else write_segments flat off (done + n) vs s1)"

definition write_iov :: "(u64 \<Rightarrow> bytes \<Rightarrow> 's \<Rightarrow> u32 res \<times> 's) \<Rightarrow> u64 \<Rightarrow> bytes list \<Rightarrow> 's \<Rightarrow> u32 res \<times> 's" where
  "write_iov flat off iov s = write_segments flat off 0 iov s"

text \<open>Nothing is granted that was not asked for.\<close>

lemma access_within: "object_access a cred want AND NOT want = 0"
  by (simp add: object_access_def Let_def and.assoc)

text \<open>A caller who is not root gains write access only through a mode bit of its class.\<close>

lemma access_modify:
  assumes "bc_uid cred \<noteq> 0"
  shows "object_access a cred A_Modify \<noteq> 0 \<longleftrightarrow>
    bit (at_mode a) (if bc_uid cred = at_uid a then 7 else if in_group cred (at_gid a) then 4 else 1)"
proof -
  have two: "(drop_bit n m AND 7) AND 2 \<noteq> 0 \<longleftrightarrow> bit m (n + 1)" for n and m :: u32
  proof -
    have "(drop_bit n m AND 7) AND 2 = drop_bit n m AND (2 :: u32)" by (simp add: and.assoc)
    then show ?thesis using and_exp_eq_0_iff_not_bit [of "drop_bit n m" 1] by (simp add: bit_drop_bit_eq)
  qed
  show ?thesis using assms two [of 6 "at_mode a"] two [of 3 "at_mode a"] two [of 0 "at_mode a"]
    by (simp add: object_access_def Let_def bit.conj_disj_distrib2)
qed

end
