(* ===== verification/MemFs.thy ===== *)
theory MemFs
  imports BackendApi
begin

text \<open>
  The in-memory backend (\<^verbatim>\<open>src/src/backend/memory/memory.cpp\<close>).  Nodes live at addresses of a heap, the
  root at address 0.  A directory holds its children strongly and its parent weakly, so the state also
  records which nodes have been freed.  Faults are injected through an argument.
\<close>

section \<open>State\<close>

text \<open>
  The map of children is never iterated: it is the list of its pairs.  The map of cookies is iterated:
  it is kept in ascending order.
\<close>

record MNode =
  mn_id :: u64
  mn_attr :: Attr
  mn_data :: bytes
  mn_link :: string
  mn_children :: "(string \<times> nat \<times> u64) list"
  mn_cookie_order :: "(u64 \<times> string) list"
  mn_parent :: "nat option"

record MemFs =
  mf_heap :: "nat \<Rightarrow> MNode"
  mf_next :: nat
  mf_dead :: "nat list"
  mf_max_filesize :: u64
  mf_next_id :: u64
  mf_next_cookie :: u64
  mf_tick :: u64
  mf_objects :: "ObjId \<rightharpoonup> nat"
  mf_resolve_calls :: u64

abbreviation node_at :: "MemFs \<Rightarrow> nat \<Rightarrow> MNode" where "node_at m a \<equiv> mf_heap m a"
abbreviation attr_at :: "MemFs \<Rightarrow> nat \<Rightarrow> Attr" where "attr_at m a \<equiv> mn_attr (mf_heap m a)"
abbreviation type_at :: "MemFs \<Rightarrow> nat \<Rightarrow> FType" where "type_at m a \<equiv> at_type (mn_attr (mf_heap m a))"

definition upd_node :: "nat \<Rightarrow> (MNode \<Rightarrow> MNode) \<Rightarrow> MemFs \<Rightarrow> MemFs" where
  "upd_node a f m = m\<lparr>mf_heap := (mf_heap m)(a := f (mf_heap m a))\<rparr>"

definition upd_attr :: "nat \<Rightarrow> (Attr \<Rightarrow> Attr) \<Rightarrow> MemFs \<Rightarrow> MemFs" where
  "upd_attr a f = upd_node a (\<lambda>n. n\<lparr>mn_attr := f (mn_attr n)\<rparr>)"

definition id_for :: "u64 \<Rightarrow> ObjId" where
  "id_for i = le_bytes 8 i"

definition mem_now :: "MemFs \<Rightarrow> Timespec \<times> MemFs" where
  "mem_now m = (\<lparr>ts_sec = mf_tick m, ts_nsec = 0\<rparr>, m\<lparr>mf_tick := mf_tick m + 1\<rparr>)"

text \<open>\<^verbatim>\<open>weak_ptr::lock\<close>: a freed node is gone.\<close>

definition lock_weak :: "MemFs \<Rightarrow> nat option \<Rightarrow> nat option" where
  "lock_weak m p = (case p of None \<Rightarrow> None | Some a \<Rightarrow> if a \<in> set (mf_dead m) then None else Some a)"

definition blank_node :: MNode where
  "blank_node = \<lparr>mn_id = 0, mn_attr = default_attr, mn_data = [], mn_link = [], mn_children = [], mn_cookie_order = [], mn_parent = None\<rparr>"

definition new_memfs :: MemFs where
  "new_memfs =
     \<lparr>mf_heap = (\<lambda>a. blank_node)(0 := blank_node\<lparr>mn_id := 1,
        mn_attr := default_attr\<lparr>at_type := FtDir, at_mode := 0x1ED, at_nlink := 2, at_fileid := 1\<rparr>\<rparr>),
      mf_next = 1, mf_dead = [], mf_max_filesize = 0, mf_next_id = 2, mf_next_cookie = 1, mf_tick = 1,
      mf_objects = [id_for 1 \<mapsto> 0], mf_resolve_calls = 0\<rparr>"

section \<open>Directory entries\<close>

text \<open>\<^verbatim>\<open>emplace\<close> into the two maps of a directory: a key that is present is kept.\<close>

definition put_child :: "string \<Rightarrow> nat \<Rightarrow> u64 \<Rightarrow> MNode \<Rightarrow> MNode" where
  "put_child name a cookie n =
     n\<lparr>mn_children := (if map_of (mn_children n) name = None then (name, a, cookie) # mn_children n else mn_children n),
       mn_cookie_order := (if map_of (mn_cookie_order n) cookie = None
                           then insort_key fst (cookie, name) (mn_cookie_order n) else mn_cookie_order n)\<rparr>"

definition drop_child :: "string \<Rightarrow> u64 \<Rightarrow> MNode \<Rightarrow> MNode" where
  "drop_child name cookie n =
     n\<lparr>mn_cookie_order := filter (\<lambda>p. fst p \<noteq> cookie) (mn_cookie_order n),
       mn_children := filter (\<lambda>p. fst p \<noteq> name) (mn_children n)\<rparr>"

definition touch_dir :: "nat \<Rightarrow> MemFs \<Rightarrow> MemFs" where
  "touch_dir a m =
     (let (t, m1) = mem_now m
      in upd_attr a (\<lambda>x. x\<lparr>at_mtime := t, at_ctime := t, at_change := ts_sec t\<rparr>) m1)"

definition new_child :: "nat \<Rightarrow> string \<Rightarrow> FType \<Rightarrow> u32 \<Rightarrow> BackendCred \<Rightarrow> MemFs \<Rightarrow> nat \<times> MemFs" where
  "new_child parent name ty mode cred m =
     (let i = mf_next_id m;
          a = mf_next m;
          (t, m1) = mem_now (m\<lparr>mf_next_id := i + 1, mf_next := a + 1\<rparr>);
          attr = default_attr\<lparr>at_type := ty, at_mode := mode AND 0xFFF, at_nlink := (if ty = FtDir then 2 else 1),
            at_uid := bc_uid cred, at_gid := bc_gid cred, at_fileid := i, at_atime := t, at_mtime := t, at_ctime := t,
            at_change := ts_sec t\<rparr>;
          cookie = mf_next_cookie m;
          m2 = upd_node a (\<lambda>_. blank_node\<lparr>mn_id := i, mn_attr := attr, mn_parent := Some parent\<rparr>) (m1\<lparr>mf_next_cookie := cookie + 1\<rparr>);
          m3 = touch_dir parent (upd_node parent (put_child name a cookie) m2)
      in (a, m3\<lparr>mf_objects := (mf_objects m3)(id_for i \<mapsto> a)\<rparr>))"

definition erase_child :: "nat \<Rightarrow> string \<Rightarrow> MemFs \<Rightarrow> MemFs" where
  "erase_child parent name m =
     (case map_of (mn_children (node_at m parent)) name of
        None \<Rightarrow> m
      | Some (a, cookie) \<Rightarrow> touch_dir parent (upd_node parent (drop_child name cookie) m))"

section \<open>Objects: looking\<close>

definition mem_valid_component :: "string \<Rightarrow> bool" where
  "mem_valid_component name \<longleftrightarrow>
     name \<noteq> [] \<and> name \<noteq> ''.'' \<and> name \<noteq> ''..'' \<and> CHR ''/'' \<notin> set name \<and> CHR 0x00 \<notin> set name"

definition mem_lookup :: "nat \<Rightarrow> BackendCred \<Rightarrow> string \<Rightarrow> MemFs \<Rightarrow> nat res" where
  "mem_lookup a cred name m =
     (if type_at m a \<noteq> FtDir then Inl ENOTDIR
      else if object_access (attr_at m a) cred A_Lookup AND A_Lookup \<noteq> A_Lookup then Inl EACCES
      else if name = ''.'' then Inr a
      else if name = ''..''
      then Inr (case lock_weak m (mn_parent (node_at m a)) of None \<Rightarrow> a | Some p \<Rightarrow> p)
      else case map_of (mn_children (node_at m a)) name of None \<Rightarrow> Inl ENOENT | Some (b, cookie) \<Rightarrow> Inr b)"

definition dir_ent :: "MemFs \<Rightarrow> nat \<Rightarrow> string \<Rightarrow> DirEnt" where
  "dir_ent m a name =
     (let (b, cookie) = the (map_of (mn_children (node_at m a)) name)
      in \<lparr>de_name = name, de_cookie = cookie, de_fileid = at_fileid (attr_at m b), de_attr = Some (attr_at m b),
          de_oid = Some (id_for (mn_id (node_at m b)))\<rparr>)"

text \<open>The size is tested after an entry is added, so one entry is delivered whatever the limit.\<close>

definition mem_readdir :: "nat \<Rightarrow> BackendCred \<Rightarrow> u64 \<Rightarrow> u32 \<Rightarrow> MemFs \<Rightarrow> DirPage res" where
  "mem_readdir a cred cookie max_entries m =
     (if type_at m a \<noteq> FtDir then Inl ENOTDIR
      else if object_access (attr_at m a) cred A_Read AND A_Read \<noteq> A_Read then Inl EACCES
      else let order = mn_cookie_order (node_at m a);
               ents = map (\<lambda>p. dir_ent m a (snd p)) (take (max 1 (unat max_entries)) (filter (\<lambda>p. cookie < fst p) order))
           in Inr \<lparr>dp_ents = ents,
                   dp_eof = (ents = [] \<or> de_cookie (last ents) = (if order = [] then 0 else fst (last order)))\<rparr>)"

definition mem_readlink :: "nat \<Rightarrow> MemFs \<Rightarrow> string res" where
  "mem_readlink a m = (if type_at m a \<noteq> FtLnk then Inl EINVAL else Inr (mn_link (node_at m a)))"

text \<open>The gate of reads and writes: the owner may always.\<close>

definition io_gate :: "nat \<Rightarrow> BackendCred \<Rightarrow> bool \<Rightarrow> MemFs \<Rightarrow> unit res" where
  "io_gate a cred write m =
     (let need = (if write then A_Modify else A_Read)
      in if type_at m a = FtDir then Inl EISDIR
         else if type_at m a \<noteq> FtReg then Inl EINVAL
         else if object_access (attr_at m a) cred need AND need \<noteq> need \<and> bc_uid cred \<noteq> at_uid (attr_at m a) then Inl EACCES
         else Inr ())"

definition mem_read :: "nat \<Rightarrow> BackendCred \<Rightarrow> bool \<Rightarrow> u64 \<Rightarrow> nat \<Rightarrow> MemFs \<Rightarrow> (bytes \<times> bool) res" where
  "mem_read a cred fault off len m =
     try_res (io_gate a cred False m) (\<lambda>_.
       if fault then Inl kJukebox
       else let data = mn_data (node_at m a);
                pos = min (unat off) (length data);
                n = min len (length data - pos)
            in Inr (take n (drop pos data), pos + n = length data))"

section \<open>Objects: changing\<close>

definition resize :: "nat \<Rightarrow> bytes \<Rightarrow> bytes" where
  "resize n data = take n data @ replicate (n - length data) 0"

definition apply_time :: "TimeHow \<Rightarrow> Timespec \<Rightarrow> (Timespec \<Rightarrow> Attr \<Rightarrow> Attr) \<Rightarrow> nat \<Rightarrow> MemFs \<Rightarrow> MemFs" where
  "apply_time how value put_time a m =
     (case how of
        TimeOmit \<Rightarrow> m
      | TimeServer \<Rightarrow> (let (t, m1) = mem_now m in upd_attr a (put_time t) m1)
      | TimeClient \<Rightarrow> upd_attr a (put_time value) m)"

definition set_size :: "nat \<Rightarrow> u64 \<Rightarrow> MemFs \<Rightarrow> MemFs" where
  "set_size a sz m =
     (let m1 = upd_node a (\<lambda>n. n\<lparr>mn_data := resize (unat sz) (mn_data n)\<rparr>) m;
          (t, m2) = mem_now m1
      in upd_attr a (\<lambda>x. x\<lparr>at_size := sz, at_used := of_nat (length (mn_data (node_at m1 a))), at_mtime := t\<rparr>) m2)"

definition set_plain :: "SetAttr \<Rightarrow> Attr \<Rightarrow> Attr" where
  "set_plain s x =
     x\<lparr>at_mode := (case sa_mode s of None \<Rightarrow> at_mode x | Some v \<Rightarrow> v AND 0xFFF),
       at_uid := (case sa_uid s of None \<Rightarrow> at_uid x | Some v \<Rightarrow> v),
       at_gid := (case sa_gid s of None \<Rightarrow> at_gid x | Some v \<Rightarrow> v)\<rparr>"

text \<open>The check before a size change is made by someone who is not the owner.\<close>

definition may_resize :: "Attr \<Rightarrow> BackendCred \<Rightarrow> bool" where
  "may_resize x cred \<longleftrightarrow>
     (let shift = (if bc_uid cred = at_uid x then 6 else if in_group cred (at_gid x) then 3 else 0)
      in drop_bit shift (at_mode x) AND 2 \<noteq> 0)"

definition set_finish :: "nat \<Rightarrow> SetAttr \<Rightarrow> MemFs \<Rightarrow> MemFs" where
  "set_finish a s m =
     (let m1 = upd_attr a (set_plain s) m;
          m2 = apply_time (sa_atime_how s) (sa_atime s) (\<lambda>t x. x\<lparr>at_atime := t\<rparr>) a m1;
          m3 = apply_time (sa_mtime_how s) (sa_mtime s) (\<lambda>t x. x\<lparr>at_mtime := t\<rparr>) a m2;
          (t, m4) = mem_now m3
      in upd_attr a (\<lambda>x. x\<lparr>at_ctime := t, at_change := ts_sec t\<rparr>) m4)"

definition mem_setattr :: "nat \<Rightarrow> BackendCred \<Rightarrow> SetAttr \<Rightarrow> MemFs \<Rightarrow> Attr res \<times> MemFs" where
  "mem_setattr a cred s m =
     (let x = attr_at m a;
          owner = (bc_uid cred = 0 \<or> bc_uid cred = at_uid x);
          finish = (\<lambda>m1. let m2 = set_finish a s m1 in (Inr (attr_at m2 a), m2))
      in if (sa_mode s \<noteq> None \<or> sa_uid s \<noteq> None \<or> sa_gid s \<noteq> None \<or> sa_atime_how s \<noteq> TimeOmit \<or> sa_mtime_how s \<noteq> TimeOmit) \<and> \<not> owner
         then (Inl EPERM, m)
         else case sa_size s of
                None \<Rightarrow> finish m
              | Some sz \<Rightarrow>
                  if at_type x = FtDir then (Inl EISDIR, m)
                  else if at_type x \<noteq> FtReg then (Inl EINVAL, m)
                  else if \<not> owner \<and> \<not> may_resize x cred then (Inl EACCES, m)
                  else finish (set_size a sz m))"

definition child_at :: "MemFs \<Rightarrow> nat \<Rightarrow> string \<Rightarrow> nat option" where
  "child_at m a name = map_option fst (map_of (mn_children (node_at m a)) name)"

definition mem_create :: "nat \<Rightarrow> BackendCred \<Rightarrow> string \<Rightarrow> SetAttr \<Rightarrow> bytes option \<Rightarrow> MemFs \<Rightarrow> nat res \<times> MemFs" where
  "mem_create a cred name attrs verf m =
     (if type_at m a \<noteq> FtDir then (Inl ENOTDIR, m)
      else if \<not> mem_valid_component name then (Inl EINVAL, m)
      else case child_at m a name of
             Some b \<Rightarrow>
               (case verf of
                  Some v \<Rightarrow> if type_at m b = FtReg \<and> ts_sec (at_atime (attr_at m b)) = read64 v then (Inr b, m) else (Inl EEXIST, m)
                | None \<Rightarrow> (Inl EEXIST, m))
           | None \<Rightarrow>
               let mode = (case verf of Some v \<Rightarrow> 0 | None \<Rightarrow> (case sa_mode attrs of None \<Rightarrow> 0x1A4 | Some md \<Rightarrow> md));
                   (b, m1) = new_child a name FtReg mode cred m
               in case verf of
                    Some v \<Rightarrow> (Inr b, upd_attr b (\<lambda>x. x\<lparr>at_atime := (at_atime x)\<lparr>ts_sec := read64 v\<rparr>\<rparr>) m1)
                  | None \<Rightarrow>
                      (case sa_size attrs of
                         None \<Rightarrow> (Inr b, m1)
                       | Some sz \<Rightarrow>
                           (Inr b, upd_node b (\<lambda>n. n\<lparr>mn_data := resize (unat sz) (mn_data n),
                                                     mn_attr := (mn_attr n)\<lparr>at_size := sz\<rparr>\<rparr>) m1)))"

text \<open>The checks that precede every other creation, and the creation itself.\<close>

definition make_child ::
  "nat \<Rightarrow> BackendCred \<Rightarrow> string \<Rightarrow> FType \<Rightarrow> u32 \<Rightarrow> (nat \<Rightarrow> MemFs \<Rightarrow> MemFs) \<Rightarrow> MemFs \<Rightarrow> nat res \<times> MemFs" where
  "make_child a cred name ty mode after m =
     (if child_at m a name \<noteq> None then (Inl EEXIST, m)
      else let (b, m1) = new_child a name ty mode cred m in (Inr b, after b m1))"

definition mem_mkdir :: "nat \<Rightarrow> BackendCred \<Rightarrow> string \<Rightarrow> SetAttr \<Rightarrow> MemFs \<Rightarrow> nat res \<times> MemFs" where
  "mem_mkdir a cred name attrs m =
     (if type_at m a \<noteq> FtDir then (Inl ENOTDIR, m)
      else if \<not> mem_valid_component name then (Inl EINVAL, m)
      else make_child a cred name FtDir (case sa_mode attrs of None \<Rightarrow> 0x1ED | Some md \<Rightarrow> md)
             (\<lambda>b. upd_attr a (\<lambda>x. x\<lparr>at_nlink := at_nlink x + 1\<rparr>)) m)"

definition mem_symlink :: "nat \<Rightarrow> BackendCred \<Rightarrow> string \<Rightarrow> string \<Rightarrow> MemFs \<Rightarrow> nat res \<times> MemFs" where
  "mem_symlink a cred name target m =
     (if type_at m a \<noteq> FtDir then (Inl ENOTDIR, m)
      else if \<not> mem_valid_component name then (Inl EINVAL, m)
      else make_child a cred name FtLnk 0x1FF
             (\<lambda>b. upd_node b (\<lambda>n. n\<lparr>mn_link := target, mn_attr := (mn_attr n)\<lparr>at_size := of_nat (length target)\<rparr>\<rparr>)) m)"

definition mem_mknod :: "nat \<Rightarrow> BackendCred \<Rightarrow> string \<Rightarrow> FType \<Rightarrow> DevT \<Rightarrow> SetAttr \<Rightarrow> MemFs \<Rightarrow> nat res \<times> MemFs" where
  "mem_mknod a cred name ty dev attrs m =
     (if type_at m a \<noteq> FtDir then (Inl ENOTDIR, m)
      else if \<not> mem_valid_component name then (Inl EINVAL, m)
      else if ty \<notin> {FtChr, FtBlk, FtSock, FtFifo} then (Inl EINVAL, m)
      else make_child a cred name ty (case sa_mode attrs of None \<Rightarrow> 0x1A4 | Some md \<Rightarrow> md)
             (\<lambda>b. upd_attr b (\<lambda>x. x\<lparr>at_rdev := dev\<rparr>)) m)"

definition dec_nlink :: "nat \<Rightarrow> MemFs \<Rightarrow> MemFs" where
  "dec_nlink a = upd_attr a (\<lambda>x. x\<lparr>at_nlink := at_nlink x - 1\<rparr>)"

definition inc_nlink :: "nat \<Rightarrow> MemFs \<Rightarrow> MemFs" where
  "inc_nlink a = upd_attr a (\<lambda>x. x\<lparr>at_nlink := at_nlink x + 1\<rparr>)"

definition set_ctime :: "nat \<Rightarrow> MemFs \<Rightarrow> MemFs" where
  "set_ctime a m = (let (t, m1) = mem_now m in upd_attr a (\<lambda>x. x\<lparr>at_ctime := t\<rparr>) m1)"

definition mem_unlink :: "nat \<Rightarrow> string \<Rightarrow> MemFs \<Rightarrow> unit res \<times> MemFs" where
  "mem_unlink a name m =
     (if type_at m a \<noteq> FtDir then (Inl ENOTDIR, m)
      else case child_at m a name of
             None \<Rightarrow> (Inl ENOENT, m)
           | Some b \<Rightarrow>
               if type_at m b = FtDir then (Inl EISDIR, m)
               else (Inr (), erase_child a name (set_ctime b (dec_nlink b m))))"

definition mem_rmdir :: "nat \<Rightarrow> string \<Rightarrow> MemFs \<Rightarrow> unit res \<times> MemFs" where
  "mem_rmdir a name m =
     (if type_at m a \<noteq> FtDir then (Inl ENOTDIR, m)
      else case child_at m a name of
             None \<Rightarrow> (Inl ENOENT, m)
           | Some b \<Rightarrow>
               if type_at m b \<noteq> FtDir then (Inl ENOTDIR, m)
               else if mn_children (node_at m b) \<noteq> [] then (Inl ENOTEMPTY, m)
               else (Inr (), erase_child a name (dec_nlink a m)))"

text \<open>
  The walk from the target directory towards the root: whether it meets the node that moves.  A cycle of
  parents would make it run forever, so it is partial.
\<close>

partial_function (option) below :: "MemFs \<Rightarrow> nat \<Rightarrow> nat \<Rightarrow> bool option" where
  "below m moving p =
     (if p = moving then Some True
      else if p = 0 then Some False
      else case lock_weak m (mn_parent (node_at m p)) of
             None \<Rightarrow> Some False
           | Some q \<Rightarrow> below m moving q)"

definition add_link :: "nat \<Rightarrow> string \<Rightarrow> nat \<Rightarrow> MemFs \<Rightarrow> MemFs" where
  "add_link dst name b m =
     (let cookie = mf_next_cookie m
      in upd_node dst (put_child name b cookie) (m\<lparr>mf_next_cookie := cookie + 1\<rparr>))"

definition move_links :: "nat \<Rightarrow> string \<Rightarrow> nat \<Rightarrow> string \<Rightarrow> nat \<Rightarrow> MemFs \<Rightarrow> MemFs" where
  "move_links a from dst to moving m =
     (let m1 = erase_child a from m;
          m2 = (if type_at m1 moving = FtDir then inc_nlink dst (dec_nlink a m1) else m1);
          m3 = add_link dst to moving m2
      in set_ctime moving (upd_node moving (\<lambda>n. n\<lparr>mn_parent := Some dst\<rparr>) m3))"

text \<open>Both directories are objects of this backend; the answer None stands for a walk that never ends.\<close>

definition mem_rename :: "nat \<Rightarrow> string \<Rightarrow> nat \<Rightarrow> string \<Rightarrow> MemFs \<Rightarrow> (unit res \<times> MemFs) option" where
  "mem_rename a from dst to m =
     (if type_at m a \<noteq> FtDir then Some (Inl ENOTDIR, m)
      else if \<not> mem_valid_component to then Some (Inl EINVAL, m)
      else if type_at m dst \<noteq> FtDir then Some (Inl ENOTDIR, m)
      else case child_at m a from of
             None \<Rightarrow> Some (Inl ENOENT, m)
           | Some moving \<Rightarrow>
               (case below m moving dst of
                  None \<Rightarrow> None
                | Some True \<Rightarrow> Some (Inl EINVAL, m)
                | Some False \<Rightarrow>
                    (case child_at m dst to of
                       None \<Rightarrow> Some (Inr (), move_links a from dst to moving m)
                     | Some existing \<Rightarrow>
                         if existing = moving then Some (Inr (), m)
                         else if type_at m moving = FtDir \<and> type_at m existing \<noteq> FtDir then Some (Inl ENOTDIR, m)
                         else if type_at m moving \<noteq> FtDir \<and> type_at m existing = FtDir then Some (Inl EISDIR, m)
                         else if type_at m existing = FtDir \<and> mn_children (node_at m existing) \<noteq> [] then Some (Inl ENOTEMPTY, m)
                         else let m1 = (if type_at m existing = FtDir then dec_nlink dst m else m)
                              in Some (Inr (), move_links a from dst to moving (erase_child dst to m1)))))"

definition mem_link :: "nat \<Rightarrow> nat \<Rightarrow> string \<Rightarrow> MemFs \<Rightarrow> unit res \<times> MemFs" where
  "mem_link a target name m =
     (if type_at m a \<noteq> FtDir then (Inl ENOTDIR, m)
      else if \<not> mem_valid_component name then (Inl EINVAL, m)
      else if type_at m target = FtDir then (Inl EPERM, m)
      else if child_at m a name \<noteq> None then (Inl EEXIST, m)
      else let m1 = set_ctime target (inc_nlink target (add_link a name target m));
               (t, m2) = mem_now m1
           in (Inr (), upd_attr a (\<lambda>x. x\<lparr>at_mtime := t, at_ctime := t\<rparr>) m2))"

section \<open>Objects: data\<close>

text \<open>
  Offsets and lengths are added in 64 bits.  A copy beyond the end of the vector is undefined behaviour in
  the source; the answer None stands for it.
\<close>

definition mem_touch :: "nat \<Rightarrow> MemFs \<Rightarrow> MemFs" where
  "mem_touch a m =
     (let (t, m1) = mem_now m; sz = of_nat (length (mn_data (node_at m a)))
      in upd_attr a (\<lambda>x. x\<lparr>at_size := sz, at_used := sz, at_mtime := t, at_ctime := t, at_change := ts_sec t\<rparr>) m1)"

definition grow :: "u64 \<Rightarrow> bytes \<Rightarrow> bytes" where
  "grow stop data = (if unat stop > length data then resize (unat stop) data else data)"

definition overwrite :: "nat \<Rightarrow> bytes \<Rightarrow> bytes \<Rightarrow> bytes" where
  "overwrite pos new data = take pos data @ new @ drop (pos + length new) data"

definition store_bytes :: "nat \<Rightarrow> u64 \<Rightarrow> bytes \<Rightarrow> MemFs \<Rightarrow> MemFs option" where
  "store_bytes a off new m =
     (let data = grow (off + of_nat (length new)) (mn_data (node_at m a))
      in if unat off + length new > length data then None
         else Some (mem_touch a (upd_node a (\<lambda>n. n\<lparr>mn_data := overwrite (unat off) new data\<rparr>) m)))"

definition mem_write :: "nat \<Rightarrow> BackendCred \<Rightarrow> bool \<Rightarrow> u64 \<Rightarrow> bytes \<Rightarrow> MemFs \<Rightarrow> (u32 res \<times> MemFs) option" where
  "mem_write a cred fault off new m =
     (case io_gate a cred True m of
        Inl e \<Rightarrow> Some (Inl e, m)
      | Inr _ \<Rightarrow>
          if fault then Some (Inl kJukebox, m)
          else if mf_max_filesize m \<noteq> 0 \<and> off + of_nat (length new) > mf_max_filesize m then Some (Inl EFBIG, m)
          else map_option (\<lambda>m1. (Inr (of_nat (length new)), m1)) (store_bytes a off new m))"

datatype SeekWhat = SeekData | SeekHole

definition mem_seek :: "nat \<Rightarrow> BackendCred \<Rightarrow> u64 \<Rightarrow> SeekWhat \<Rightarrow> MemFs \<Rightarrow> u64 res" where
  "mem_seek a cred off what m =
     try_res (io_gate a cred False m) (\<lambda>_.
       let sz = length (mn_data (node_at m a))
       in if unat off \<ge> sz then Inl ENXIO else Inr (if what = SeekData then off else of_nat sz))"

definition mem_allocate :: "nat \<Rightarrow> BackendCred \<Rightarrow> u64 \<Rightarrow> u64 \<Rightarrow> MemFs \<Rightarrow> unit res \<times> MemFs" where
  "mem_allocate a cred off len m =
     (case io_gate a cred True m of
        Inl e \<Rightarrow> (Inl e, m)
      | Inr _ \<Rightarrow>
          if mf_max_filesize m \<noteq> 0 \<and> off + len > mf_max_filesize m then (Inl EFBIG, m)
          else if unat (off + len) > length (mn_data (node_at m a))
          then (Inr (), mem_touch a (upd_node a (\<lambda>n. n\<lparr>mn_data := resize (unat (off + len)) (mn_data n)\<rparr>) m))
          else (Inr (), m))"

text \<open>A range whose end wraps below its start is again undefined.\<close>

definition mem_deallocate :: "nat \<Rightarrow> BackendCred \<Rightarrow> u64 \<Rightarrow> u64 \<Rightarrow> MemFs \<Rightarrow> (unit res \<times> MemFs) option" where
  "mem_deallocate a cred off len m =
     (case io_gate a cred True m of
        Inl e \<Rightarrow> Some (Inl e, m)
      | Inr _ \<Rightarrow>
          let data = mn_data (node_at m a); sz = length data; stop = min sz (unat (off + len))
          in if unat off \<ge> sz then Some (Inr (), m)
             else if stop < unat off then None
             else Some (Inr (), mem_touch a (upd_node a (\<lambda>n. n\<lparr>mn_data := overwrite (unat off) (replicate (stop - unat off) 0) data\<rparr>) m)))"

definition mem_copy_range ::
  "nat \<Rightarrow> BackendCred \<Rightarrow> nat \<Rightarrow> BackendCred \<Rightarrow> u64 \<Rightarrow> u64 \<Rightarrow> u64 \<Rightarrow> MemFs \<Rightarrow> (u64 res \<times> MemFs) option" where
  "mem_copy_range a scred dst dcred soff doff len m =
     (case io_gate a scred False m of
        Inl e \<Rightarrow> Some (Inl e, m)
      | Inr _ \<Rightarrow>
          (case io_gate dst dcred True m of
             Inl e \<Rightarrow> Some (Inl e, m)
           | Inr _ \<Rightarrow>
               let data = mn_data (node_at m a); n = min (unat len) (length data - unat soff)
               in if unat soff \<ge> length data then Some (Inr 0, m)
                  else map_option (\<lambda>m1. (Inr (of_nat n), m1)) (store_bytes dst doff (take n (drop (unat soff) data)) m)))"

definition mem_clone ::
  "nat \<Rightarrow> BackendCred \<Rightarrow> nat \<Rightarrow> BackendCred \<Rightarrow> u64 \<Rightarrow> u64 \<Rightarrow> u64 \<Rightarrow> MemFs \<Rightarrow> (unit res \<times> MemFs) option" where
  "mem_clone a scred dst dcred soff doff len m =
     map_option (\<lambda>(r, m1). (try_res r (\<lambda>_. Inr ()), m1)) (mem_copy_range a scred dst dcred soff doff len m)"

section \<open>The backend\<close>

definition mem_resolve :: "ObjId \<Rightarrow> MemFs \<Rightarrow> nat res \<times> MemFs" where
  "mem_resolve oid m =
     (case lock_weak m (mf_objects m oid) of None \<Rightarrow> Inl ESTALE | Some a \<Rightarrow> Inr a, m\<lparr>mf_resolve_calls := mf_resolve_calls m + 1\<rparr>)"

text \<open>The last owner of a node lets go of it: no directory lists it, and it is not the root.\<close>

definition mem_release :: "nat \<Rightarrow> MemFs \<Rightarrow> MemFs" where
  "mem_release a m =
     (if a = 0 \<or> a \<ge> mf_next m \<or>
         list_ex (\<lambda>b. b \<notin> set (mf_dead m) \<and> list_ex (\<lambda>p. fst (snd p) = a) (mn_children (node_at m b))) [0..<mf_next m]
      then m else m\<lparr>mf_dead := a # mf_dead m\<rparr>)"

text \<open>The components of a path; \<^verbatim>\<open>find_path\<close> skips empty ones and single dots.\<close>

fun find_parts :: "MemFs \<Rightarrow> nat \<Rightarrow> string list \<Rightarrow> nat option" where
  "find_parts m cur [] = Some cur"
| "find_parts m cur (p # ps) =
     (if p = [] \<or> p = ''.'' then find_parts m cur ps
      else case child_at m cur p of
             None \<Rightarrow> None
           | Some b \<Rightarrow> if type_at m b \<noteq> FtDir then None else find_parts m b ps)"

fun split_slash :: "string \<Rightarrow> string list" where
  "split_slash [] = [[]]"
| "split_slash (c # cs) =
     (case split_slash cs of [] \<Rightarrow> [[c]] | p # ps \<Rightarrow> if c = CHR ''/'' then [] # p # ps else (c # p) # ps)"

definition find_path :: "string \<Rightarrow> MemFs \<Rightarrow> nat option" where
  "find_path path m = find_parts m 0 (split_slash path)"

definition seed_child :: "nat \<Rightarrow> string \<Rightarrow> FType \<Rightarrow> u32 \<Rightarrow> bytes \<Rightarrow> string \<Rightarrow> MemFs \<Rightarrow> ObjId \<times> MemFs" where
  "seed_child parent name ty mode data link m =
     (let i = mf_next_id m;
          a = mf_next m;
          (t, m1) = mem_now (m\<lparr>mf_next_id := i + 1, mf_next := a + 1\<rparr>);
          attr = default_attr\<lparr>at_type := ty, at_mode := mode, at_nlink := (if ty = FtDir then 2 else 1), at_fileid := i,
            at_size := of_nat (if ty = FtLnk then length link else length data), at_used := of_nat (length data),
            at_atime := t, at_mtime := t, at_ctime := t, at_change := ts_sec t\<rparr>;
          m2 = upd_node a (\<lambda>_. blank_node\<lparr>mn_id := i, mn_attr := attr, mn_data := data, mn_link := link, mn_parent := Some parent\<rparr>) m1;
          m3 = touch_dir parent (add_link parent name a m2)
      in (id_for i, m3\<lparr>mf_objects := (mf_objects m3)(id_for i \<mapsto> a)\<rparr>))"

definition add_node :: "string \<Rightarrow> FType \<Rightarrow> u32 \<Rightarrow> bytes \<Rightarrow> string \<Rightarrow> MemFs \<Rightarrow> ObjId res \<times> MemFs" where
  "add_node path0 ty mode data link m =
     (let path = normalize_path path0;
          name = rev (takeWhile (\<lambda>c. c \<noteq> CHR ''/'') (rev path));
          parent_path = (if CHR ''/'' \<in> set path then take (length path - length name - 1) path else ''/'')
      in if name = [] \<or> name = ''.'' \<or> name = ''..'' then (Inl EINVAL, m)
         else case find_path parent_path m of
                None \<Rightarrow> (Inl ENOENT, m)
              | Some parent \<Rightarrow>
                  if child_at m parent name \<noteq> None then (Inl EEXIST, m)
                  else let (oid, m1) = seed_child parent name ty mode data link m in (Inr oid, m1))"

definition add_dir :: "string \<Rightarrow> u32 \<Rightarrow> MemFs \<Rightarrow> ObjId res \<times> MemFs" where
  "add_dir path mode = add_node path FtDir mode [] []"

definition add_file :: "string \<Rightarrow> bytes \<Rightarrow> u32 \<Rightarrow> MemFs \<Rightarrow> ObjId res \<times> MemFs" where
  "add_file path data mode = add_node path FtReg mode data []"

definition add_symlink :: "string \<Rightarrow> string \<Rightarrow> MemFs \<Rightarrow> ObjId res \<times> MemFs" where
  "add_symlink path target = add_node path FtLnk 0x1FF [] target"

section \<open>The shape of the tree\<close>

text \<open>What the structure of directories depends on: everything but data and attributes other than the type.\<close>

definition shape :: "MemFs \<Rightarrow> nat \<times> nat list \<times> u64 \<times> (nat \<Rightarrow> (string \<times> nat \<times> u64) list \<times> (u64 \<times> string) list \<times> nat option \<times> FType)" where
  "shape m = (mf_next m, mf_dead m, mf_next_cookie m,
     \<lambda>a. (mn_children (node_at m a), mn_cookie_order (node_at m a), mn_parent (node_at m a), type_at m a))"

text \<open>The two maps of a directory mirror each other.\<close>

definition dir_ok :: "nat \<Rightarrow> u64 \<Rightarrow> MNode \<Rightarrow> bool" where
  "dir_ok next cookie n \<longleftrightarrow>
     distinct (map fst (mn_children n)) \<and> sorted_wrt (<) (map fst (mn_cookie_order n)) \<and>
     (\<forall>c name. (c, name) \<in> set (mn_cookie_order n) \<longleftrightarrow> (\<exists>b. (name, b, c) \<in> set (mn_children n))) \<and>
     (\<forall>name b c. (name, b, c) \<in> set (mn_children n) \<longrightarrow> 0 < b \<and> b < next \<and> 0 < c \<and> c < cookie)"

definition up_edges :: "MemFs \<Rightarrow> (nat \<times> nat) set" where
  "up_edges m = {(a, p). lock_weak m (mn_parent (node_at m a)) = Some p}"

definition fs_ok :: "MemFs \<Rightarrow> bool" where
  "fs_ok m \<longleftrightarrow>
     0 < mf_next m \<and> (\<forall>a. dir_ok (mf_next m) (mf_next_cookie m) (node_at m a)) \<and>
     mn_parent (node_at m 0) = None \<and> type_at m 0 = FtDir \<and>
     (\<forall>a p. mn_parent (node_at m a) = Some p \<longrightarrow> a < mf_next m \<and> p < mf_next m) \<and>
     0 < mf_next_cookie m \<and> acyclic (up_edges m)"

lemma lock_weak_Some: "lock_weak m p = Some q \<longleftrightarrow> p = Some q \<and> q \<notin> set (mf_dead m)"
  by (auto simp: lock_weak_def split: option.splits)

lemma up_edges_iff: "(a, p) \<in> up_edges m \<longleftrightarrow> mn_parent (node_at m a) = Some p \<and> p \<notin> set (mf_dead m)"
  by (simp add: up_edges_def lock_weak_Some)

lemma shape_eq:
  assumes "shape m = shape m1"
  shows "mf_next m = mf_next m1" "mf_dead m = mf_dead m1" "mf_next_cookie m = mf_next_cookie m1"
    "mn_children (node_at m a) = mn_children (node_at m1 a)" "mn_cookie_order (node_at m a) = mn_cookie_order (node_at m1 a)"
    "mn_parent (node_at m a) = mn_parent (node_at m1 a)" "type_at m a = type_at m1 a"
  using assms by (auto simp: shape_def dest: fun_cong [of _ _ a])

lemma shape_edges: "shape m = shape m1 \<Longrightarrow> up_edges m = up_edges m1"
  by (simp add: up_edges_def lock_weak_def shape_eq [of m m1] cong: option.case_cong)

lemma fs_ok_shape: "shape m = shape m1 \<Longrightarrow> fs_ok m \<longleftrightarrow> fs_ok m1"
  by (simp add: fs_ok_def dir_ok_def shape_edges [of m m1] shape_eq [of m m1])

subsection \<open>Changes that keep the shape\<close>

lemma shape_upd_node:
  "(\<And>n. mn_children (f n) = mn_children n \<and> mn_cookie_order (f n) = mn_cookie_order n \<and> mn_parent (f n) = mn_parent n \<and>
     at_type (mn_attr (f n)) = at_type (mn_attr n)) \<Longrightarrow>
   shape (upd_node a f m) = shape m"
  by (auto simp: shape_def upd_node_def)

lemma shape_upd_attr [simp]: "(\<And>x. at_type (f x) = at_type x) \<Longrightarrow> shape (upd_attr a f m) = shape m"
  by (simp add: upd_attr_def shape_upd_node)

lemma shape_tick [simp]: "shape (m\<lparr>mf_tick := t\<rparr>) = shape m" "shape (m\<lparr>mf_objects := t1\<rparr>) = shape m"
  "shape (m\<lparr>mf_resolve_calls := t2\<rparr>) = shape m" "shape (m\<lparr>mf_next_id := t3\<rparr>) = shape m"
  by (simp_all add: shape_def)

lemma shape_timed [simp]:
  "shape (touch_dir a m) = shape m" "shape (set_ctime a m) = shape m" "shape (mem_touch a m) = shape m"
  "shape (dec_nlink a m) = shape m" "shape (inc_nlink a m) = shape m"
  by (simp_all add: touch_dir_def set_ctime_def mem_touch_def dec_nlink_def inc_nlink_def mem_now_def Let_def)

lemma shape_apply_time [simp]: "(\<And>t x. at_type (put_time t x) = at_type x) \<Longrightarrow> shape (apply_time how v put_time a m) = shape m"
  by (cases how) (simp_all add: apply_time_def mem_now_def)

lemma shape_setattr [simp]: "shape (snd (mem_setattr a cred s m)) = shape m"
  by (simp add: mem_setattr_def set_finish_def set_size_def set_plain_def mem_now_def Let_def shape_upd_node split: option.split)

lemma shape_store: "store_bytes a off new m = Some m1 \<Longrightarrow> shape m1 = shape m"
  by (auto simp: store_bytes_def Let_def shape_upd_node split: if_splits)

lemma shape_write: "mem_write a cred fault off new m = Some (r, m1) \<Longrightarrow> shape m1 = shape m"
  by (auto simp: mem_write_def shape_store split: sum.splits if_splits)

lemma shape_allocate: "shape (snd (mem_allocate a cred off len m)) = shape m"
  by (simp add: mem_allocate_def shape_upd_node split: sum.split)

lemma shape_deallocate: "mem_deallocate a cred off len m = Some (r, m1) \<Longrightarrow> shape m1 = shape m"
  by (auto simp: mem_deallocate_def Let_def shape_upd_node split: sum.splits if_splits)

lemma shape_copy: "mem_copy_range a sc d dc so dof len m = Some (r, m1) \<Longrightarrow> shape m1 = shape m"
  by (auto simp: mem_copy_range_def Let_def shape_store split: sum.splits if_splits)

subsection \<open>Entries come and go\<close>

lemma edges_upd_node:
  "(\<And>n. mn_parent (f n) = mn_parent n) \<Longrightarrow> up_edges (upd_node a f m) = up_edges m"
  by (auto simp: up_edges_def upd_node_def lock_weak_Some split: if_splits)

lemma fs_ok_upd_node:
  assumes "fs_ok m" "\<And>n. mn_parent (f n) = mn_parent n" "\<And>n. mn_attr (f n) = mn_attr n" "dir_ok (mf_next m) (mf_next_cookie m) (f (node_at m a))"
  shows "fs_ok (upd_node a f m)"
proof -
  have "mn_parent (node_at (upd_node a f m) x) = mn_parent (node_at m x)" for x
    using assms(2) by (simp add: upd_node_def)
  moreover have "dir_ok (mf_next m) (mf_next_cookie m) (node_at (upd_node a f m) x)" for x
    using assms(1,4) by (simp add: upd_node_def fs_ok_def)
  moreover have "type_at (upd_node a f m) 0 = type_at m 0" using assms(3) by (simp add: upd_node_def)
  moreover have "mf_next (upd_node a f m) = mf_next m" "mf_next_cookie (upd_node a f m) = mf_next_cookie m"
    by (simp_all add: upd_node_def)
  ultimately show ?thesis using assms(1) edges_upd_node [OF assms(2), of a m] by (simp add: fs_ok_def)
qed

lemma sorted_wrt_filter_fst: "sorted_wrt (<) (map fst xs) \<Longrightarrow> sorted_wrt (<) (map fst (filter P xs))"
  by (induction xs) auto

lemma dir_ok_cookie_unique:
  assumes "dir_ok nx ck n" "(name, b, c) \<in> set (mn_children n)" "(name1, b1, c) \<in> set (mn_children n)"
  shows "name1 = name"
proof -
  have "(c, name) \<in> set (mn_cookie_order n)" "(c, name1) \<in> set (mn_cookie_order n)" using assms by (auto simp: dir_ok_def)
  moreover have "distinct (map fst (mn_cookie_order n))" using assms(1) by (simp add: dir_ok_def strict_sorted_iff)
  ultimately show ?thesis by (metis eq_key_imp_eq_value)
qed

lemma dir_ok_drop:
  assumes ok: "dir_ok nx ck n" and e: "map_of (mn_children n) name = Some (b, c)"
  shows "dir_ok nx ck (drop_child name c n)"
proof -
  have dist: "distinct (map fst (mn_children n))" and mem: "(name, b, c) \<in> set (mn_children n)"
    using ok e by (auto simp: dir_ok_def dest: map_of_SomeD)
  have only: "b1 = b \<and> c1 = c" if "(name, b1, c1) \<in> set (mn_children n)" for b1 c1
    using that mem dist by (metis Pair_inject eq_key_imp_eq_value)
  have uniq: "name1 = name" if "(name1, b1, c) \<in> set (mn_children n)" for name1 b1
    using dir_ok_cookie_unique [OF ok mem that] .
  have "distinct (map fst (filter (\<lambda>p. fst p \<noteq> name) (mn_children n)))" using dist by (simp add: distinct_map_filter)
  moreover have "(c1, nm) \<in> set (filter (\<lambda>p. fst p \<noteq> c) (mn_cookie_order n)) \<longleftrightarrow>
      (\<exists>b1. (nm, b1, c1) \<in> set (filter (\<lambda>p. fst p \<noteq> name) (mn_children n)))" for c1 nm
    using ok only uniq by (auto simp: dir_ok_def)
  ultimately show ?thesis
    using ok by (simp add: dir_ok_def drop_child_def sorted_wrt_filter_fst) blast
qed

lemma fs_ok_erase:
  assumes "fs_ok m"
  shows "fs_ok (erase_child a name m)"
proof (cases "map_of (mn_children (node_at m a)) name")
  case (Some p)
  obtain b c where p: "p = (b, c)" by (cases p)
  let ?m = "upd_node a (drop_child name c) m"
  have "fs_ok ?m"
    using assms dir_ok_drop Some p by (intro fs_ok_upd_node) (simp_all add: fs_ok_def drop_child_def)
  then show ?thesis using Some p fs_ok_shape [of "touch_dir a ?m" ?m] by (simp add: erase_child_def)
qed (simp add: erase_child_def assms)

lemma dir_ok_mono: "dir_ok nx ck n \<Longrightarrow> nx \<le> nx1 \<Longrightarrow> ck \<le> ck1 \<Longrightarrow> dir_ok nx1 ck1 n"
  unfolding dir_ok_def by (meson less_le_trans)

lemma insort_last: "\<forall>p\<in>set xs. fst p < fst x \<Longrightarrow> insort_key fst x xs = xs @ [x]"
  by (induction xs) auto

lemma dir_ok_put:
  assumes ok: "dir_ok nx ck n" and fresh: "map_of (mn_children n) name = None" and b: "0 < b" "b < nx" and ck: "0 < ck" "ck < ck + 1"
  shows "dir_ok nx (ck + 1) (put_child name b ck n)"
proof -
  have low: "\<forall>p\<in>set (mn_cookie_order n). fst p < ck" using ok by (fastforce simp: dir_ok_def)
  then have none: "map_of (mn_cookie_order n) ck = None" by (force simp: map_of_eq_None_iff)
  have ins: "insort_key fst (ck, name) (mn_cookie_order n) = mn_cookie_order n @ [(ck, name)]" using low by (intro insort_last) auto
  have new: "name \<notin> fst ` set (mn_children n)" using fresh by (simp add: map_of_eq_None_iff)
  have "dir_ok nx (ck + 1) n" using dir_ok_mono [OF ok] ck by simp
  then show ?thesis
    using low none ins new b ck
    by (auto simp: dir_ok_def put_child_def fresh sorted_wrt_append)
qed

lemma fs_ok_add_link:
  assumes ok: "fs_ok m" and fresh: "child_at m a name = None" and b: "0 < b" "b < mf_next m" and ck: "mf_next_cookie m < mf_next_cookie m + 1"
  shows "fs_ok (add_link a name b m)"
proof -
  let ?c = "mf_next_cookie m"
  let ?m = "m\<lparr>mf_next_cookie := ?c + 1\<rparr>"
  have "up_edges ?m = up_edges m" by (simp add: up_edges_def lock_weak_Some)
  moreover have "dir_ok (mf_next m) (?c + 1) (node_at m x)" for x
    by (rule dir_ok_mono [of "mf_next m" ?c]) (use ok ck in \<open>simp_all add: fs_ok_def\<close>)
  moreover have "0 < ?c + 1" using ck by (rule le_less_trans [OF word_zero_le])
  ultimately have "fs_ok ?m" using ok by (simp add: fs_ok_def)
  moreover have "dir_ok (mf_next m) (?c + 1) (put_child name b ?c (node_at m a))"
    using ok fresh b ck by (intro dir_ok_put) (simp_all add: fs_ok_def child_at_def)
  ultimately show ?thesis
    unfolding add_link_def Let_def by (intro fs_ok_upd_node) (simp_all add: put_child_def)
qed

subsection \<open>New nodes, moves and releases\<close>

lemma fs_ok_new_node:
  assumes ok: "fs_ok m" and p: "p < mf_next m" and n: "mn_children n = []" "mn_cookie_order n = []" "mn_parent n = Some p"
  shows "fs_ok (upd_node (mf_next m) (\<lambda>_. n) (m\<lparr>mf_next := mf_next m + 1\<rparr>))"
proof -
  let ?a = "mf_next m"
  let ?m = "upd_node ?a (\<lambda>_. n) (m\<lparr>mf_next := ?a + 1\<rparr>)"
  have sub: "up_edges ?m \<subseteq> insert (?a, p) (up_edges m)"
    using n(3) by (auto simp: up_edges_iff upd_node_def split: if_splits)
  have nopath: "(p, ?a) \<notin> (up_edges m)\<^sup>*"
  proof
    assume "(p, ?a) \<in> (up_edges m)\<^sup>*"
    then show False
    proof (cases rule: rtranclE)
      case base
      then show False using p by simp
    next
      case (step y)
      then show False using ok by (auto simp: fs_ok_def up_edges_iff)
    qed
  qed
  have "acyclic (insert (?a, p) (up_edges m))" using ok nopath by (simp add: acyclic_insert fs_ok_def)
  then have "acyclic (up_edges ?m)" using sub by (rule acyclic_subset)
  moreover have "dir_ok (?a + 1) (mf_next_cookie m) (node_at ?m x)" for x
  proof (cases "x = ?a")
    case True
    then show ?thesis using n(1,2) by (simp add: upd_node_def dir_ok_def)
  next
    case False
    then show ?thesis
      using ok dir_ok_mono [of ?a "mf_next_cookie m" "node_at m x" "?a + 1" "mf_next_cookie m"] by (simp add: upd_node_def fs_ok_def)
  qed
  moreover have "mn_parent (node_at ?m x) = Some q \<Longrightarrow> x < ?a + 1 \<and> q < ?a + 1" for x q
    using ok n(3) p by (auto simp: upd_node_def fs_ok_def less_Suc_eq split: if_splits)
  moreover have "mf_next ?m = ?a + 1" "mf_next_cookie ?m = mf_next_cookie m" "0 < ?a" "0 < mf_next_cookie m"
      "mn_parent (node_at ?m 0) = None" "type_at ?m 0 = FtDir"
    using ok by (simp_all add: upd_node_def fs_ok_def)
  ultimately show ?thesis unfolding fs_ok_def by simp
qed

text \<open>The walk of \<^verbatim>\<open>rename\<close>: it ends, and it misses no ancestor.\<close>

lemma below_ends:
  assumes "fs_ok m"
  shows "\<exists>r. below m moving p = Some r"
proof -
  have "up_edges m \<subseteq> {..<mf_next m} \<times> {..<mf_next m}"
    using assms by (auto simp: up_edges_iff fs_ok_def)
  then have "finite (up_edges m)" by (rule finite_subset) simp
  then have "wf ((up_edges m)\<inverse>)" using assms by (intro finite_acyclic_wf_converse) (simp_all add: fs_ok_def)
  then show ?thesis
  proof (induction p rule: wf_induct_rule)
    case (less p)
    show ?case
    proof (cases "lock_weak m (mn_parent (node_at m p))")
      case None
      then show ?thesis by (subst below.simps) (auto intro: exI [of _ True] exI [of _ False])
    next
      case (Some q)
      then have "(q, p) \<in> (up_edges m)\<inverse>" by (simp add: up_edges_def)
      then obtain r where "below m moving q = Some r" using less.IH by blast
      then show ?thesis using Some by (subst below.simps) auto
    qed
  qed
qed

lemma below_ancestor:
  assumes "(p, moving) \<in> (up_edges m)\<^sup>*" "mn_parent (node_at m 0) = None"
  shows "below m moving p = Some True"
  using assms(1)
proof (induction rule: converse_rtrancl_induct)
  case base
  then show ?case by (subst below.simps) simp
next
  case (step y z)
  have "lock_weak m (mn_parent (node_at m y)) = Some z" using step(1) by (simp add: up_edges_def)
  moreover have "y \<noteq> 0" using step(1) assms(2) by (metis option.distinct(1) up_edges_iff)
  ultimately show ?case using step.IH by (subst below.simps) simp
qed

lemma fs_ok_reparent:
  assumes ok: "fs_ok m" and off: "(dst, moving) \<notin> (up_edges m)\<^sup>*" and b: "moving \<noteq> 0" "moving < mf_next m" "dst < mf_next m"
  shows "fs_ok (upd_node moving (\<lambda>n. n\<lparr>mn_parent := Some dst\<rparr>) m)"
proof -
  let ?m = "upd_node moving (\<lambda>n. n\<lparr>mn_parent := Some dst\<rparr>) m"
  have "up_edges ?m \<subseteq> insert (moving, dst) (up_edges m)"
    by (auto simp: up_edges_iff upd_node_def split: if_splits)
  moreover have "acyclic (insert (moving, dst) (up_edges m))" using ok off by (simp add: acyclic_insert fs_ok_def)
  ultimately have "acyclic (up_edges ?m)" by (rule acyclic_subset [rotated])
  moreover have "dir_ok (mf_next m) (mf_next_cookie m) (node_at ?m x)" for x
    using ok by (auto simp: upd_node_def fs_ok_def dir_ok_def)
  moreover have "mn_parent (node_at ?m x) = Some q \<Longrightarrow> x < mf_next m \<and> q < mf_next m" for x q
    using ok b by (auto simp: upd_node_def fs_ok_def split: if_splits)
  moreover have "mn_parent (node_at ?m 0) = None" "type_at ?m 0 = FtDir" using ok b by (simp_all add: upd_node_def fs_ok_def)
  moreover have "mf_next ?m = mf_next m" "mf_next_cookie ?m = mf_next_cookie m" by (simp_all add: upd_node_def)
  ultimately show ?thesis using ok unfolding fs_ok_def by simp
qed

lemma fs_ok_release: "fs_ok m \<Longrightarrow> fs_ok (mem_release a m)"
proof -
  assume ok: "fs_ok m"
  have "up_edges (m\<lparr>mf_dead := a # mf_dead m\<rparr>) \<subseteq> up_edges m" by (auto simp: up_edges_iff)
  then have "acyclic (up_edges (m\<lparr>mf_dead := a # mf_dead m\<rparr>))" using ok acyclic_subset by (auto simp: fs_ok_def)
  then show ?thesis using ok by (simp add: mem_release_def fs_ok_def)
qed

section \<open>Every operation keeps the tree well formed\<close>

text \<open>The counter of cookies is not about to wrap.\<close>

definition room :: "MemFs \<Rightarrow> bool" where
  "room m \<longleftrightarrow> mf_next_cookie m < mf_next_cookie m + 1"

lemma child_at_bound: "fs_ok m \<Longrightarrow> child_at m a name = Some b \<Longrightarrow> 0 < b \<and> b < mf_next m"
  by (fastforce simp: child_at_def fs_ok_def dir_ok_def dest: map_of_SomeD)

lemma fs_ok_new_entry:
  assumes ok: "fs_ok m" and p: "p < mf_next m" and fresh: "child_at m p name = None" and room: "room m"
    and n: "mn_children n = []" "mn_cookie_order n = []" "mn_parent n = Some p"
  shows "fs_ok (add_link p name (mf_next m) (upd_node (mf_next m) (\<lambda>_. n) (m\<lparr>mf_next := mf_next m + 1\<rparr>)))"
    (is "fs_ok (add_link p name ?a ?m)")
proof (rule fs_ok_add_link)
  show "fs_ok ?m" by (rule fs_ok_new_node [OF ok p n])
  show "child_at ?m p name = None" using fresh p by (simp add: child_at_def upd_node_def)
  show "0 < ?a" "?a < mf_next ?m" using p by (simp_all add: upd_node_def)
  show "mf_next_cookie ?m < mf_next_cookie ?m + 1" using room by (simp add: room_def upd_node_def)
qed

lemma fs_ok_new_child:
  assumes "fs_ok m" "p < mf_next m" "child_at m p name = None" "room m"
  shows "fs_ok (snd (new_child p name ty mode cred m))"
proof -
  let ?n = "node_at (snd (new_child p name ty mode cred m)) (mf_next m)"
  have n: "mn_children ?n = []" "mn_cookie_order ?n = []" "mn_parent ?n = Some p"
    using assms(2) by (simp_all add: new_child_def mem_now_def Let_def touch_dir_def upd_attr_def upd_node_def blank_node_def)
  have "shape (snd (new_child p name ty mode cred m)) =
      shape (add_link p name (mf_next m) (upd_node (mf_next m) (\<lambda>_. ?n) (m\<lparr>mf_next := mf_next m + 1\<rparr>)))"
    using assms(2)
    by (auto simp: shape_def new_child_def add_link_def mem_now_def Let_def touch_dir_def upd_attr_def upd_node_def put_child_def)
  then show ?thesis using fs_ok_new_entry [OF assms n] fs_ok_shape by blast
qed

lemma fs_ok_make_child:
  assumes "fs_ok m" "p < mf_next m" "room m" "\<And>b m1. shape (after b m1) = shape m1"
  shows "fs_ok (snd (make_child p cred name ty mode after m))"
  using fs_ok_new_child [OF assms(1,2) _ assms(3)] fs_ok_shape [OF assms(4)] assms(1)
  by (auto simp: make_child_def split: prod.split) (metis snd_conv)

lemma fs_ok_create:
  assumes "fs_ok m" "p < mf_next m" "room m"
  shows "fs_ok (snd (mem_create p cred name attrs verf m))"
proof (cases "type_at m p = FtDir \<and> mem_valid_component name \<and> child_at m p name = None")
  case True
  let ?mode = "case verf of Some v \<Rightarrow> 0 | None \<Rightarrow> (case sa_mode attrs of None \<Rightarrow> 0x1A4 | Some md \<Rightarrow> md)"
  obtain b m1 where nc: "new_child p name FtReg ?mode cred m = (b, m1)" by (cases "new_child p name FtReg ?mode cred m")
  have "shape (snd (mem_create p cred name attrs verf m)) = shape m1"
    using True nc by (simp add: mem_create_def shape_upd_node split: option.split)
  moreover have "fs_ok m1" using fs_ok_new_child [OF assms(1,2) _ assms(3), of name FtReg ?mode cred] True nc by simp
  ultimately show ?thesis using fs_ok_shape by blast
next
  case False
  then show ?thesis using assms(1) by (auto simp: mem_create_def split: option.split)
qed

lemma fs_ok_makers:
  assumes "fs_ok m" "p < mf_next m" "room m"
  shows "fs_ok (snd (mem_mkdir p cred name attrs m))" "fs_ok (snd (mem_symlink p cred name target m))"
    "fs_ok (snd (mem_mknod p cred name ty dev attrs m))"
  using assms(1) fs_ok_make_child [OF assms]
  by (simp_all add: mem_mkdir_def mem_symlink_def mem_mknod_def shape_upd_node)

lemma fs_ok_removers:
  assumes "fs_ok m"
  shows "fs_ok (snd (mem_unlink a name m))" "fs_ok (snd (mem_rmdir a name m))"
proof -
  have "fs_ok (set_ctime b (dec_nlink b m))" "fs_ok (dec_nlink b m)" for b
    using assms fs_ok_shape [of "set_ctime b (dec_nlink b m)" m] fs_ok_shape [of "dec_nlink b m" m] by simp_all
  then show "fs_ok (snd (mem_unlink a name m))" "fs_ok (snd (mem_rmdir a name m))"
    using assms by (simp_all add: mem_unlink_def mem_rmdir_def fs_ok_erase split: option.split)
qed

lemma fs_ok_link:
  assumes "fs_ok m" "target < mf_next m" "room m"
  shows "fs_ok (snd (mem_link a target name m))"
proof (cases "type_at m a = FtDir \<and> mem_valid_component name \<and> type_at m target \<noteq> FtDir \<and> child_at m a name = None")
  case True
  have "target \<noteq> 0" using True assms(1) unfolding fs_ok_def by metis
  then have "fs_ok (add_link a name target m)"
    using fs_ok_add_link assms True by (simp add: room_def)
  moreover have "shape (snd (mem_link a target name m)) = shape (add_link a name target m)"
    using True by (simp add: mem_link_def mem_now_def Let_def)
  ultimately show ?thesis using fs_ok_shape by blast
qed (use assms(1) in \<open>auto simp: mem_link_def\<close>)

subsection \<open>Renaming\<close>

lemma erase_child_frame:
  "mf_next (erase_child a name m) = mf_next m" "mf_next_cookie (erase_child a name m) = mf_next_cookie m"
  "up_edges (erase_child a name m) = up_edges m" "room (erase_child a name m) = room m"
proof -
  have "mf_next (erase_child a name m) = mf_next m \<and> mf_next_cookie (erase_child a name m) = mf_next_cookie m \<and>
      up_edges (erase_child a name m) = up_edges m"
  proof (cases "map_of (mn_children (node_at m a)) name")
    case (Some p)
    obtain b c where p: "p = (b, c)" by (cases p)
    let ?m = "upd_node a (drop_child name c) m"
    have s: "shape (touch_dir a ?m) = shape ?m" by simp
    have "up_edges ?m = up_edges m" by (rule edges_upd_node) (simp add: drop_child_def)
    then show ?thesis
      using Some p shape_eq(1,3) [OF s] shape_edges [OF s] by (simp add: erase_child_def upd_node_def)
  qed (simp add: erase_child_def)
  then show "mf_next (erase_child a name m) = mf_next m" "mf_next_cookie (erase_child a name m) = mf_next_cookie m"
    "up_edges (erase_child a name m) = up_edges m" "room (erase_child a name m) = room m"
    by (simp_all add: room_def)
qed

lemma erase_child_at:
  "child_at (erase_child a name m) d x = (if d = a \<and> x = name then None else child_at m d x)"
proof (cases "map_of (mn_children (node_at m a)) name")
  case (Some p)
  obtain b c where p: "p = (b, c)" by (cases p)
  have "map_of (filter (\<lambda>q. fst q \<noteq> name) xs) y = (if y = name then None else map_of xs y)" for y and xs :: "(string \<times> nat \<times> u64) list"
    by (induction xs) auto
  then show ?thesis
    using Some p by (simp add: erase_child_def child_at_def touch_dir_def mem_now_def upd_attr_def upd_node_def drop_child_def)
qed (auto simp: erase_child_def child_at_def)

lemma add_link_edges: "up_edges (add_link d name b m) = up_edges m" "mf_next (add_link d name b m) = mf_next m"
proof -
  have "up_edges (add_link d name b m) = up_edges (m\<lparr>mf_next_cookie := mf_next_cookie m + 1\<rparr>)"
    unfolding add_link_def Let_def by (rule edges_upd_node) (simp add: put_child_def)
  then show "up_edges (add_link d name b m) = up_edges m" by (simp add: up_edges_def lock_weak_Some)
  show "mf_next (add_link d name b m) = mf_next m" by (simp add: add_link_def upd_node_def Let_def)
qed

lemma child_at_shape: "shape m = shape m1 \<Longrightarrow> child_at m a name = child_at m1 a name"
  by (simp add: child_at_def shape_eq [of m m1])

lemma fs_ok_move:
  assumes ok: "fs_ok m" and off: "(dst, moving) \<notin> (up_edges m)\<^sup>*" and b: "0 < moving" "moving < mf_next m" "dst < mf_next m"
    and fresh: "child_at m dst to = None" and room: "room m"
  shows "fs_ok (move_links a from dst to moving m)"
proof -
  let ?m1 = "erase_child a from m"
  define m2 where "m2 = (if type_at ?m1 moving = FtDir then inc_nlink dst (dec_nlink a ?m1) else ?m1)"
  let ?m3 = "add_link dst to moving m2"
  let ?m4 = "upd_node moving (\<lambda>n. n\<lparr>mn_parent := Some dst\<rparr>) ?m3"
  have s: "shape m2 = shape ?m1" by (simp add: m2_def)
  have "fs_ok m2" using fs_ok_shape [OF s] fs_ok_erase [OF ok] by simp
  moreover have "child_at m2 dst to = None" using child_at_shape [OF s] fresh by (simp add: erase_child_at)
  moreover have next2: "mf_next m2 = mf_next m" using shape_eq(1) [OF s] by (simp add: erase_child_frame)
  moreover have "mf_next_cookie m2 < mf_next_cookie m2 + 1" using shape_eq(3) [OF s] room by (simp add: erase_child_frame room_def)
  ultimately have ok3: "fs_ok ?m3" using b by (intro fs_ok_add_link) simp_all
  have "up_edges ?m3 = up_edges m" using shape_edges [OF s] by (simp add: add_link_edges erase_child_frame)
  then have "fs_ok ?m4" using fs_ok_reparent [OF ok3, of dst moving] off b next2 by (simp add: add_link_edges)
  moreover have "move_links a from dst to moving m = set_ctime moving ?m4" by (simp add: move_links_def m2_def Let_def)
  ultimately show ?thesis using fs_ok_shape [of "set_ctime moving ?m4" ?m4] by simp
qed

lemma rename_ends:
  assumes "fs_ok m"
  shows "mem_rename a from dst to m \<noteq> None"
proof (cases "child_at m a from")
  case None
  then show ?thesis by (simp add: mem_rename_def)
next
  case (Some moving)
  obtain r where "below m moving dst = Some r" using below_ends [OF assms] by blast
  then show ?thesis using Some by (cases r; cases "child_at m dst to") (simp_all add: mem_rename_def Let_def)
qed

lemma fs_ok_rename:
  assumes ok: "fs_ok m" and b: "dst < mf_next m" and room: "room m" and r: "mem_rename a from dst to m = Some (res, m1)"
  shows "fs_ok m1"
proof (cases "m1 = m")
  case False
  then obtain moving where mv: "child_at m a from = Some moving" "below m moving dst = Some False"
    using r by (auto simp: mem_rename_def split: if_splits option.splits bool.splits)
  have off: "(dst, moving) \<notin> (up_edges m)\<^sup>*" using below_ancestor [of dst moving m] mv(2) ok by (auto simp: fs_ok_def)
  note bound = child_at_bound [OF ok mv(1)]
  consider (new) "child_at m dst to = None" "m1 = move_links a from dst to moving m"
    | (over) mx where "shape mx = shape m" "m1 = move_links a from dst to moving (erase_child dst to mx)"
  proof (cases "child_at m dst to")
    case None
    then show ?thesis using new r mv False by (auto simp: mem_rename_def split: if_splits)
  next
    case (Some existing)
    then show ?thesis
      using over [of "if type_at m existing = FtDir then dec_nlink dst m else m"] r mv False
      by (auto simp: mem_rename_def Let_def split: if_splits)
  qed
  then show ?thesis
  proof cases
    case new
    then show ?thesis using fs_ok_move [OF ok off _ _ b _ room] bound by simp
  next
    case over
    have okx: "fs_ok (erase_child dst to mx)" using fs_ok_shape [OF over(1)] ok fs_ok_erase by blast
    have "room mx" using room shape_eq(3) [OF over(1)] by (simp add: room_def)
    then show ?thesis
      using fs_ok_move [OF okx, of dst moving to] off bound b shape_eq(1) [OF over(1)] shape_edges [OF over(1)] over(2)
      by (simp add: erase_child_frame erase_child_at)
  qed
qed (simp add: ok)

subsection \<open>Seeding and reachable states\<close>

lemma find_parts_bound: "fs_ok m \<Longrightarrow> cur < mf_next m \<Longrightarrow> find_parts m cur ps = Some b \<Longrightarrow> b < mf_next m"
  by (induction m cur ps rule: find_parts.induct) (auto split: if_splits option.splits dest: child_at_bound)

lemma fs_ok_seed_child:
  assumes "fs_ok m" "p < mf_next m" "child_at m p name = None" "room m"
  shows "fs_ok (snd (seed_child p name ty mode data lnk m))"
proof -
  let ?n = "node_at (snd (seed_child p name ty mode data lnk m)) (mf_next m)"
  have n: "mn_children ?n = []" "mn_cookie_order ?n = []" "mn_parent ?n = Some p"
    using assms(2) by (simp_all add: seed_child_def add_link_def mem_now_def Let_def touch_dir_def upd_attr_def upd_node_def blank_node_def)
  have "shape (snd (seed_child p name ty mode data lnk m)) =
      shape (add_link p name (mf_next m) (upd_node (mf_next m) (\<lambda>_. ?n) (m\<lparr>mf_next := mf_next m + 1\<rparr>)))"
    using assms(2)
    by (auto simp: shape_def seed_child_def add_link_def mem_now_def Let_def touch_dir_def upd_attr_def upd_node_def put_child_def)
  then show ?thesis using fs_ok_new_entry [OF assms n] fs_ok_shape by blast
qed

lemma fs_ok_add_node:
  assumes ok: "fs_ok m" and room: "room m"
  shows "fs_ok (snd (add_node path ty mode data lnk m))"
proof -
  have bound: "find_path q m = Some p \<Longrightarrow> p < mf_next m" for q p
    using find_parts_bound [OF ok, of 0 "split_slash q" p] ok by (simp add: find_path_def fs_ok_def)
  have "fs_ok (snd (if bad then (Inl EINVAL, m)
      else case find_path q m of
             None \<Rightarrow> (Inl ENOENT, m)
           | Some p \<Rightarrow>
               if child_at m p name \<noteq> None then (Inl EEXIST, m)
               else case seed_child p name ty mode data lnk m of (oid, m1) \<Rightarrow> (Inr oid, m1)))" for bad q name
  proof (cases "find_path q m")
    case (Some p)
    show ?thesis
      using Some ok fs_ok_seed_child [OF ok bound [OF Some] _ room, of name ty mode data lnk]
      by (cases "seed_child p name ty mode data lnk m") simp
  qed (use ok in simp)
  then show ?thesis unfolding add_node_def Let_def .
qed

definition set_max_filesize :: "u64 \<Rightarrow> MemFs \<Rightarrow> MemFs" where
  "set_max_filesize n m = m\<lparr>mf_max_filesize := n\<rparr>"

text \<open>
  The states a sequence of operations leads to: any operation, on any existing nodes, with any arguments,
  until the cookies run out.
\<close>

inductive mem_reach :: "MemFs \<Rightarrow> bool" where
  do_start: "mem_reach new_memfs"
| do_limit: "mem_reach m \<Longrightarrow> mem_reach (set_max_filesize n m)"
| do_create: "mem_reach m \<Longrightarrow> room m \<Longrightarrow> a < mf_next m \<Longrightarrow> mem_reach (snd (mem_create a cred name attrs verf m))"
| do_mkdir: "mem_reach m \<Longrightarrow> room m \<Longrightarrow> a < mf_next m \<Longrightarrow> mem_reach (snd (mem_mkdir a cred name attrs m))"
| do_symlink: "mem_reach m \<Longrightarrow> room m \<Longrightarrow> a < mf_next m \<Longrightarrow> mem_reach (snd (mem_symlink a cred name target m))"
| do_mknod: "mem_reach m \<Longrightarrow> room m \<Longrightarrow> a < mf_next m \<Longrightarrow> mem_reach (snd (mem_mknod a cred name ty dev attrs m))"
| do_unlink: "mem_reach m \<Longrightarrow> mem_reach (snd (mem_unlink a name m))"
| do_rmdir: "mem_reach m \<Longrightarrow> mem_reach (snd (mem_rmdir a name m))"
| do_rename: "mem_reach m \<Longrightarrow> room m \<Longrightarrow> dst < mf_next m \<Longrightarrow> mem_rename a from dst to m = Some (r, m1) \<Longrightarrow> mem_reach m1"
| do_link: "mem_reach m \<Longrightarrow> room m \<Longrightarrow> b < mf_next m \<Longrightarrow> mem_reach (snd (mem_link a b name m))"
| do_setattr: "mem_reach m \<Longrightarrow> mem_reach (snd (mem_setattr a cred s m))"
| do_write: "mem_reach m \<Longrightarrow> mem_write a cred fault off new m = Some (w, m1) \<Longrightarrow> mem_reach m1"
| do_allocate: "mem_reach m \<Longrightarrow> mem_reach (snd (mem_allocate a cred off len m))"
| do_deallocate: "mem_reach m \<Longrightarrow> mem_deallocate a cred off len m = Some (u, m1) \<Longrightarrow> mem_reach m1"
| do_copy_range: "mem_reach m \<Longrightarrow> mem_copy_range a cred b cred1 soff doff len m = Some (c, m1) \<Longrightarrow> mem_reach m1"
| do_resolve: "mem_reach m \<Longrightarrow> mem_reach (snd (mem_resolve oid m))"
| do_release: "mem_reach m \<Longrightarrow> mem_reach (mem_release a m)"
| do_seed: "mem_reach m \<Longrightarrow> room m \<Longrightarrow> mem_reach (snd (add_node path ty mode data lnk m))"

lemma fs_ok_start: "fs_ok new_memfs"
proof -
  have "up_edges new_memfs = {}" by (auto simp: up_edges_iff new_memfs_def blank_node_def split: if_splits)
  then show ?thesis by (simp add: fs_ok_def dir_ok_def new_memfs_def blank_node_def acyclic_def)
qed

lemma fs_ok_same: "shape m1 = shape m \<Longrightarrow> fs_ok m \<Longrightarrow> fs_ok m1"
  using fs_ok_shape by blast

lemma reach_ok: "mem_reach m \<Longrightarrow> fs_ok m"
proof (induction rule: mem_reach.induct)
  case do_start
  then show ?case by (simp add: fs_ok_start)
next
  case do_create
  then show ?case by (simp add: fs_ok_create)
next
  case do_mkdir
  then show ?case by (simp add: fs_ok_makers(1))
next
  case do_symlink
  then show ?case by (simp add: fs_ok_makers(2))
next
  case do_mknod
  then show ?case by (simp add: fs_ok_makers(3))
next
  case do_unlink
  then show ?case by (simp add: fs_ok_removers(1))
next
  case do_rmdir
  then show ?case by (simp add: fs_ok_removers(2))
next
  case do_rename
  then show ?case using fs_ok_rename by blast
next
  case do_link
  then show ?case by (simp add: fs_ok_link)
next
  case do_release
  then show ?case by (simp add: fs_ok_release)
next
  case do_seed
  then show ?case by (simp add: fs_ok_add_node)
next
  case (do_limit m n)
  then show ?case using fs_ok_same [of "set_max_filesize n m" m] by (simp add: set_max_filesize_def shape_def)
next
  case (do_resolve m oid)
  then show ?case using fs_ok_same [of "snd (mem_resolve oid m)" m] by (simp add: mem_resolve_def)
next
  case do_setattr
  then show ?case using fs_ok_same [OF shape_setattr] by blast
next
  case do_write
  then show ?case using fs_ok_same [OF shape_write] by blast
next
  case do_allocate
  then show ?case using fs_ok_same [OF shape_allocate] by blast
next
  case do_deallocate
  then show ?case using fs_ok_same [OF shape_deallocate] by blast
next
  case do_copy_range
  then show ?case using fs_ok_same [OF shape_copy] by blast
qed

text \<open>C37: Renaming always answers.  In every reachable state of the in-memory backend the walk towards the root that
  guards a rename ends, whatever nodes and names it is given, because the live parent links never form
  a cycle.  The two indexes of each directory, by name and by cookie, mirror each other there, with
  cookies in ascending order below the next one to be handed out.\<close>

theorem rename_answers:
  assumes "mem_reach m"
  shows "(\<exists>res m1. mem_rename a from dst to m = Some (res, m1)) \<and> acyclic (up_edges m) \<and>
    distinct (map fst (mn_children (node_at m d))) \<and> sorted_wrt (<) (map fst (mn_cookie_order (node_at m d))) \<and>
    ((c, name) \<in> set (mn_cookie_order (node_at m d)) \<longleftrightarrow> (\<exists>b. (name, b, c) \<in> set (mn_children (node_at m d)))) \<and>
    list_all (\<lambda>p. 0 < fst p \<and> fst p < mf_next_cookie m) (mn_cookie_order (node_at m d))"
proof -
  have ok: "fs_ok m" by (rule reach_ok [OF assms])
  then have dir: "dir_ok (mf_next m) (mf_next_cookie m) (node_at m d)" by (simp add: fs_ok_def)
  have "list_all (\<lambda>p. 0 < fst p \<and> fst p < mf_next_cookie m) (mn_cookie_order (node_at m d))"
    using dir by (fastforce simp: dir_ok_def list_all_iff)
  moreover have "acyclic (up_edges m)" using ok by (simp add: fs_ok_def)
  ultimately show ?thesis using rename_ends [OF ok, of a "from" dst to] dir by (auto simp: dir_ok_def)
qed

definition demo_root :: BackendCred where
  "demo_root = \<lparr>bc_uid = 0, bc_gid = 0, bc_gids = []\<rparr>"

definition demo_sub :: MemFs where
  "demo_sub = snd (add_node ''/d'' FtDir 0x1ED [] [] new_memfs)"

theorem rename_answers_witness:
  "(\<exists>res m1. mem_rename 0 ''d'' 1 ''e'' demo_sub = Some (res, m1)) \<and> mn_cookie_order (node_at demo_sub 0) = [(1, ''d'')]"
proof -
  have "room new_memfs" by (simp add: room_def new_memfs_def)
  then have "mem_reach demo_sub" unfolding demo_sub_def by (rule do_seed [OF do_start])
  then have "\<exists>res m1. mem_rename 0 ''d'' 1 ''e'' demo_sub = Some (res, m1)" by (rule rename_answers [THEN conjunct1])
  moreover have "mn_cookie_order (node_at demo_sub 0) = [(1, ''d'')]" by code_simp
  ultimately show ?thesis by blast
qed

end
