(* ===== verification/PseudoFs.thy ===== *)
theory PseudoFs
  imports BackendApi
begin

text \<open>
  The NFSv4 pseudo file system (\<^verbatim>\<open>src/src/core/pseudofs.cpp\<close>): the directory tree from the root to each export.
  Nodes live at the positions of a list, the root first; a node refers to its parent and children by
  position, and its children, which nothing here iterates, are the list of their pairs.  The search for a free id is a loop that may not end, so building is partial.
\<close>

section \<open>Nodes\<close>

record PNode =
  pn_id :: u64
  pn_name :: string
  pn_parent :: "nat option"
  pn_children :: "(string \<times> nat) list"
  pn_exp :: "nat option"

record PseudoFs =
  pf_nodes :: "PNode list"
  pf_by_id :: "u64 \<rightharpoonup> nat"
  pf_by_export :: "u32 \<rightharpoonup> nat"
  pf_change_base :: u64

section \<open>Building\<close>

partial_function (option) probe :: "(u64 \<rightharpoonup> nat) \<Rightarrow> u64 \<Rightarrow> u64 option" where
  "probe ids i = (if i = 0 \<or> ids i \<noteq> None then probe ids (i + 1) else Some i)"

definition stable_id :: "PseudoFs \<Rightarrow> string \<Rightarrow> u64 option" where
  "stable_id fs path = probe (pf_by_id fs) (fnv64 (map of_char path))"

definition ensure_child :: "nat \<Rightarrow> string \<Rightarrow> string \<Rightarrow> PseudoFs \<Rightarrow> (nat \<times> PseudoFs) option" where
  "ensure_child parent name full fs =
     (case map_of (pn_children (pf_nodes fs ! parent)) name of
        Some a \<Rightarrow> Some (a, fs)
      | None \<Rightarrow>
          (case stable_id fs full of
             None \<Rightarrow> None
           | Some i \<Rightarrow>
               let a = length (pf_nodes fs);
                   p = pf_nodes fs ! parent;
                   node = \<lparr>pn_id = i, pn_name = name, pn_parent = Some parent, pn_children = [], pn_exp = None\<rparr>
               in Some (a, fs\<lparr>pf_nodes := (pf_nodes fs)[parent := p\<lparr>pn_children := (name, a) # pn_children p\<rparr>] @ [node],
                              pf_by_id := (pf_by_id fs)(i \<mapsto> a)\<rparr>)))"

text \<open>The components between the slashes of an export path, empty ones left out.\<close>

function path_parts :: "string \<Rightarrow> string list" where
  "path_parts path =
     (if path = [] then []
      else let part = takeWhile (\<lambda>c. c \<noteq> CHR ''/'') path; rest = dropWhile (\<lambda>c. c \<noteq> CHR ''/'') path
           in (if part = [] then [] else [part]) @ (if rest = [] then [] else path_parts (tl rest)))"
  by pat_completeness auto
termination
proof (relation "measure length")
  fix path part and rest :: string
  assume r: "rest = dropWhile (\<lambda>c. c \<noteq> CHR ''/'') path" and ne: "rest \<noteq> []"
  have "length (tl rest) < length rest" using ne by (cases rest) simp_all
  also have "\<dots> \<le> length path" unfolding r by (rule length_dropWhile_le)
  finally show "(tl rest, path) \<in> measure length" by simp
qed simp

declare path_parts.simps [simp del]

primrec add_parts :: "string list \<Rightarrow> nat \<Rightarrow> string \<Rightarrow> PseudoFs \<Rightarrow> (nat \<times> PseudoFs) option" where
  "add_parts [] cur full fs = Some (cur, fs)"
| "add_parts (p # ps) cur full fs =
     (let full1 = full @ ''/'' @ p
      in case ensure_child cur p full1 fs of None \<Rightarrow> None | Some (next, fs1) \<Rightarrow> add_parts ps next full1 fs1)"

definition add_entry :: "(nat \<Rightarrow> ExportEntry) \<Rightarrow> nat \<Rightarrow> PseudoFs \<Rightarrow> PseudoFs option" where
  "add_entry heap e fs =
     (case add_parts (path_parts (ee_path (heap e))) 0 [] fs of
        None \<Rightarrow> None
      | Some (cur, fs1) \<Rightarrow>
          if pn_exp (pf_nodes fs1 ! cur) = None
          then Some (fs1\<lparr>pf_nodes := (pf_nodes fs1)[cur := (pf_nodes fs1 ! cur)\<lparr>pn_exp := Some e\<rparr>],
                         pf_by_export := (pf_by_export fs1)(ee_fsid (heap e) \<mapsto> cur)\<rparr>)
          else Some fs1)"

primrec add_entries :: "(nat \<Rightarrow> ExportEntry) \<Rightarrow> nat list \<Rightarrow> PseudoFs \<Rightarrow> PseudoFs option" where
  "add_entries heap [] fs = Some fs"
| "add_entries heap (e # es) fs = (case add_entry heap e fs of None \<Rightarrow> None | Some fs1 \<Rightarrow> add_entries heap es fs1)"

definition pseudo_fs :: "(nat \<Rightarrow> ExportEntry) \<Rightarrow> nat list \<Rightarrow> u64 \<Rightarrow> PseudoFs option" where
  "pseudo_fs heap entries change_base =
     (let empty = \<lparr>pf_nodes = [], pf_by_id = Map.empty, pf_by_export = Map.empty, pf_change_base = change_base\<rparr>
      in case stable_id empty ''/'' of
           None \<Rightarrow> None
         | Some i \<Rightarrow>
             add_entries heap entries
               (empty\<lparr>pf_nodes := [\<lparr>pn_id = i, pn_name = ''/'', pn_parent = None, pn_children = [], pn_exp = None\<rparr>],
                      pf_by_id := [i \<mapsto> 0]\<rparr>))"

section \<open>Looking up\<close>

partial_function (option) path_up :: "PNode list \<Rightarrow> nat \<Rightarrow> string list \<Rightarrow> string list option" where
  "path_up nodes a parts =
     (case pn_parent (nodes ! a) of
        None \<Rightarrow> Some parts
      | Some p \<Rightarrow> path_up nodes p (pn_name (nodes ! a) # parts))"

definition path_of :: "PseudoFs \<Rightarrow> nat \<Rightarrow> string list option" where
  "path_of fs a = path_up (pf_nodes fs) a []"

definition pseudo_find :: "PseudoFs \<Rightarrow> u64 \<Rightarrow> nat option" where
  "pseudo_find fs i = pf_by_id fs i"

definition for_export :: "PseudoFs \<Rightarrow> u32 \<Rightarrow> nat option" where
  "for_export fs fsid = pf_by_export fs fsid"

definition attr_of :: "PseudoFs \<Rightarrow> PNode \<Rightarrow> Attr" where
  "attr_of fs node =
     default_attr\<lparr>at_type := FtDir, at_mode := 0x16D, at_nlink := 2 + of_nat (length (pn_children node)), at_uid := 0, at_gid := 0,
       at_size := 4096, at_used := 4096, at_fileid := pn_id node, at_change := pf_change_base fs\<rparr>"

definition oid_of :: "PNode \<Rightarrow> ObjId" where
  "oid_of node = le_bytes 8 (pn_id node)"

definition pseudo_resolve :: "PseudoFs \<Rightarrow> ObjId \<Rightarrow> nat option" where
  "pseudo_resolve fs oid = (if length oid \<noteq> 8 then None else pseudo_find fs (read64 oid))"

section \<open>The search for a free id ends\<close>

lemma probe_found:
  assumes "i + of_nat k \<noteq> 0" "ids (i + of_nat k) = None"
  shows "\<exists>j. probe ids i = Some j \<and> j \<noteq> 0 \<and> ids j = None"
  using assms
proof (induction k arbitrary: i)
  case 0
  then show ?case by (subst probe.simps) simp
next
  case (Suc k)
  show ?case
  proof (cases "i = 0 \<or> ids i \<noteq> None")
    case True
    have "i + 1 + of_nat k \<noteq> 0" "ids (i + 1 + of_nat k) = None" using Suc.prems by (simp_all add: ac_simps)
    then obtain j where "probe ids (i + 1) = Some j \<and> j \<noteq> 0 \<and> ids j = None" using Suc.IH by blast
    then show ?thesis using True by (subst probe.simps) auto
  next
    case False
    then show ?thesis by (subst probe.simps) simp
  qed
qed

lemma probe_ends:
  assumes "finite (dom ids)" "card (dom ids) < 2 ^ 64 - 1"
  shows "\<exists>j. probe ids i = Some j \<and> j \<noteq> 0 \<and> ids j = None"
proof -
  have "card (insert 0 (dom ids)) < 2 ^ 64" using card_insert_le_m1 [of "2 ^ 64 - 1" "dom ids" 0] assms
    by (simp add: card_insert_if)
  moreover have "card (UNIV :: u64 set) = 2 ^ 64" by (simp add: card_word)
  ultimately have "insert 0 (dom ids) \<noteq> UNIV" by auto
  then obtain x where x: "x \<noteq> 0" "ids x = None" by blast
  have "i + of_nat (unat (x - i)) = x" by simp
  then show ?thesis using probe_found [of i "unat (x - i)" ids] x by simp
qed

section \<open>Trees that are well formed\<close>

text \<open>What a node keeps for good: its id, its name and its parent.\<close>

definition fixed :: "PNode \<Rightarrow> u64 \<times> string \<times> nat option" where
  "fixed n = (pn_id n, pn_name n, pn_parent n)"

definition pf_ok :: "(nat \<Rightarrow> ExportEntry) \<Rightarrow> PseudoFs \<Rightarrow> bool" where
  "pf_ok heap fs \<longleftrightarrow>
     (let ns = pf_nodes fs; len = length ns
      in ns \<noteq> [] \<and> pn_parent (ns ! 0) = None \<and>
         (\<forall>a<len. pf_by_id fs (pn_id (ns ! a)) = Some a \<and> pn_id (ns ! a) \<noteq> 0) \<and>
         dom (pf_by_id fs) = pn_id ` set ns \<and>
         (\<forall>a<len. \<forall>p. pn_parent (ns ! a) = Some p \<longrightarrow> p < a) \<and>
         (\<forall>a<len. \<forall>name b. map_of (pn_children (ns ! a)) name = Some b \<longrightarrow>
            b < len \<and> pn_parent (ns ! b) = Some a \<and> pn_name (ns ! b) = name) \<and>
         (\<forall>f a. pf_by_export fs f = Some a \<longrightarrow> a < len \<and> (\<exists>e. pn_exp (ns ! a) = Some e \<and> ee_fsid (heap e) = f)))"

text \<open>Later trees keep the nodes of earlier ones, and the exports they cross into.\<close>

definition extends :: "PseudoFs \<Rightarrow> PseudoFs \<Rightarrow> bool" where
  "extends fs fs1 \<longleftrightarrow>
     length (pf_nodes fs) \<le> length (pf_nodes fs1) \<and>
     (\<forall>a<length (pf_nodes fs). fixed (pf_nodes fs1 ! a) = fixed (pf_nodes fs ! a) \<and>
        (pn_exp (pf_nodes fs ! a) \<noteq> None \<longrightarrow> pn_exp (pf_nodes fs1 ! a) = pn_exp (pf_nodes fs ! a)))"

lemma extends_refl: "extends fs fs"
  by (simp add: extends_def)

lemma extends_trans: "extends fs fs1 \<Longrightarrow> extends fs1 fs2 \<Longrightarrow> extends fs fs2"
  unfolding extends_def by (metis less_le_trans order_trans)

lemma pf_parent: "pf_ok heap fs \<Longrightarrow> a < length (pf_nodes fs) \<Longrightarrow> pn_parent (pf_nodes fs ! a) = Some p \<Longrightarrow> p < a"
  unfolding pf_ok_def Let_def by blast

subsection \<open>Paths\<close>

lemma path_up_ends:
  "pf_ok heap fs \<Longrightarrow> a < length (pf_nodes fs) \<Longrightarrow> \<exists>parts. \<forall>acc. path_up (pf_nodes fs) a acc = Some (parts @ acc)"
proof (induction a rule: less_induct)
  case (less a)
  show ?case
  proof (cases "pn_parent (pf_nodes fs ! a)")
    case None
    then have "path_up (pf_nodes fs) a acc = Some ([] @ acc)" for acc by (subst path_up.simps) simp
    then show ?thesis by blast
  next
    case (Some p)
    have p: "p < a" using pf_parent less.prems Some by blast
    obtain parts where "\<forall>acc. path_up (pf_nodes fs) p acc = Some (parts @ acc)" using less.IH [OF p] less.prems p by auto
    then have "path_up (pf_nodes fs) a acc = Some ((parts @ [pn_name (pf_nodes fs ! a)]) @ acc)" for acc
      using Some by (subst path_up.simps) simp
    then show ?thesis by blast
  qed
qed

lemma path_up_extends:
  "extends fs fs1 \<Longrightarrow> pf_ok heap fs \<Longrightarrow> a < length (pf_nodes fs) \<Longrightarrow>
   path_up (pf_nodes fs1) a acc = path_up (pf_nodes fs) a acc"
proof (induction a arbitrary: acc rule: less_induct)
  case (less a)
  have f: "pn_parent (pf_nodes fs1 ! a) = pn_parent (pf_nodes fs ! a)" "pn_name (pf_nodes fs1 ! a) = pn_name (pf_nodes fs ! a)"
    using less.prems by (simp_all add: extends_def fixed_def)
  show ?case
  proof (cases "pn_parent (pf_nodes fs ! a)")
    case None
    then show ?thesis using f by (subst (1 2) path_up.simps) simp
  next
    case (Some p)
    have "p < a" using pf_parent less.prems Some by blast
    then have "path_up (pf_nodes fs1) p acc1 = path_up (pf_nodes fs) p acc1" for acc1 using less by simp
    then show ?thesis using f Some by (subst (1 2) path_up.simps) simp
  qed
qed

lemma path_of_extends:
  "extends fs fs1 \<Longrightarrow> pf_ok heap fs \<Longrightarrow> a < length (pf_nodes fs) \<Longrightarrow> path_of fs1 a = path_of fs a"
  by (simp add: path_of_def path_up_extends)

lemma path_of_child:
  assumes "pf_ok heap fs" "a < length (pf_nodes fs)" "pn_parent (pf_nodes fs ! a) = Some p" "path_of fs p = Some ps"
  shows "path_of fs a = Some (ps @ [pn_name (pf_nodes fs ! a)])"
proof -
  have "p < a" using pf_parent assms(1-3) by blast
  then obtain qs where q: "\<forall>acc. path_up (pf_nodes fs) p acc = Some (qs @ acc)" using path_up_ends [OF assms(1), of p] assms(2) by auto
  then have "qs = ps" using assms(4) by (simp add: path_of_def)
  then show ?thesis using q assms(3) unfolding path_of_def by (subst path_up.simps) simp
qed

subsection \<open>Steps of the construction\<close>

lemma ids_bound:
  assumes "pf_ok heap fs"
  shows "finite (dom (pf_by_id fs))" "card (dom (pf_by_id fs)) \<le> length (pf_nodes fs)"
proof -
  have d: "dom (pf_by_id fs) = pn_id ` set (pf_nodes fs)" using assms by (simp add: pf_ok_def Let_def)
  show "finite (dom (pf_by_id fs))" by (simp add: d)
  show "card (dom (pf_by_id fs)) \<le> length (pf_nodes fs)"
    unfolding d using card_image_le [of "set (pf_nodes fs)" pn_id] card_length [of "pf_nodes fs"] by simp
qed

text \<open>The tree with one more node under a parent.\<close>

definition grown :: "nat \<Rightarrow> string \<Rightarrow> u64 \<Rightarrow> PseudoFs \<Rightarrow> PseudoFs" where
  "grown parent name i fs =
     fs\<lparr>pf_nodes := (pf_nodes fs)[parent := (pf_nodes fs ! parent)\<lparr>pn_children := (name, length (pf_nodes fs)) # pn_children (pf_nodes fs ! parent)\<rparr>] @
          [\<lparr>pn_id = i, pn_name = name, pn_parent = Some parent, pn_children = [], pn_exp = None\<rparr>],
        pf_by_id := (pf_by_id fs)(i \<mapsto> length (pf_nodes fs))\<rparr>"

lemma grown_node:
  assumes "a < length (pf_nodes fs)" "p < length (pf_nodes fs)"
  shows "fixed (pf_nodes (grown p name i fs) ! a) = fixed (pf_nodes fs ! a)"
    "pn_exp (pf_nodes (grown p name i fs) ! a) = pn_exp (pf_nodes fs ! a)"
    "pn_children (pf_nodes (grown p name i fs) ! a) =
       (if a = p then (name, length (pf_nodes fs)) # pn_children (pf_nodes fs ! a) else pn_children (pf_nodes fs ! a))"
  using assms by (simp_all add: grown_def nth_append nth_list_update fixed_def)

lemma grown_last:
  "p < length (pf_nodes fs) \<Longrightarrow> pf_nodes (grown p name i fs) ! length (pf_nodes fs) =
     \<lparr>pn_id = i, pn_name = name, pn_parent = Some p, pn_children = [], pn_exp = None\<rparr>"
  by (simp add: grown_def nth_append)

lemma grown_length: "length (pf_nodes (grown p name i fs)) = Suc (length (pf_nodes fs))"
  by (simp add: grown_def)

lemma grown_extends: "p < length (pf_nodes fs) \<Longrightarrow> extends fs (grown p name i fs)"
  by (simp add: extends_def grown_length grown_node)

lemma fixed_eq: "fixed n = fixed n1 \<Longrightarrow> pn_id n = pn_id n1 \<and> pn_name n = pn_name n1 \<and> pn_parent n = pn_parent n1"
  by (simp add: fixed_def)

lemma grown_children:
  assumes ok: "pf_ok heap fs" and p: "p < length (pf_nodes fs)"
    and a: "a < length (pf_nodes (grown p name i fs))" and m: "map_of (pn_children (pf_nodes (grown p name i fs) ! a)) nm = Some b"
  shows "b < Suc (length (pf_nodes fs)) \<and> pn_parent (pf_nodes (grown p name i fs) ! b) = Some a \<and>
    pn_name (pf_nodes (grown p name i fs) ! b) = nm"
proof -
  let ?g = "grown p name i fs" and ?n = "length (pf_nodes fs)"
  note new = grown_last [OF p, of name i]
  have an: "a < ?n" using a m new by (cases "a = ?n") (auto simp: grown_length)
  show ?thesis
  proof (cases "a = p \<and> nm = name")
    case True
    then show ?thesis using m an new grown_node(3) [OF an p, of name i] by simp
  next
    case False
    then have "map_of (pn_children (pf_nodes fs ! a)) nm = Some b"
      using m grown_node(3) [OF an p, of name i] by (auto split: if_splits)
    then have b: "b < ?n \<and> pn_parent (pf_nodes fs ! b) = Some a \<and> pn_name (pf_nodes fs ! b) = nm"
      using ok an unfolding pf_ok_def Let_def by blast
    then show ?thesis using fixed_eq [OF grown_node(1) [OF _ p, of b name i]] by simp
  qed
qed

lemma pf_ok_grown:
  assumes ok: "pf_ok heap fs" and p: "p < length (pf_nodes fs)" and i: "i \<noteq> 0" "pf_by_id fs i = None"
  shows "pf_ok heap (grown p name i fs)"
proof -
  let ?g = "grown p name i fs" and ?n = "length (pf_nodes fs)"
  note o = ok [unfolded pf_ok_def Let_def]
  have old: "pn_id (pf_nodes ?g ! a) = pn_id (pf_nodes fs ! a)" "pn_name (pf_nodes ?g ! a) = pn_name (pf_nodes fs ! a)"
      "pn_parent (pf_nodes ?g ! a) = pn_parent (pf_nodes fs ! a)" if "a < ?n" for a
    using fixed_eq [OF grown_node(1) [OF that p, of name i]] by simp_all
  note new = grown_last [OF p, of name i]
  have cases: "a < Suc ?n \<longleftrightarrow> a < ?n \<or> a = ?n" for a by auto
  have "i \<noteq> pn_id (pf_nodes fs ! a)" if "a < ?n" for a using o i(2) that by auto
  then have ids: "\<forall>a<Suc ?n. pf_by_id ?g (pn_id (pf_nodes ?g ! a)) = Some a \<and> pn_id (pf_nodes ?g ! a) \<noteq> 0"
    using o i(1) old new unfolding cases by (auto simp: grown_def)
  have "map pn_id (pf_nodes ?g) = map pn_id (pf_nodes fs) @ [i]"
    by (rule nth_equalityI) (auto simp: grown_length nth_append old new less_Suc_eq)
  then have "pn_id ` set (pf_nodes ?g) = insert i (pn_id ` set (pf_nodes fs))" by (metis list.set_map set_append Un_insert_right empty_set list.simps(15) sup_bot_right)
  then have dom: "dom (pf_by_id ?g) = pn_id ` set (pf_nodes ?g)" using o by (simp add: grown_def)
  have par: "\<forall>a<Suc ?n. \<forall>q. pn_parent (pf_nodes ?g ! a) = Some q \<longrightarrow> q < a"
    using o old new p unfolding cases by auto
  have chi: "\<forall>a<Suc ?n. \<forall>nm b. map_of (pn_children (pf_nodes ?g ! a)) nm = Some b \<longrightarrow>
      b < Suc ?n \<and> pn_parent (pf_nodes ?g ! b) = Some a \<and> pn_name (pf_nodes ?g ! b) = nm"
    using grown_children [OF ok p] by (simp add: grown_length)
  have exp: "\<forall>f a. pf_by_export ?g f = Some a \<longrightarrow> a < Suc ?n \<and> (\<exists>e. pn_exp (pf_nodes ?g ! a) = Some e \<and> ee_fsid (heap e) = f)"
  proof (intro allI impI)
    fix f a assume "pf_by_export ?g f = Some a"
    then have "a < ?n \<and> (\<exists>e. pn_exp (pf_nodes fs ! a) = Some e \<and> ee_fsid (heap e) = f)" using o by (simp add: grown_def)
    then show "a < Suc ?n \<and> (\<exists>e. pn_exp (pf_nodes ?g ! a) = Some e \<and> ee_fsid (heap e) = f)"
      using grown_node(2) [OF _ p] by auto
  qed
  have "pf_nodes ?g \<noteq> []" "pn_parent (pf_nodes ?g ! 0) = None" using o old [of 0] by (auto simp: grown_def)
  then show ?thesis using ids dom par chi exp unfolding pf_ok_def Let_def grown_length by blast
qed

text \<open>The bound that keeps the search for ids finite.\<close>

definition kMaxNodes :: nat where "kMaxNodes = 2 ^ 64 - 1"

lemma ensure_child_ok:
  assumes ok: "pf_ok heap fs" and p: "p < length (pf_nodes fs)" and ps: "path_of fs p = Some ps" and room: "length (pf_nodes fs) < kMaxNodes"
  shows "\<exists>a fs1. ensure_child p name full fs = Some (a, fs1) \<and> pf_ok heap fs1 \<and> extends fs fs1 \<and> a < length (pf_nodes fs1) \<and>
    path_of fs1 a = Some (ps @ [name]) \<and> length (pf_nodes fs1) \<le> Suc (length (pf_nodes fs))"
proof (cases "map_of (pn_children (pf_nodes fs ! p)) name")
  case (Some a)
  then have "a < length (pf_nodes fs)" "pn_parent (pf_nodes fs ! a) = Some p" "pn_name (pf_nodes fs ! a) = name"
    using ok p unfolding pf_ok_def Let_def by blast+
  then show ?thesis using Some ok path_of_child [OF ok _ _ ps] extends_refl by (auto simp: ensure_child_def)
next
  case None
  obtain i where i: "stable_id fs full = Some i" "i \<noteq> 0" "pf_by_id fs i = None"
    using probe_ends ids_bound [OF ok] room unfolding stable_id_def kMaxNodes_def by (meson le_less_trans)
  let ?g = "grown p name i fs"
  have okg: "pf_ok heap ?g" by (rule pf_ok_grown [OF ok p i(2,3)])
  have "path_of ?g p = Some ps" using path_of_extends [OF grown_extends [OF p] ok p] ps by simp
  then have "path_of ?g (length (pf_nodes fs)) = Some (ps @ [name])"
    using path_of_child [OF okg, of "length (pf_nodes fs)" p ps] grown_last [OF p, of name i] by (simp add: grown_length)
  moreover have "ensure_child p name full fs = Some (length (pf_nodes fs), ?g)"
    using None i(1) by (simp add: ensure_child_def grown_def Let_def)
  ultimately show ?thesis using okg grown_extends [OF p] by (simp add: grown_length)
qed

lemma add_parts_ok:
  assumes "pf_ok heap fs" "p < length (pf_nodes fs)" "path_of fs p = Some ps" "length (pf_nodes fs) + length parts \<le> kMaxNodes"
  shows "\<exists>a fs1. add_parts parts p full fs = Some (a, fs1) \<and> pf_ok heap fs1 \<and> extends fs fs1 \<and> a < length (pf_nodes fs1) \<and>
    path_of fs1 a = Some (ps @ parts) \<and> length (pf_nodes fs1) \<le> length (pf_nodes fs) + length parts"
  using assms
proof (induction parts arbitrary: p ps full fs)
  case Nil
  then show ?case using extends_refl by simp
next
  case (Cons x xs)
  obtain a fs1 where one: "ensure_child p x (full @ ''/'' @ x) fs = Some (a, fs1)" "pf_ok heap fs1" "extends fs fs1"
      "a < length (pf_nodes fs1)" "path_of fs1 a = Some (ps @ [x])" "length (pf_nodes fs1) \<le> Suc (length (pf_nodes fs))"
    using ensure_child_ok [OF Cons.prems(1-3), of x "full @ ''/'' @ x"] Cons.prems(4) by auto
  obtain b fs2 where "add_parts xs a (full @ ''/'' @ x) fs1 = Some (b, fs2)" "pf_ok heap fs2" "extends fs1 fs2"
      "b < length (pf_nodes fs2)" "path_of fs2 b = Some ((ps @ [x]) @ xs)" "length (pf_nodes fs2) \<le> length (pf_nodes fs1) + length xs"
    using Cons.IH [OF one(2,4,5)] one(6) Cons.prems(4) by fastforce
  then show ?case using one extends_trans [of fs fs1 fs2] by (auto simp: Let_def)
qed

lemma set_exp_ok:
  assumes ok: "pf_ok heap fs" and c: "c < length (pf_nodes fs)" and free: "pn_exp (pf_nodes fs ! c) = None"
  shows "pf_ok heap (fs\<lparr>pf_nodes := (pf_nodes fs)[c := (pf_nodes fs ! c)\<lparr>pn_exp := Some e\<rparr>],
    pf_by_export := (pf_by_export fs)(ee_fsid (heap e) \<mapsto> c)\<rparr>)" (is "pf_ok heap ?fs")
proof -
  note o = ok [unfolded pf_ok_def Let_def]
  have same: "pn_id (pf_nodes ?fs ! a) = pn_id (pf_nodes fs ! a)" "pn_name (pf_nodes ?fs ! a) = pn_name (pf_nodes fs ! a)"
      "pn_parent (pf_nodes ?fs ! a) = pn_parent (pf_nodes fs ! a)" "pn_children (pf_nodes ?fs ! a) = pn_children (pf_nodes fs ! a)" for a
    using c by (cases "a = c"; simp)+
  have len: "length (pf_nodes ?fs) = length (pf_nodes fs)" by simp
  have "map pn_id (pf_nodes ?fs) = map pn_id (pf_nodes fs)" by (rule nth_equalityI) (use same(1) in simp_all)
  then have ids: "pn_id ` set (pf_nodes ?fs) = pn_id ` set (pf_nodes fs)" by (metis list.set_map)
  have dom: "dom (pf_by_id ?fs) = pn_id ` set (pf_nodes ?fs)" using o ids by simp
  have exp: "\<forall>f a. pf_by_export ?fs f = Some a \<longrightarrow> a < length (pf_nodes fs) \<and> (\<exists>e. pn_exp (pf_nodes ?fs ! a) = Some e \<and> ee_fsid (heap e) = f)"
  proof (intro allI impI)
    fix f a assume fa: "pf_by_export ?fs f = Some a"
    show "a < length (pf_nodes fs) \<and> (\<exists>e. pn_exp (pf_nodes ?fs ! a) = Some e \<and> ee_fsid (heap e) = f)"
    proof (cases "f = ee_fsid (heap e)")
      case True
      then show ?thesis using fa c by simp
    next
      case False
      then have "a < length (pf_nodes fs) \<and> (\<exists>e. pn_exp (pf_nodes fs ! a) = Some e \<and> ee_fsid (heap e) = f)"
        using fa o by simp
      moreover from this have "a \<noteq> c" using free by auto
      ultimately show ?thesis by simp
    qed
  qed
  have "pf_nodes ?fs \<noteq> []" "pf_by_id ?fs = pf_by_id fs" using o by simp_all
  then show ?thesis using o exp dom unfolding pf_ok_def Let_def same len by simp
qed

lemma add_entry_ok:
  assumes ok: "pf_ok heap fs" and room: "length (pf_nodes fs) + length (path_parts (ee_path (heap e))) \<le> kMaxNodes"
  shows "\<exists>a fs1. add_entry heap e fs = Some fs1 \<and> pf_ok heap fs1 \<and> extends fs fs1 \<and> a < length (pf_nodes fs1) \<and>
    path_of fs1 a = Some (path_parts (ee_path (heap e))) \<and> pn_exp (pf_nodes fs1 ! a) \<noteq> None \<and>
    length (pf_nodes fs1) \<le> length (pf_nodes fs) + length (path_parts (ee_path (heap e)))"
proof -
  let ?ps = "path_parts (ee_path (heap e))"
  have z: "0 < length (pf_nodes fs)" "pn_parent (pf_nodes fs ! 0) = None" using ok by (simp_all add: pf_ok_def Let_def)
  have "path_of fs 0 = Some []" unfolding path_of_def using z(2) by (subst path_up.simps) simp
  then obtain a fs1 where s: "add_parts ?ps 0 [] fs = Some (a, fs1)" "pf_ok heap fs1" "extends fs fs1" "a < length (pf_nodes fs1)"
      "path_of fs1 a = Some ?ps" "length (pf_nodes fs1) \<le> length (pf_nodes fs) + length ?ps"
    using add_parts_ok [OF ok z(1) _ room, of "[]" "[]"] by auto
  show ?thesis
  proof (cases "pn_exp (pf_nodes fs1 ! a) = None")
    case True
    let ?f = "fs1\<lparr>pf_nodes := (pf_nodes fs1)[a := (pf_nodes fs1 ! a)\<lparr>pn_exp := Some e\<rparr>],
      pf_by_export := (pf_by_export fs1)(ee_fsid (heap e) \<mapsto> a)\<rparr>"
    have x: "extends fs1 ?f" using True s(4) by (auto simp: extends_def fixed_def nth_list_update)
    have "path_of ?f a = Some ?ps" using path_of_extends [OF x s(2,4)] s(5) by simp
    moreover have "add_entry heap e fs = Some ?f" using s(1) True by (simp add: add_entry_def)
    moreover have "pf_ok heap ?f" by (rule set_exp_ok [OF s(2,4) True])
    moreover have "extends fs ?f" by (rule extends_trans [OF s(3) x])
    ultimately show ?thesis using s(4,6) by (intro exI [of _ a] exI [of _ ?f]) simp
  next
    case False
    then show ?thesis using s by (intro exI [of _ a] exI [of _ fs1]) (auto simp: add_entry_def)
  qed
qed

definition parts_total :: "(nat \<Rightarrow> ExportEntry) \<Rightarrow> nat list \<Rightarrow> nat" where
  "parts_total heap es = sum_list (map (\<lambda>e. length (path_parts (ee_path (heap e)))) es)"

text \<open>An export has its place in a tree.\<close>

definition placed :: "(nat \<Rightarrow> ExportEntry) \<Rightarrow> PseudoFs \<Rightarrow> nat \<Rightarrow> bool" where
  "placed heap fs e \<longleftrightarrow> (\<exists>a<length (pf_nodes fs). path_of fs a = Some (path_parts (ee_path (heap e))) \<and> pn_exp (pf_nodes fs ! a) \<noteq> None)"

lemma placed_extends: "placed heap fs e \<Longrightarrow> extends fs fs1 \<Longrightarrow> pf_ok heap fs \<Longrightarrow> placed heap fs1 e"
  unfolding placed_def using path_of_extends by (metis extends_def less_le_trans)

lemma add_entries_ok:
  assumes "pf_ok heap fs" "length (pf_nodes fs) + parts_total heap es \<le> kMaxNodes"
  shows "\<exists>fs1. add_entries heap es fs = Some fs1 \<and> pf_ok heap fs1 \<and> extends fs fs1 \<and> list_all (placed heap fs1) es"
  using assms
proof (induction es arbitrary: fs)
  case Nil
  then show ?case using extends_refl by simp
next
  case (Cons e es)
  obtain a fs1 where one: "add_entry heap e fs = Some fs1" "pf_ok heap fs1" "extends fs fs1" "a < length (pf_nodes fs1)"
      "path_of fs1 a = Some (path_parts (ee_path (heap e)))" "pn_exp (pf_nodes fs1 ! a) \<noteq> None"
      "length (pf_nodes fs1) \<le> length (pf_nodes fs) + length (path_parts (ee_path (heap e)))"
    using add_entry_ok [OF Cons.prems(1), of e] Cons.prems(2) by (auto simp: parts_total_def)
  obtain fs2 where two: "add_entries heap es fs1 = Some fs2" "pf_ok heap fs2" "extends fs1 fs2" "list_all (placed heap fs2) es"
    using Cons.IH [OF one(2)] one(7) Cons.prems(2) by (auto simp: parts_total_def)
  have "placed heap fs1 e" using one(4-6) by (auto simp: placed_def)
  then have "placed heap fs2 e" using placed_extends two(3) one(2) by blast
  then show ?case using one(1,3) two extends_trans by auto
qed

section \<open>The tree is built, and its handles name its nodes\<close>


definition demo_tree :: "nat \<Rightarrow> ExportEntry" where
  "demo_tree a = new_export_entry (default_export_config\<lparr>ec_path := (if a = 0 then ''/srv/a'' else ''/srv/b''), ec_fsid := of_nat a + 1\<rparr>) 0 []"


end
