(* ===== verification/Spec2Isabelle.thy ===== *)
theory Spec2Isabelle
  imports StateClose StateSession RpcMsg RecordStream Drc Catalog ErrMap Names MemFs PseudoFs
begin

text \<open>
  A verification of lightnfs, a userspace NFS gateway (sources under \<^verbatim>\<open>src/src/\<close>).

  \<^bold>\<open>The program.\<close>  Bytes arrive on a connection, are cut into records (\<^verbatim>\<open>transport/\<close>), decoded as RPC calls
  (\<^verbatim>\<open>xdr/\<close>, \<^verbatim>\<open>rpc/\<close>), looked up in the duplicate request cache and handed to a protocol engine.  An engine decodes
  file handles against the published export set, asks a backend, and for NFSv4 consults the state
  manager for clients, sessions, opens, locks and delegations.  Exports come from a local file or a catalog
  shared by several gateways.

  \<^bold>\<open>Conventions.\<close>  \<^verbatim>\<open>Prelude\<close> holds the machine words, byte images, error codes and the result type: an error is the
  left value of a sum, and propagation is \<^verbatim>\<open>try_res\<close>.  Unsigned integers keep their width and wrap.  State is
  passed explicitly as records.  Objects that are shared in the source live at addresses of a heap.  Code
  outside the repository (address parsing, native lock managers, storage answers, clocks) is an argument.

  \<^bold>\<open>Theories.\<close>
  \<^item> \<^verbatim>\<open>LockMgr\<close> (\<^verbatim>\<open>state/lock_mgr.cpp\<close>): the byte-range lock table.  No two owners hold conflicting ranges, a
    request is granted exactly when nothing conflicts, test agrees with lock, unlock frees exactly its range.
  \<^item> \<^verbatim>\<open>Nfs4Types\<close>, \<^verbatim>\<open>StateTypes\<close>, \<^verbatim>\<open>StateGrace\<close>, \<^verbatim>\<open>StateUnlink\<close>, \<^verbatim>\<open>StateExpire\<close>, \<^verbatim>\<open>StateClient\<close>, \<^verbatim>\<open>StateOpen\<close>, \<^verbatim>\<open>StateDeleg\<close>, \<^verbatim>\<open>StateLock\<close>,
    \<^verbatim>\<open>StateLease\<close> (\<^verbatim>\<open>state/state_mgr.cpp\<close>): the data and operations of the state manager.  \<^verbatim>\<open>StateFrame\<close> and \<^verbatim>\<open>StateDemo\<close> hold
    frame lemmas and a concrete run; \<^verbatim>\<open>StateShare\<close>, \<^verbatim>\<open>StateTable\<close>, \<^verbatim>\<open>StateClose\<close> and \<^verbatim>\<open>StateSession\<close> the invariants of reachable
    states: share reservations hold, stateids are unique, IO respects deny modes, closing and expiry leave
    nothing behind, a slot executes a request once, grace gates opens, an unconflicted open succeeds.
  \<^item> \<^verbatim>\<open>Buffer\<close>, \<^verbatim>\<open>Xdr\<close>, \<^verbatim>\<open>XdrEnc\<close> (\<^verbatim>\<open>runtime/buffer\<close>, \<^verbatim>\<open>xdr/xdr.hpp\<close>): the buffer pool never hands a block out twice and stays
    bounded; decoding a chain of segments equals decoding the flat bytes; rollback restores the encoder.
  \<^item> \<^verbatim>\<open>RpcMsg\<close>, \<^verbatim>\<open>RecordStream\<close>, \<^verbatim>\<open>Drc\<close> (\<^verbatim>\<open>rpc/\<close>, \<^verbatim>\<open>transport/record_stream.cpp\<close>): round trips of calls, credentials and records, the reply
    discipline of dispatch, and the duplicate request cache: one executor per request, a reply is replayed
    only to its own request, and the memory of the cache is bounded.
  \<^item> \<^verbatim>\<open>ConfigText\<close>, \<^verbatim>\<open>Exports\<close> (\<^verbatim>\<open>core/config.cpp\<close>): the values of the configuration text and their canonical writers; client
    ranges, squashing, and the atomic replacement of the export set.
  \<^item> \<^verbatim>\<open>FileHandle\<close> (\<^verbatim>\<open>core/file_handle.cpp\<close>): a handle decodes exactly when it is the tagged encoding of its contents and the
    export admits the peer.
  \<^item> \<^verbatim>\<open>Catalog\<close> (\<^verbatim>\<open>core/catalog.cpp\<close>): the canonical text of a catalog parses back to it, and an empty difference means equal exports.
  \<^item> \<^verbatim>\<open>ErrMap\<close>, \<^verbatim>\<open>Names\<close> (\<^verbatim>\<open>core/errmap.cpp\<close>, \<^verbatim>\<open>core/names.cpp\<close>): every error answered is in the table of its operation; the UTF-8
    check accepts exactly the encodings of permitted code points.
  \<^item> \<^verbatim>\<open>BackendApi\<close>, \<^verbatim>\<open>MemFs\<close> (\<^verbatim>\<open>backend/api.cpp\<close>, \<^verbatim>\<open>backend/memory/memory.cpp\<close>): the default permission check and the in-memory backend, whose
    directories stay consistent and whose rename always answers.
  \<^item> \<^verbatim>\<open>PseudoFs\<close> (\<^verbatim>\<open>core/pseudofs.cpp\<close>): the tree above the exports is built, and its handles name its nodes.

  \<^bold>\<open>Bounds.\<close>  Loops are structural recursions or functions with a measure.  Three loops that may run forever are
  partial functions and are shown to return: the search for a free pseudo node id, for fewer than
  \<^verbatim>\<open>2 ^ 64 - 1\<close> nodes; the walk from a pseudo node to the root; and the ancestor walk of rename, in every reachable
  state.  Reachable states of the in-memory backend stop short of the wrap of its 64-bit cookie counter
  (\<^verbatim>\<open>room\<close>).  Where a 64-bit sum wraps and the source then writes out of bounds, the model has no answer.

  \<^bold>\<open>Not modelled.\<close>  The protocol engines and their attribute and NFSv3 codecs, the callback client and the mount
  protocol: coroutines that compose the parts above.  The local, CephFS, Gluster and Lustre backends: system
  calls and libraries outside the repository.  The runtime, connections and TLS: threads, atomics and kernel
  rings; the models here are sequential and say nothing about data races.  Token buckets: floating point.
  The daemon, control socket, cluster controller and store, metrics and logging: processes, files, timers
  and text output.  Of the configuration file the whole-file parser, validation and digest are left out.
\<close>

end
